(* ===== verification/Prelude.thy ===== *)
theory Prelude
  imports Main "HOL-Library.Word" "HOL-Library.AList" "HOL-Library.Multiset"
begin

section \<open>Prelude: outcomes, errors, Go maps and the shared lemmas\<close>

text \<open>
  What every component of the development shares.

  \<^item> \<open>run\<close>: how a call of a Go function ends. It returns a value, it panics, or it never
    returns. An error that the code returns as a value is not an outcome of its own: a
    fallible function returns \<open>Ret (Inl e)\<close>, and the state it leaves behind comes with it.
  \<^item> \<open>go_error\<close>: the errors the code returns, one constructor per \<open>errors.New\<close> /
    \<open>fmt.Errorf\<close> / wrap of the source, and \<open>api_error\<close>: what the Kubernetes client
    reports, split where the code splits it (\<open>apierrors.IsNotFound\<close>).
  \<^item> the order in which Go's \<open>range\<close> visits a map: unspecified by the language, so an
    argument \<open>ord\<close> of the definitions that iterate, of which only \<open>range_order\<close> is known.
  \<^item> 64-bit signed arithmetic with the wrap-around written out.
\<close>

named_theorems pool_simps \<open>characteristic equations of the model's operations\<close>
named_theorems pool_intros \<open>preservation facts of the model's operations\<close>

subsection \<open>Outcomes of a call\<close>

datatype 'a run = Ret 'a | Panics | Hangs

fun bind_run :: "'a run \<Rightarrow> ('a \<Rightarrow> 'b run) \<Rightarrow> 'b run" where
  "bind_run (Ret x) f = f x"
| "bind_run Panics f = Panics"
| "bind_run Hangs f = Hangs"

text \<open>A loop that may run forever is a partial function; not returning is \<open>None\<close>.\<close>

fun run_loop :: "'a run option \<Rightarrow> 'a run" where
  "run_loop None = Hangs"
| "run_loop (Some r) = r"

lemma bind_run_eq_Ret:
  "bind_run r f = Ret y \<longleftrightarrow> (\<exists>x. r = Ret x \<and> f x = Ret y)"
  by (cases r) auto

lemma bind_run_split:
  "P (bind_run r f) \<longleftrightarrow>
     (\<forall>x. r = Ret x \<longrightarrow> P (f x)) \<and> (r = Panics \<longrightarrow> P Panics) \<and> (r = Hangs \<longrightarrow> P Hangs)"
  by (cases r) auto

lemma bind_run_split_asm:
  "P (bind_run r f) \<longleftrightarrow>
     \<not> ((\<exists>x. r = Ret x \<and> \<not> P (f x)) \<or> (r = Panics \<and> \<not> P Panics) \<or> (r = Hangs \<and> \<not> P Hangs))"
  by (cases r) auto

lemmas bind_run_splits = bind_run_split bind_run_split_asm

lemma run_loop_eq_Ret [simp]: "run_loop r = Ret x \<longleftrightarrow> r = Some (Ret x)"
  by (cases r) auto

subsection \<open>Errors\<close>

text \<open>
  The Kubernetes client's error, as the code tells it apart: a 404, a conflict of an update, or
  anything else.
\<close>

datatype api_error = NotFound | Conflict | ApiError string

datatype go_error =
    ErrInvalidMac string
  | ErrSyntax string
  | ErrOutOfRange string
  | ErrInvalidRange
  | ErrPoolSize go_error
  | ErrNegativePoolSize int
  | ErrRand string
  | ErrMulticast "8 word"
  | ErrRangeStart go_error
  | ErrRangeEnd go_error
  | ErrCurrentMac go_error
  | ErrInitialRange go_error
  | ErrFull
  | ErrNoSuchEntry
  | ErrDuplicateInterface
  | ErrVmMacFormat string string
  | ErrVmDuplicateMac string string string
  | ErrMacAllocated
  | ErrVmName
  | ErrApi api_error
  | ErrWrap string go_error
  | ErrNoWebhook string
  | ErrNoNamespaceSelector string
  | ErrNoOptMode string
  | ErrOptModeUndefined
  | ErrSelector string
  | ErrNetworkAnnotation string
  | ErrMarshal string
  | ErrTimestamp string
  | ErrRangeKey string
  | ErrTlsVersion string
  | ErrEnvMissing string
  | ErrDuration string
  | ErrControllerName string
  | ErrNotReady
  | ErrAlreadyRegistered string
  | ErrInconsistent string
  | ErrUnregister string
  | ErrNoRules
  | ErrArguments nat
  | ErrNoManagerPods

text \<open>\<open>apierrors.IsNotFound\<close> looks through the wrappers of \<open>errors.Wrap\<close>.\<close>

fun IsNotFound :: "go_error \<Rightarrow> bool" where
  "IsNotFound (ErrApi NotFound) = True"
| "IsNotFound (ErrWrap _ e) = IsNotFound e"
| "IsNotFound _ = False"

subsection \<open>Loops that stop at the first error\<close>

fun for_each :: "('i \<Rightarrow> 's \<Rightarrow> (go_error option \<times> 's) run) \<Rightarrow> 'i list \<Rightarrow> 's \<Rightarrow>
    (go_error option \<times> 's) run" where
  "for_each body [] s = Ret (None, s)"
| "for_each body (x # xs) s =
     bind_run (body x s) (\<lambda>(e, s'). case e of
       Some err \<Rightarrow> Ret (Some err, s')
     | None \<Rightarrow> for_each body xs s')"

lemma for_each_append:
  "for_each body (xs @ ys) s =
     bind_run (for_each body xs s) (\<lambda>(e, s'). case e of
       Some err \<Rightarrow> Ret (Some err, s') | None \<Rightarrow> for_each body ys s')"
proof (induction xs arbitrary: s)
  case (Cons x xs)
  then show ?case by (cases "body x s") (auto split: option.split)
qed simp

text \<open>A loop whose body always returns and keeps \<open>I\<close> returns and keeps \<open>I\<close>.\<close>

lemma for_each_invariant:
  assumes "I s" and body: "\<And>x s. x \<in> set xs \<Longrightarrow> I s \<Longrightarrow> \<exists>e s'. body x s = Ret (e, s') \<and> I s'"
  shows "\<exists>e s'. for_each body xs s = Ret (e, s') \<and> I s'"
  using assms
proof (induction xs arbitrary: s)
  case (Cons x xs)
  obtain e s' where x: "body x s = Ret (e, s')" "I s'"
    using Cons.prems(1) Cons.prems(2) [of x s] by auto
  with Cons.IH [of s'] Cons.prems(2) show ?case by (cases e) auto
qed simp

text \<open>What the round of one item establishes and the other rounds keep holds after the loop.\<close>

lemma for_each_establishes:
  assumes "for_each body xs s = Ret (None, s')" "x \<in> set xs"
    and "\<And>s s'. body x s = Ret (None, s') \<Longrightarrow> Q s'"
    and "\<And>y s s'. body y s = Ret (None, s') \<Longrightarrow> Q s \<Longrightarrow> Q s'"
  shows "Q s'"
proof -
  have keeps: "for_each body ys s = Ret (None, s') \<Longrightarrow> Q s \<Longrightarrow> Q s'" for ys s
    by (induction ys arbitrary: s) (auto simp: bind_run_eq_Ret intro: assms(4) split: option.splits)
  show ?thesis
    using assms(1,2)
    by (induction xs arbitrary: s) (auto simp: bind_run_eq_Ret intro: assms(3) keeps split: option.splits)
qed

text \<open>A loop whose body never fails is a fold.\<close>

lemma for_each_fold:
  assumes "\<And>x s. x \<in> set xs \<Longrightarrow> body x s = Ret (None, f x s)"
  shows "for_each body xs s = Ret (None, fold f xs s)"
  using assms by (induction xs arbitrary: s) auto

text \<open>One item whose round fails makes the loop fail, whatever the earlier rounds did.\<close>

lemma for_each_fails:
  assumes "I s" "x \<in> set xs" "\<And>s. I s \<Longrightarrow> \<exists>err s'. body x s = Ret (Some err, s')"
    and body: "\<And>y s. y \<in> set xs \<Longrightarrow> I s \<Longrightarrow> \<exists>e s'. body y s = Ret (e, s') \<and> I s'"
  shows "\<exists>err s'. for_each body xs s = Ret (Some err, s')"
  using assms
proof (induction xs arbitrary: s)
  case (Cons y ys)
  obtain e s' where y: "body y s = Ret (e, s')" "I s'"
    using Cons.prems(1) Cons.prems(4) [of y s] by auto
  show ?case
  proof (cases e)
    case None
    with y Cons.prems(1,3) have "x \<noteq> y" by force
    with None y Cons.IH [of s'] Cons.prems show ?thesis by auto
  qed (simp add: y)
qed simp

text \<open>A quantity that every round of a loop enlarges by what its item contributes.\<close>

lemma for_each_accumulates:
  assumes "I s" "\<And>x s. x \<in> set xs \<Longrightarrow> I s \<Longrightarrow> \<exists>s'. body x s = Ret (None, s') \<and> I s' \<and> h s' = h s \<union> H x"
  shows "\<exists>s'. for_each body xs s = Ret (None, s') \<and> I s' \<and> h s' = h s \<union> (\<Union>x\<in>set xs. H x)"
  using assms
proof (induction xs arbitrary: s)
  case (Cons x xs)
  obtain s' where x: "body x s = Ret (None, s')" "I s'" "h s' = h s \<union> H x"
    using Cons.prems(1) Cons.prems(2) [of x s] by auto
  with Cons.IH [of s'] Cons.prems(2) show ?case by auto
qed simp

text \<open>What a call keeps whenever it returns, whatever it answers.\<close>

definition keeps_run :: "('s \<Rightarrow> bool) \<Rightarrow> ('s \<Rightarrow> (go_error option \<times> 's) run) \<Rightarrow> bool" where
  "keeps_run I f \<longleftrightarrow> (\<forall>s e s'. I s \<longrightarrow> f s = Ret (e, s') \<longrightarrow> I s')"

lemma keeps_runI: "(\<And>s e s'. I s \<Longrightarrow> f s = Ret (e, s') \<Longrightarrow> I s') \<Longrightarrow> keeps_run I f"
  by (auto simp: keeps_run_def)

lemma keeps_runD: "keeps_run I f \<Longrightarrow> I s \<Longrightarrow> f s = Ret (e, s') \<Longrightarrow> I s'"
  by (auto simp: keeps_run_def)

lemma keeps_Ret: "keeps_run I (\<lambda>s. Ret (e, s))"
  by (simp add: keeps_run_def)

lemma keeps_for_each: "(\<And>x. x \<in> set xs \<Longrightarrow> keeps_run I (body x)) \<Longrightarrow> keeps_run I (for_each body xs)"
proof (induction xs)
  case (Cons x xs)
  then have x: "keeps_run I (body x)" and xs: "keeps_run I (for_each body xs)" by auto
  show ?case
  proof (rule keeps_runI)
    fix s e s' assume s: "I s" and r: "for_each body (x # xs) s = Ret (e, s')"
    from r obtain e1 s1 where 1: "body x s = Ret (e1, s1)" by (auto simp: bind_run_eq_Ret)
    with x s have "I s1" by (rule keeps_runD)
    with r 1 xs show "I s'" by (cases e1) (auto intro: keeps_runD)
  qed
qed (simp add: keeps_run_def)

text \<open>The error of a call may be wrapped, and a call may follow another.\<close>

lemma keeps_wrap: "keeps_run I f \<Longrightarrow> keeps_run I (\<lambda>s. bind_run (f s) (\<lambda>(e, s'). Ret (g e, s')))"
proof (rule keeps_runI)
  fix s e s' assume f: "keeps_run I f" "I s" and r: "bind_run (f s) (\<lambda>(e, s'). Ret (g e, s')) = Ret (e, s')"
  from r obtain e1 where "f s = Ret (e1, s')" by (auto simp: bind_run_eq_Ret)
  with f show "I s'" by (rule keeps_runD)
qed

lemma keeps_then:
  assumes "keeps_run I f" "\<And>e. keeps_run I (g e)"
  shows "keeps_run I (\<lambda>s. bind_run (f s) (\<lambda>(e, s'). g e s'))"
proof (rule keeps_runI)
  fix s e s' assume "I s" and r: "bind_run (f s) (\<lambda>(e, s'). g e s') = Ret (e, s')"
  from r obtain e1 s1 where "f s = Ret (e1, s1)" "g e1 s1 = Ret (e, s')" by (auto simp: bind_run_eq_Ret)
  with \<open>I s\<close> assms show "I s'" by (blast dest: keeps_runD)
qed

lemma keeps_case_option:
  "keeps_run I f \<Longrightarrow> (\<And>x. keeps_run I (g x)) \<Longrightarrow> keeps_run I (\<lambda>s. case r of None \<Rightarrow> f s | Some x \<Rightarrow> g x s)"
  by (cases r) simp_all

lemma keeps_case_sum:
  "(\<And>e. keeps_run I (f e)) \<Longrightarrow> (\<And>x. keeps_run I (g x)) \<Longrightarrow> keeps_run I (\<lambda>s. case r of Inl e \<Rightarrow> f e s | Inr x \<Rightarrow> g x s)"
  by (cases r) simp_all

lemma keeps_bind_Ret:
  assumes "\<And>x. keeps_run I (f x)"
  shows "keeps_run I (\<lambda>s. bind_run r (\<lambda>x. f x s))"
proof (cases r)
  case (Ret x)
  then show ?thesis using assms [of x] by simp
qed (simp_all add: keeps_run_def)

lemma keeps_if: "keeps_run I f \<Longrightarrow> keeps_run I g \<Longrightarrow> keeps_run I (\<lambda>s. if b s then f s else g s)"
proof (rule keeps_runI)
  fix s e s'
  assume fg: "keeps_run I f" "keeps_run I g" and s: "I s" and r: "(if b s then f s else g s) = Ret (e, s')"
  then have "f s = Ret (e, s') \<or> g s = Ret (e, s')" by metis
  then show "I s'" using keeps_runD [OF fg(1) s] keeps_runD [OF fg(2) s] by metis
qed

lemmas keeps_intros = keeps_Ret keeps_if keeps_case_sum keeps_case_option keeps_bind_Ret keeps_wrap keeps_for_each

text \<open>A call that does not panic either, in a state that it keeps.\<close>

definition safe_run :: "('s \<Rightarrow> bool) \<Rightarrow> ('s \<Rightarrow> (go_error option \<times> 's) run) \<Rightarrow> bool" where
  "safe_run I f \<longleftrightarrow> keeps_run I f \<and> (\<forall>s. I s \<longrightarrow> f s \<noteq> Panics)"

lemma safe_runI: "(\<And>s. I s \<Longrightarrow> \<exists>e s'. f s = Ret (e, s') \<and> I s') \<Longrightarrow> safe_run I f"
  unfolding safe_run_def keeps_run_def by fastforce

lemma safe_runD: "safe_run I f \<Longrightarrow> I s \<Longrightarrow> f s \<noteq> Panics" "safe_run I f \<Longrightarrow> keeps_run I f"
  by (simp_all add: safe_run_def)

lemma safe_run_cases:
  assumes "safe_run I f" "I s"
  obtains e s' where "f s = Ret (e, s')" "I s'" | "f s = Hangs"
proof (cases "f s")
  case (Ret x)
  with assms that(1) show thesis by (cases x) (auto simp: safe_run_def dest: keeps_runD)
qed (use assms that(2) in \<open>auto simp: safe_run_def\<close>)

lemma safe_Ret: "safe_run I (\<lambda>s. Ret (e, s))"
  by (simp add: safe_run_def keeps_Ret)

lemma safe_then:
  assumes "safe_run I f" "\<And>e. safe_run I (g e)"
  shows "safe_run I (\<lambda>s. bind_run (f s) (\<lambda>(e, s'). g e s'))"
  unfolding safe_run_def
proof (intro conjI allI impI)
  show "keeps_run I (\<lambda>s. bind_run (f s) (\<lambda>(e, s'). g e s'))" using assms by (intro keeps_then safe_runD)
  show "bind_run (f s) (\<lambda>(e, s'). g e s') \<noteq> Panics" if "I s" for s
    using assms(1) that by (cases rule: safe_run_cases) (use assms(2) in \<open>auto dest: safe_runD\<close>)
qed

lemma safe_if: "safe_run I f \<Longrightarrow> safe_run I g \<Longrightarrow> safe_run I (\<lambda>s. if b s then f s else g s)"
  by (simp add: safe_run_def keeps_if)

lemma safe_case_option:
  "safe_run I f \<Longrightarrow> (\<And>x. r = Some x \<Longrightarrow> safe_run I (g x)) \<Longrightarrow> safe_run I (\<lambda>s. case r of None \<Rightarrow> f s | Some x \<Rightarrow> g x s)"
  by (cases r) simp_all

lemma safe_case_sum:
  "(\<And>e. safe_run I (f e)) \<Longrightarrow> (\<And>x. r = Inr x \<Longrightarrow> safe_run I (g x)) \<Longrightarrow> safe_run I (\<lambda>s. case r of Inl e \<Rightarrow> f e s | Inr x \<Rightarrow> g x s)"
  by (cases r) simp_all

lemma safe_bind_Ret:
  assumes "r \<noteq> Panics" "\<And>x. r = Ret x \<Longrightarrow> safe_run I (f x)"
  shows "safe_run I (\<lambda>s. bind_run r (\<lambda>x. f x s))"
  using assms by (cases r) (simp_all add: safe_run_def keeps_run_def)

lemma safe_for_each: "(\<And>x. x \<in> set xs \<Longrightarrow> safe_run I (body x)) \<Longrightarrow> safe_run I (for_each body xs)"
proof (induction xs)
  case (Cons x xs)
  then have "safe_run I (\<lambda>s. bind_run (body x s) (\<lambda>(e, s'). case e of None \<Rightarrow> for_each body xs s' | Some err \<Rightarrow> Ret (Some err, s')))"
    by (intro safe_then safe_case_option safe_Ret) simp_all
  then show ?case by (simp add: safe_run_def keeps_run_def)
qed (simp add: safe_run_def keeps_run_def)

lemmas safe_intros = safe_Ret safe_if safe_case_sum safe_case_option safe_bind_Ret safe_for_each

subsection \<open>The order of a map iteration\<close>

type_synonym ('k, 'v) gomap = "('k \<times> 'v) list"

text \<open>
  A local Go map that is built and then iterated is kept as its list of pairs, with distinct
  keys (\<open>AList.update\<close> overwrites a key). The order of the iteration is the argument
  \<open>ord\<close>: any rearrangement of the pairs.
\<close>

definition range_order :: "('a list \<Rightarrow> 'a list) \<Rightarrow> bool" where
  "range_order ord \<longleftrightarrow> (\<forall>xs. mset (ord xs) = mset xs)"

lemma range_order_set: "range_order ord \<Longrightarrow> set (ord xs) = set xs"
  unfolding range_order_def by (metis set_mset_mset)

lemma range_order_distinct: "range_order ord \<Longrightarrow> distinct (ord xs) = distinct xs"
  unfolding range_order_def by (metis mset_eq_imp_distinct_iff)

lemma range_order_map_snd:
  "range_order ord \<Longrightarrow> mset (map snd (ord xs)) = mset (map snd xs)"
  by (simp add: range_order_def)

lemma range_order_Nil: "range_order ord \<Longrightarrow> ord [] = []"
  unfolding range_order_def by (metis mset_zero_iff)

lemma range_order_id [simp]: "range_order (\<lambda>xs. xs)"
  by (simp add: range_order_def)

lemma range_order_rev [simp]: "range_order rev"
  by (simp add: range_order_def)

subsection \<open>64-bit integers\<close>

definition wrap64 :: "int \<Rightarrow> int" where
  "wrap64 x = sint (word_of_int x :: 64 word)"

lemma wrap64_id: "- (2 ^ 63) \<le> x \<Longrightarrow> x < 2 ^ 63 \<Longrightarrow> wrap64 x = x"
  by (simp add: wrap64_def sint_sbintrunc' signed_take_bit_int_eq_self)

subsection \<open>Lists and maps\<close>

lemma set_map_snd_update_subset:
  "set (map snd (AList.update k v xs)) \<subseteq> insert v (set (map snd xs))"
  by (induction xs) auto

lemma set_update_subset: "set (AList.update k v xs) \<subseteq> insert (k, v) (set xs)"
  by (induction xs) auto

lemma snd_update_mem: "v \<in> set (map snd (AList.update k v xs))"
  by (induction xs) auto

text \<open>A position found in a list by its first match.\<close>

fun find_index :: "('a \<Rightarrow> bool) \<Rightarrow> 'a list \<Rightarrow> nat option" where
  "find_index P [] = None"
| "find_index P (x # xs) = (if P x then Some 0 else map_option Suc (find_index P xs))"

lemma find_index_None: "find_index P xs = None \<longleftrightarrow> (\<forall>x\<in>set xs. \<not> P x)"
  by (induction xs) auto

lemma find_index_SomeD:
  "find_index P xs = Some i \<Longrightarrow>
     i < length xs \<and> P (xs ! i) \<and> (\<forall>j<i. \<not> P (xs ! j))"
proof (induction xs arbitrary: i)
  case Nil
  then show ?case by simp
next
  case (Cons x xs)
  then show ?case
    by (auto simp: less_Suc_eq_0_disj nth_Cons' split: if_splits)
qed

lemma find_index_split:
  "find_index P xs = Some i \<Longrightarrow>
     xs = take i xs @ xs ! i # drop (Suc i) xs \<and> (\<forall>x\<in>set (take i xs). \<not> P x)"
  by (auto dest!: find_index_SomeD simp: id_take_nth_drop [symmetric] in_set_conv_nth)

lemma distinct_remove_nth: "distinct xs \<Longrightarrow> distinct (take i xs @ drop (Suc i) xs)"
  by (simp add: set_take_disj_set_drop_if_distinct)

lemma set_remove_nth:
  "distinct xs \<Longrightarrow> i < length xs \<Longrightarrow> set (take i xs @ drop (Suc i) xs) = set xs - {xs ! i}"
proof -
  assume d: "distinct xs" and i: "i < length xs"
  have "distinct (take i xs @ xs ! i # drop (Suc i) xs)"
    using d id_take_nth_drop [OF i] by metis
  moreover have "set xs = insert (xs ! i) (set (take i xs @ drop (Suc i) xs))"
    using id_take_nth_drop [OF i] by (metis list.set(2) set_append Un_insert_right)
  ultimately show ?thesis by auto
qed

end
