(* ===== verification/HwAddr.thy ===== *)
theory HwAddr
  imports Prelude
begin

section \<open>Hardware addresses: Go's \<open>net.HardwareAddr\<close>\<close>

text \<open>
  The part of Go's standard package \<open>net\<close> that the program is built on: a hardware address is
  a byte slice, printed by \<open>HardwareAddr.String\<close> and read by \<open>ParseMAC\<close>, which accepts
  6, 8 and 20 byte addresses with colons, dashes or dots. The value of an address as a
  big-endian number carries the arithmetic of the MAC ranges.

  Shown here: what \<open>String\<close> prints, \<open>ParseMAC\<close> reads back; \<open>String\<close> is injective;
  \<open>ParseMAC\<close> returns only the three lengths; the value of an address determines it among the
  addresses of its length, and orders them as the byte-wise lexicographic order does.
\<close>

type_synonym byte = "8 word"
type_synonym hwaddr = "byte list"

subsection \<open>Printing\<close>

definition hexDigit :: "nat \<Rightarrow> char" where
  "hexDigit n = ''0123456789abcdef'' ! n"

definition hex2 :: "byte \<Rightarrow> string" where
  "hex2 b = [hexDigit (unat b div 16), hexDigit (unat b mod 16)]"

fun hw_String :: "hwaddr \<Rightarrow> string" where
  "hw_String [] = []"
| "hw_String [b] = hex2 b"
| "hw_String (b # c # bs) = hex2 b @ CHR '':'' # hw_String (c # bs)"

subsection \<open>Parsing\<close>

definition hexVal :: "char \<Rightarrow> nat option" where
  "hexVal c =
     (let n = of_char c :: nat in
      if 48 \<le> n \<and> n \<le> 57 then Some (n - 48)
      else if 97 \<le> n \<and> n \<le> 102 then Some (n - 87)
      else if 65 \<le> n \<and> n \<le> 70 then Some (n - 55)
      else None)"

text \<open>
  \<open>xtoi2 s e\<close>: the first two characters as a byte, provided a third one, if there is one, is
  \<open>e\<close>.
\<close>

fun xtoi2 :: "string \<Rightarrow> char \<Rightarrow> byte option" where
  "xtoi2 (a # b # s) e =
     (if s \<noteq> [] \<and> hd s \<noteq> e then None
      else case (hexVal a, hexVal b) of
        (Some x, Some y) \<Rightarrow> Some (word_of_nat (x * 16 + y))
      | _ \<Rightarrow> None)"
| "xtoi2 _ e = None"

fun parse_sep :: "char \<Rightarrow> nat \<Rightarrow> string \<Rightarrow> hwaddr option" where
  "parse_sep e 0 s = Some []"
| "parse_sep e (Suc n) s =
     (case xtoi2 s e of
        None \<Rightarrow> None
      | Some b \<Rightarrow> map_option (Cons b) (parse_sep e n (drop 3 s)))"

text \<open>The dotted form reads two bytes per group; \<open>n\<close> counts the groups.\<close>

fun parse_dot :: "char \<Rightarrow> nat \<Rightarrow> string \<Rightarrow> hwaddr option" where
  "parse_dot e 0 s = Some []"
| "parse_dot e (Suc n) s =
     (case (xtoi2 (take 2 s) (CHR 0x00), xtoi2 (drop 2 s) e) of
        (Some a, Some b) \<Rightarrow> map_option (\<lambda>bs. a # b # bs) (parse_dot e n (drop 5 s))
      | _ \<Rightarrow> None)"

definition hw_lengths :: "nat list" where
  "hw_lengths = [6, 8, 20]"

definition ParseMAC :: "string \<Rightarrow> go_error + hwaddr" where
  "ParseMAC s =
     (let err = Inl (ErrInvalidMac s) in
      if length s < 14 then err
      else if s ! 2 = CHR '':'' \<or> s ! 2 = CHR ''-'' then
        (if (length s + 1) mod 3 \<noteq> 0 then err
         else let n = (length s + 1) div 3 in
           if n \<notin> set hw_lengths then err
           else case parse_sep (s ! 2) n s of None \<Rightarrow> err | Some hw \<Rightarrow> Inr hw)
      else if s ! 4 = CHR ''.'' then
        (if (length s + 1) mod 5 \<noteq> 0 then err
         else let n = 2 * (length s + 1) div 5 in
           if n \<notin> set hw_lengths then err
           else case parse_dot (s ! 4) (n div 2) s of None \<Rightarrow> err | Some hw \<Rightarrow> Inr hw)
      else err)"

definition hw_length_ok :: "hwaddr \<Rightarrow> bool" where
  "hw_length_ok a \<longleftrightarrow> length a \<in> set hw_lengths"

lemma hw_length_ok_iff: "hw_length_ok a \<longleftrightarrow> length a = 6 \<or> length a = 8 \<or> length a = 20"
  by (simp add: hw_length_ok_def hw_lengths_def)

subsection \<open>The value of an address\<close>

fun mac_val :: "hwaddr \<Rightarrow> nat" where
  "mac_val [] = 0"
| "mac_val (b # bs) = unat b * 256 ^ length bs + mac_val bs"

subsection \<open>Round trip\<close>

lemma nibble_cases: "n < (16 :: nat) \<Longrightarrow> list_all P (upt 0 16) \<Longrightarrow> P n"
  by (simp add: list_all_iff)

lemma hexVal_hexDigit: "n < 16 \<Longrightarrow> hexVal (hexDigit n) = Some n"
  by (erule nibble_cases) (simp add: upt_rec hexDigit_def hexVal_def)

lemma hexDigit_not_sep:
  "n < 16 \<Longrightarrow> hexDigit n \<noteq> CHR '':'' \<and> hexDigit n \<noteq> CHR ''-'' \<and> hexDigit n \<noteq> CHR ''.''"
  by (erule nibble_cases) (simp add: upt_rec hexDigit_def)

lemma unat_byte_less: "unat (b :: byte) < 256"
  using unsigned_less [of b, where ?'a = nat] by simp

lemma unat_byte_div: "unat (b :: byte) div 16 < 16"
  using unat_byte_less [of b] by simp

lemma length_hex2 [simp]: "length (hex2 b) = 2"
  by (simp add: hex2_def)

lemma hex2_inject [simp]: "hex2 a = hex2 b \<longleftrightarrow> a = b"
proof
  assume "hex2 a = hex2 b"
  then have d: "unat a div 16 = unat b div 16" and m: "unat a mod 16 = unat b mod 16"
    unfolding hex2_def
    by (metis (no_types) hexVal_hexDigit list.inject mod_less_divisor option.inject
        unat_byte_div zero_less_numeral)+
  from d m have "unat a = unat b" by (metis div_mult_mod_eq)
  then show "a = b" by (simp add: word_unat_eq_iff)
qed simp

lemma xtoi2_hex2: "s = [] \<or> hd s = e \<Longrightarrow> xtoi2 (hex2 b @ s) e = Some b"
  by (auto simp: hex2_def hexVal_hexDigit unat_byte_div)

lemma hw_String_Cons: "bs \<noteq> [] \<Longrightarrow> hw_String (b # bs) = hex2 b @ CHR '':'' # hw_String bs"
  by (cases bs) auto

lemma length_hw_String: "a \<noteq> [] \<Longrightarrow> length (hw_String a) = 3 * length a - 1"
proof (induction a rule: hw_String.induct)
  case (3 b c bs)
  then show ?case by simp
qed auto

lemma hw_String_nth_2: "1 < length a \<Longrightarrow> hw_String a ! 2 = CHR '':''"
  by (cases a rule: hw_String.cases) (auto simp: hex2_def)

lemma parse_sep_hw_String: "parse_sep CHR '':'' (length a) (hw_String a) = Some a"
proof (induction a rule: hw_String.induct)
  case (2 b)
  then show ?case using xtoi2_hex2 [of "[]" _ b] by simp
next
  case (3 b c bs)
  have "xtoi2 (hex2 b @ CHR '':'' # hw_String (c # bs)) CHR '':'' = Some b"
    by (rule xtoi2_hex2) simp
  then show ?case using 3 by simp
qed simp

lemma ParseMAC_hw_String: "hw_length_ok a \<Longrightarrow> ParseMAC (hw_String a) = Inr a"
proof -
  assume ok: "hw_length_ok a"
  then have l2: "1 < length a" by (auto simp: hw_length_ok_iff)
  then have l: "length (hw_String a) = 3 * length a - 1"
    by (intro length_hw_String) auto
  then have "length (hw_String a) + 1 = 3 * length a" using l2 by arith
  then have "(length (hw_String a) + 1) div 3 = length a" "(length (hw_String a) + 1) mod 3 = 0"
    by simp_all
  moreover have "\<not> length (hw_String a) < 14"
    using ok l by (auto simp: hw_length_ok_iff)
  ultimately show ?thesis
    using ok l2 parse_sep_hw_String [of a]
    by (simp add: ParseMAC_def hw_String_nth_2 hw_length_ok_def)
qed

lemma hw_String_eq_Nil [simp]: "hw_String a = [] \<longleftrightarrow> a = []"
  by (cases a rule: hw_String.cases) (auto simp: hex2_def)

lemma hw_String_inject [simp]: "hw_String a = hw_String b \<longleftrightarrow> a = b"
proof
  assume eq: "hw_String a = hw_String b"
  show "a = b"
  proof (cases "a = []")
    case True
    then show ?thesis using eq by (metis hw_String_eq_Nil)
  next
    case False
    then have "b \<noteq> []" using eq by (metis hw_String_eq_Nil)
    then have "length a = length b"
      using False eq length_hw_String [of a] length_hw_String [of b] by (cases a; cases b) auto
    then show ?thesis using eq by (metis option.inject parse_sep_hw_String)
  qed
qed simp

subsection \<open>The lengths \<open>ParseMAC\<close> returns\<close>

lemma length_parse_sep: "parse_sep e n s = Some a \<Longrightarrow> length a = n"
  by (induction n arbitrary: s a) (auto split: option.splits)

lemma length_parse_dot: "parse_dot e n s = Some a \<Longrightarrow> length a = 2 * n"
  by (induction n arbitrary: s a) (auto split: option.splits)

lemma ParseMAC_length_ok: "ParseMAC s = Inr a \<Longrightarrow> hw_length_ok a"
proof -
  assume p: "ParseMAC s = Inr a"
  then show ?thesis
    by (auto simp: ParseMAC_def Let_def hw_length_ok_def hw_lengths_def
          split: if_splits option.splits dest!: length_parse_sep length_parse_dot)
qed

lemma ParseMAC_Inl: "ParseMAC s = Inl e \<Longrightarrow> e = ErrInvalidMac s"
  by (auto simp: ParseMAC_def Let_def split: if_splits option.splits)

lemma ParseMAC_roundtrip: "ParseMAC s = Inr a \<Longrightarrow> ParseMAC (hw_String a) = Inr a"
  by (blast intro: ParseMAC_hw_String ParseMAC_length_ok)

subsection \<open>The value determines the address\<close>

lemma mac_val_less: "mac_val a < 256 ^ length a"
proof (induction a)
  case Nil
  then show ?case by simp
next
  case (Cons b bs)
  have "unat b * 256 ^ length bs + mac_val bs < unat b * 256 ^ length bs + 256 ^ length bs"
    using Cons.IH by simp
  also have "\<dots> = (unat b + 1) * 256 ^ length bs" by simp
  also have "\<dots> \<le> 256 * 256 ^ length bs"
    using unat_byte_less [of b] by (intro mult_right_mono) auto
  finally show ?case by simp
qed

lemma mac_val_append: "mac_val (a @ b) = mac_val a * 256 ^ length b + mac_val b"
  by (induction a) (auto simp: algebra_simps power_add)

lemma digit_eqD:
  "x * K + u = y * K + v \<Longrightarrow> u < K \<Longrightarrow> v < K \<Longrightarrow> x = y \<and> u = (v :: nat)"
  by (metis add.commute div_mult_self3 div_less add_0 add_left_cancel not_less_zero)

lemma digit_less_iff:
  "u < K \<Longrightarrow> v < K \<Longrightarrow> x * K + u < y * K + v \<longleftrightarrow> x < y \<or> (x = y \<and> u < (v :: nat))"
proof -
  assume u: "u < K" and v: "v < K"
  have step: "p < q \<Longrightarrow> p * K + K \<le> q * K" for p q :: nat
    using mult_right_mono [of "Suc p" q K] by simp
  show ?thesis
    using step [of x y] step [of y x] u v by (cases x y rule: linorder_cases) auto
qed

lemma mac_val_inject: "length a = length b \<Longrightarrow> mac_val a = mac_val b \<longleftrightarrow> a = b"
proof (induction a b rule: list_induct2)
  case (Cons x xs y ys)
  then show ?case
    using mac_val_less [of xs] mac_val_less [of ys]
    by (auto simp: word_unat_eq_iff dest!: digit_eqD)
qed simp

lemma mac_val_less_Cons:
  "length xs = length ys \<Longrightarrow>
     mac_val (x # xs) < mac_val (y # ys) \<longleftrightarrow> x < y \<or> (x = y \<and> mac_val xs < mac_val ys)"
  using mac_val_less [of xs] mac_val_less [of ys]
  by (simp add: digit_less_iff word_less_nat_alt word_unat_eq_iff)

end
