(* ===== verification/MacEntry.thy ===== *)
theory MacEntry
  imports HwAddr "HOL-Library.Char_ord" "HOL-Library.List_Lexorder"
begin

section \<open>Keys and entries of the pool: \<open>mackey.go\<close>, \<open>macentry.go\<close>\<close>

text \<open>
  A MAC is keyed by its normalised spelling, so that two spellings of the same hardware address
  meet in one key; an entry records which object and which of its interfaces or networks holds
  the address, and the time of the webhook transaction that is not yet known to have persisted.
  Times are nanoseconds. Shown: two valid spellings have the same key exactly when they parse to
  the same address; a transaction is ready exactly from its own time on, and expires exactly
  after the waiting time.
\<close>

subsection \<open>Keys\<close>

datatype macKey = MacKey (normalizedMacAddress: string)

text \<open>Keys are ordered as their spellings, so that a set of keys has a canonical enumeration.\<close>

instantiation macKey :: linorder
begin

definition less_eq_macKey :: "macKey \<Rightarrow> macKey \<Rightarrow> bool" where
  "less_eq_macKey k k' \<longleftrightarrow> normalizedMacAddress k \<le> normalizedMacAddress k'"

definition less_macKey :: "macKey \<Rightarrow> macKey \<Rightarrow> bool" where
  "less_macKey k k' \<longleftrightarrow> normalizedMacAddress k < normalizedMacAddress k'"

instance
  by standard (auto simp: less_eq_macKey_def less_macKey_def intro: macKey.expand)

end

text \<open>An unparsable string gives a nil address, whose \<open>String\<close> is empty.\<close>

definition NewMacKey :: "string \<Rightarrow> macKey" where
  "NewMacKey macAddress =
     MacKey (hw_String (case ParseMAC macAddress of Inl _ \<Rightarrow> [] | Inr hw \<Rightarrow> hw))"

definition macKey_String :: "macKey \<Rightarrow> string" where
  "macKey_String m = normalizedMacAddress m"

lemma macKey_String_MacKey [simp]: "macKey_String (MacKey s) = s"
  by (simp add: macKey_String_def)

lemma NewMacKey_valid: "ParseMAC s = Inr a \<Longrightarrow> NewMacKey s = MacKey (hw_String a)"
  by (simp add: NewMacKey_def)

lemma NewMacKey_hw_String [simp]: "hw_length_ok a \<Longrightarrow> NewMacKey (hw_String a) = MacKey (hw_String a)"
  by (simp add: NewMacKey_def ParseMAC_hw_String)

lemma NewMacKey_eq_iff:
  "ParseMAC s = Inr a \<Longrightarrow> ParseMAC t = Inr b \<Longrightarrow> NewMacKey s = NewMacKey t \<longleftrightarrow> a = b"
  by (simp add: NewMacKey_valid)

lemma NewMacKey_invalid: "ParseMAC s = Inl e \<Longrightarrow> NewMacKey s = MacKey []"
  by (simp add: NewMacKey_def)

text \<open>Normalising twice is normalising once.\<close>

lemma NewMacKey_again: "NewMacKey (macKey_String (NewMacKey s)) = NewMacKey s"
proof (cases "ParseMAC s")
  case (Inr a)
  then show ?thesis using ParseMAC_length_ok [OF Inr] by (simp add: NewMacKey_valid)
next
  case (Inl e)
  then show ?thesis by (simp add: NewMacKey_def ParseMAC_def)
qed

lemma NewMacKey_eq_Nil_iff: "NewMacKey s = MacKey [] \<longleftrightarrow> (\<exists>e. ParseMAC s = Inl e)"
proof (cases "ParseMAC s")
  case (Inr a)
  then have "a \<noteq> []" using ParseMAC_length_ok [OF Inr] by (auto simp: hw_length_ok_iff)
  with Inr show ?thesis by (simp add: NewMacKey_valid)
qed (simp add: NewMacKey_invalid)

subsection \<open>Entries\<close>

type_synonym time = int

record macEntry =
  instanceName :: string
  macInstanceKey :: string
  transactionTimestamp :: "time option"

definition hasPendingTransaction :: "macEntry \<Rightarrow> bool" where
  "hasPendingTransaction m \<longleftrightarrow> transactionTimestamp m \<noteq> None"

definition hasReadyTransaction :: "macEntry \<Rightarrow> time \<Rightarrow> bool" where
  "hasReadyTransaction m lastPersistentTime =
     (if \<not> hasPendingTransaction m then False
      else \<not> lastPersistentTime < the (transactionTimestamp m))"

definition resetTransaction :: "macEntry \<Rightarrow> macEntry" where
  "resetTransaction m = \<lparr>instanceName = instanceName m, macInstanceKey = macInstanceKey m,
     transactionTimestamp = None\<rparr>"

definition setTransaction :: "macEntry \<Rightarrow> time option \<Rightarrow> macEntry" where
  "setTransaction m timestamp = \<lparr>instanceName = instanceName m,
     macInstanceKey = macInstanceKey m, transactionTimestamp = timestamp\<rparr>"

text \<open>\<open>time.Duration(waitTime) * time.Second\<close>, a 64-bit product of nanoseconds.\<close>

definition wait_duration :: "int \<Rightarrow> int" where
  "wait_duration waitTime = wrap64 (waitTime * 1000000000)"

definition hasExpiredTransaction :: "time \<Rightarrow> macEntry \<Rightarrow> int \<Rightarrow> bool" where
  "hasExpiredTransaction now m waitTime =
     (if hasPendingTransaction m
      then let macTransactionExpiration = the (transactionTimestamp m) + wait_duration waitTime
           in (if macTransactionExpiration < now then True else False)
      else False)"

lemma hasReadyTransaction_iff:
  "hasReadyTransaction m t \<longleftrightarrow> (\<exists>ts. transactionTimestamp m = Some ts \<and> ts \<le> t)"
  by (auto simp: hasReadyTransaction_def hasPendingTransaction_def)

lemma hasExpiredTransaction_iff:
  "hasExpiredTransaction now m w \<longleftrightarrow>
     (\<exists>ts. transactionTimestamp m = Some ts \<and> ts + wait_duration w < now)"
  by (auto simp: hasExpiredTransaction_def hasPendingTransaction_def)

lemma reset_set_select [simp]:
  "instanceName (resetTransaction m) = instanceName m"
  "macInstanceKey (resetTransaction m) = macInstanceKey m"
  "transactionTimestamp (resetTransaction m) = None"
  "instanceName (setTransaction m t) = instanceName m"
  "macInstanceKey (setTransaction m t) = macInstanceKey m"
  "transactionTimestamp (setTransaction m t) = t"
  by (simp_all add: resetTransaction_def setTransaction_def)

text \<open>For every waiting time below 292 years the product of nanoseconds does not wrap.\<close>

lemma wait_duration_exact:
  "0 \<le> w \<Longrightarrow> w \<le> 9223372036 \<Longrightarrow> wait_duration w = w * 1000000000"
  unfolding wait_duration_def by (rule wrap64_id) auto

end
