(* ===== verification/KubeTypes.thy ===== *)
theory KubeTypes
  imports Prelude
begin

section \<open>The Kubernetes objects the program reads and writes\<close>

text \<open>
  The fields of the Kubernetes, KubeVirt and Multus API types that the program touches, as
  records. A pointer field is an option (or a bool where only its presence is read); a map field
  that may be nil is an option of an association list with distinct keys. Each record with fields
  the program only copies or compares has them in one opaque \<open>_Other\<close> field.
\<close>

type_synonym string_map = "(string \<times> string) list"

text \<open>Reading a nil Go map is reading an empty one.\<close>

definition lookup_nil :: "string_map option \<Rightarrow> string \<Rightarrow> string option" where
  "lookup_nil m k = (case m of None \<Rightarrow> None | Some xs \<Rightarrow> map_of xs k)"

subsection \<open>Virtual machines\<close>

record vm_interface =
  iface_Name :: string
  iface_MacAddress :: string
  iface_Masquerade :: bool
  iface_Other :: string

record vm_network =
  network_Name :: string
  network_Multus :: bool
  network_Other :: string

record vm_template =
  Interfaces :: "vm_interface list"
  Networks :: "vm_network list"
  template_Other :: string

record virtual_machine =
  vm_Name :: string
  vm_Namespace :: string
  vm_Labels :: "string_map option"
  vm_Annotations :: "string_map option"
  vm_Finalizers :: "string list"
  vm_DeletionTimestamp :: bool
  vm_Template :: "vm_template option"
  vm_SpecOther :: string

subsection \<open>Pods\<close>

record owner_reference =
  owner_Kind :: string
  owner_Name :: string

record pod =
  pod_Name :: string
  pod_Namespace :: string
  pod_UID :: string
  pod_Labels :: "string_map option"
  pod_Annotations :: "string_map option"
  pod_OwnerReferences :: "owner_reference list"
  pod_Phase :: string
  pod_Other :: string

text \<open>An element of the Multus network selection annotation.\<close>

record network_selection =
  sel_Name :: string
  sel_Namespace :: string
  sel_MacRequest :: string
  sel_Other :: string

subsection \<open>Namespaces and webhook configurations\<close>

record namespace =
  ns_Name :: string
  ns_Labels :: "string_map option"

record label_requirement =
  req_Key :: string
  req_Operator :: string
  req_Values :: "string list"

record label_selector =
  MatchLabels :: string_map
  MatchExpressions :: "label_requirement list"

record mutating_webhook =
  webhook_Name :: string
  NamespaceSelector :: "label_selector option"

end
