(* ===== verification/MacPoolMap.thy ===== *)
theory MacPoolMap
  imports MacEntry KubeTypes
begin

section \<open>The pool map: \<open>macpoolmap.go\<close>\<close>

text \<open>
  The allocated addresses: every key holds the list of its entries, in the order they were added,
  since an address may be held by several objects. The operations are those of
  \<open>macpoolmap.go\<close>, one definition each.

  Shown: an invariant (no empty entry list, no address twice for the same interface of the same
  object, every key the normal form of an address) that every operation keeps; and a refinement:
  the map implements a relation \<open>holders\<close> of (address, object, interface) triples, on which
  the operations are insertion, removal of one triple and identity. The contract of that
  relation is the interface \<open>mac_store\<close>; the pool operations for virtual machines and pods rest
  on the facts proved there once.
\<close>

type_synonym macMap = "macKey \<Rightarrow> macEntry list option"

subsection \<open>Operations\<close>

definition findByMacAddress :: "macMap \<Rightarrow> string \<Rightarrow> macEntry list option" where
  "findByMacAddress m macAddress = m (NewMacKey macAddress)"

text \<open>Reading an absent key gives a nil slice.\<close>

definition entries_at :: "macMap \<Rightarrow> string \<Rightarrow> macEntry list" where
  "entries_at m macAddress =
     (case findByMacAddress m macAddress of None \<Rightarrow> [] | Some entries \<Rightarrow> entries)"

definition findByMacAddressAndInstanceName ::
    "macMap \<Rightarrow> string \<Rightarrow> string \<Rightarrow> go_error + (macEntry \<times> nat)" where
  "findByMacAddressAndInstanceName m macAddress instanceFullName =
     (case findByMacAddress m macAddress of
        Some entries \<Rightarrow>
          (case find_index (\<lambda>entry. instanceName entry = instanceFullName) entries of
             Some i \<Rightarrow> Inr (entries ! i, i)
           | None \<Rightarrow> Inl ErrNoSuchEntry)
      | None \<Rightarrow> Inl ErrNoSuchEntry)"

text \<open>\<open>entries[index] = e; (*m)[NewMacKey(macAddress)] = entries\<close>\<close>

definition store_entry :: "macMap \<Rightarrow> string \<Rightarrow> nat \<Rightarrow> macEntry \<Rightarrow> macMap" where
  "store_entry m macAddress index e =
     m(NewMacKey macAddress \<mapsto> (entries_at m macAddress)[index := e])"

definition clearMacTransactionFromMacEntry :: "macMap \<Rightarrow> string \<Rightarrow> string \<Rightarrow> macMap" where
  "clearMacTransactionFromMacEntry m macAddress instanceFullName =
     (case findByMacAddressAndInstanceName m macAddress instanceFullName of
        Inl _ \<Rightarrow> m
      | Inr (entry, index) \<Rightarrow>
          store_entry m macAddress index (resetTransaction entry))"

definition removeInstanceFromMac :: "macMap \<Rightarrow> string \<Rightarrow> string \<Rightarrow> macMap" where
  "removeInstanceFromMac m macAddress instanceFullName =
     (case findByMacAddressAndInstanceName m macAddress instanceFullName of
        Inl _ \<Rightarrow> m
      | Inr (_, index) \<Rightarrow>
          (let entries = entries_at m macAddress;
               entries' = take index entries @ drop (index + 1) entries
           in if length entries' = 0
              then m(NewMacKey macAddress := None)
              else m(NewMacKey macAddress \<mapsto> entries')))"

text \<open>A key of the result exists only once an entry was appended to it.\<close>

definition filterInByInstanceName :: "macMap \<Rightarrow> string \<Rightarrow> go_error + macMap" where
  "filterInByInstanceName m instName =
     Inr (\<lambda>macAddress. case m macAddress of
            None \<Rightarrow> None
          | Some entries \<Rightarrow>
              (let mine = filter (\<lambda>entry. instanceName entry = instName) entries
               in if mine = [] then None else Some mine))"

definition createOrUpdateEntry :: "macMap \<Rightarrow> string \<Rightarrow> string \<Rightarrow> string \<Rightarrow> macMap" where
  "createOrUpdateEntry m macAddress instanceFullName instanceKey =
     (let newEntry = \<lparr>instanceName = instanceFullName, macInstanceKey = instanceKey,
                      transactionTimestamp = None\<rparr>;
          entries = entries_at m macAddress
      in case find_index (\<lambda>entry. instanceName entry = instanceFullName
                                   \<and> macInstanceKey entry = instanceKey) entries of
           Some i \<Rightarrow> m(NewMacKey macAddress \<mapsto> entries[i := newEntry])
         | None \<Rightarrow> m(NewMacKey macAddress \<mapsto> entries @ [newEntry]))"

text \<open>
  The loop visits the values of the map \<open>macByInterfaceUpdated\<close> in the order given and stops
  at the first error; what was updated before stays updated.
\<close>

fun updateMacTransactionTimestampForUpdatedMacs ::
    "macMap \<Rightarrow> string \<Rightarrow> time option \<Rightarrow> string list \<Rightarrow> go_error option \<times> macMap" where
  "updateMacTransactionTimestampForUpdatedMacs m instanceFullName ts [] = (None, m)"
| "updateMacTransactionTimestampForUpdatedMacs m instanceFullName ts (macAddress # macs) =
     (case findByMacAddressAndInstanceName m macAddress instanceFullName of
        Inl err \<Rightarrow> (Some err, m)
      | Inr (entry, index) \<Rightarrow>
          updateMacTransactionTimestampForUpdatedMacs
            (store_entry m macAddress index (setTransaction entry ts))
            instanceFullName ts macs)"

definition filterMacsThatRequireCommit :: "macMap \<Rightarrow> time \<Rightarrow> macMap" where
  "filterMacsThatRequireCommit m latestPersistedTransactionTimeStamp =
     (\<lambda>macAddress. case m macAddress of
        None \<Rightarrow> None
      | Some entries \<Rightarrow>
          (let filteredEntries =
             filter (\<lambda>entry. hasPendingTransaction entry
                \<and> hasReadyTransaction entry latestPersistedTransactionTimeStamp) entries
           in if 0 < length filteredEntries then Some filteredEntries else None))"

definition alignMacEntryAccordingToVmInterface ::
    "macMap \<Rightarrow> string \<Rightarrow> string \<Rightarrow> vm_interface list \<Rightarrow> macMap" where
  "alignMacEntryAccordingToVmInterface m macAddress instanceFullName vmInterfaces =
     (case findByMacAddressAndInstanceName m macAddress instanceFullName of
        Inl _ \<Rightarrow> m
      | Inr (vmEntry, _) \<Rightarrow>
          if list_ex (\<lambda>iface. macKey_String (NewMacKey (iface_MacAddress iface)) = macAddress
                         \<and> iface_Name iface = macInstanceKey vmEntry) vmInterfaces
          then clearMacTransactionFromMacEntry m macAddress instanceFullName
          else removeInstanceFromMac m macAddress instanceFullName)"

subsection \<open>The invariant and the abstract relation\<close>

definition holder :: "macEntry \<Rightarrow> string \<times> string" where
  "holder e = (instanceName e, macInstanceKey e)"

definition normal_key :: "macKey \<Rightarrow> bool" where
  "normal_key k \<longleftrightarrow> (\<exists>a. hw_length_ok a \<and> k = MacKey (hw_String a))"

definition entries_ok :: "macEntry list \<Rightarrow> bool" where
  "entries_ok es \<longleftrightarrow> es \<noteq> [] \<and> distinct (map holder es)"

definition macMap_ok :: "macMap \<Rightarrow> bool" where
  "macMap_ok m \<longleftrightarrow>
     finite (dom m) \<and> (\<forall>k es. m k = Some es \<longrightarrow> normal_key k \<and> entries_ok es)"

text \<open>The triples (address, object, interface or network) the map stands for.\<close>

definition holders :: "macMap \<Rightarrow> (macKey \<times> string \<times> string) set" where
  "holders m = {(k, h). \<exists>es. m k = Some es \<and> h \<in> holder ` set es}"

subsection \<open>Facts about single steps\<close>

lemma mem_holders:
  "(k, i, j) \<in> holders m \<longleftrightarrow>
     (\<exists>es e. m k = Some es \<and> e \<in> set es \<and> instanceName e = i \<and> macInstanceKey e = j)"
  by (auto simp: holders_def holder_def)

lemma holders_upd:
  "holders (m(k \<mapsto> es)) = {t \<in> holders m. fst t \<noteq> k} \<union> (\<lambda>e. (k, holder e)) ` set es"
  by (auto simp: holders_def split: if_splits)

lemma holders_del: "holders (m(k := None)) = {t \<in> holders m. fst t \<noteq> k}"
  by (auto simp: holders_def split: if_splits)

lemma find_instance_InrD:
  assumes "findByMacAddressAndInstanceName m mac inst = Inr (e, i)"
  obtains es where "m (NewMacKey mac) = Some es" "entries_at m mac = es" "i < length es"
    "es ! i = e" "instanceName e = inst" "\<forall>x\<in>set (take i es). instanceName x \<noteq> inst"
  using assms
  by (auto simp: findByMacAddressAndInstanceName_def findByMacAddress_def entries_at_def
        dest: find_index_SomeD find_index_split split: option.splits)

lemma find_instance_InlD:
  "findByMacAddressAndInstanceName m mac inst = Inl err \<Longrightarrow>
     err = ErrNoSuchEntry \<and> (\<forall>j. (NewMacKey mac, inst, j) \<notin> holders m)"
  by (auto simp: findByMacAddressAndInstanceName_def findByMacAddress_def mem_holders
        find_index_None split: option.splits)

lemma find_instance_Inr_iff:
  "(\<exists>r. findByMacAddressAndInstanceName m mac inst = Inr r) \<longleftrightarrow>
     (\<exists>j. (NewMacKey mac, inst, j) \<in> holders m)"
proof (cases "findByMacAddressAndInstanceName m mac inst")
  case (Inl err)
  then show ?thesis by (auto dest: find_instance_InlD)
next
  case (Inr r)
  obtain e i where "r = (e, i)" by (cases r)
  with Inr show ?thesis
    by (auto elim!: find_instance_InrD simp: mem_holders) (metis nth_mem)
qed

lemma holder_reset_set [simp]:
  "holder (resetTransaction e) = holder e" "holder (setTransaction e t) = holder e"
  by (simp_all add: holder_def)

lemma map_holder_update:
  "i < length es \<Longrightarrow> holder e' = holder (es ! i) \<Longrightarrow> map holder (es[i := e']) = map holder es"
  by (simp add: map_update list_update_same_conv)

lemma entries_ok_update:
  "entries_ok es \<Longrightarrow> i < length es \<Longrightarrow> holder e' = holder (es ! i) \<Longrightarrow> entries_ok (es[i := e'])"
  by (simp add: entries_ok_def map_holder_update)

lemma holders_update_entry:
  assumes "m k = Some es" "i < length es" "holder e' = holder (es ! i)"
  shows "holders (m(k \<mapsto> es[i := e'])) = holders m"
proof -
  have "holder ` set (es[i := e']) = holder ` set es"
    using map_holder_update [OF assms(2,3)] by (metis list.set_map)
  then have "(x, h) \<in> holders (m(k \<mapsto> es[i := e'])) \<longleftrightarrow> (x, h) \<in> holders m" for x h
    using assms(1) by (cases "x = k") (simp_all add: holders_def)
  then show ?thesis by auto
qed

lemma macMap_ok_upd:
  "macMap_ok m \<Longrightarrow> normal_key k \<Longrightarrow> entries_ok es \<Longrightarrow> macMap_ok (m(k \<mapsto> es))"
  by (auto simp: macMap_ok_def)

lemma macMap_ok_del: "macMap_ok m \<Longrightarrow> macMap_ok (m(k := None))"
  by (auto simp: macMap_ok_def)

lemma macMap_okD: "macMap_ok m \<Longrightarrow> m k = Some es \<Longrightarrow> normal_key k \<and> entries_ok es"
  by (auto simp: macMap_ok_def)

lemma macMap_ok_empty [simp]: "macMap_ok Map.empty"
  by (simp add: macMap_ok_def)

lemma holders_empty [simp]: "holders Map.empty = {}"
  by (simp add: holders_def)

lemma normal_key_NewMacKey: "ParseMAC s = Inr a \<Longrightarrow> normal_key (NewMacKey s)"
  unfolding normal_key_def by (auto simp: NewMacKey_valid dest: ParseMAC_length_ok)

lemma finite_holders: "macMap_ok m \<Longrightarrow> finite (holders m)"
proof -
  assume ok: "macMap_ok m"
  have "holders m = (\<Union>k\<in>dom m. (\<lambda>e. (k, holder e)) ` set (the (m k)))"
    by (auto simp: holders_def dom_def)
  then show ?thesis using ok by (simp add: macMap_ok_def)
qed

text \<open>An address is in the map exactly when somebody holds it.\<close>

lemma taken_iff_held: "macMap_ok m \<Longrightarrow> m k \<noteq> None \<longleftrightarrow> (\<exists>i j. (k, i, j) \<in> holders m)"
proof
  assume ok: "macMap_ok m" and "m k \<noteq> None"
  then obtain es where es: "m k = Some es" by auto
  then obtain e es' where "es = e # es'"
    using macMap_okD [OF ok es] by (cases es) (auto simp: entries_ok_def)
  then show "\<exists>i j. (k, i, j) \<in> holders m" using es by (auto simp: mem_holders)
qed (auto simp: mem_holders)

subsection \<open>Every operation keeps the invariant\<close>

lemma createOrUpdateEntry_ok [pool_intros]:
  assumes "macMap_ok m" "ParseMAC mac = Inr a"
  shows "macMap_ok (createOrUpdateEntry m mac inst key)"
proof -
  have k: "normal_key (NewMacKey mac)" using assms(2) by (rule normal_key_NewMacKey)
  have es: "distinct (map holder (entries_at m mac))"
    using macMap_okD [OF assms(1)]
    by (auto simp: entries_at_def findByMacAddress_def entries_ok_def split: option.splits)
  show ?thesis
  proof (cases "find_index (\<lambda>e. instanceName e = inst \<and> macInstanceKey e = key) (entries_at m mac)")
    case None
    then have "(inst, key) \<notin> holder ` set (entries_at m mac)"
      by (auto simp: holder_def find_index_None)
    with es k assms(1) show ?thesis
      by (auto simp: createOrUpdateEntry_def Let_def None entries_ok_def holder_def
            intro!: macMap_ok_upd)
  next
    case (Some i)
    then have "entries_ok (entries_at m mac)"
      using es by (auto simp: entries_ok_def dest: find_index_SomeD)
    with find_index_SomeD [OF Some] k assms(1) show ?thesis
      by (auto simp: createOrUpdateEntry_def Let_def Some holder_def
            intro!: macMap_ok_upd entries_ok_update)
  qed
qed

lemma removeInstanceFromMac_ok [pool_intros]:
  assumes "macMap_ok m"
  shows "macMap_ok (removeInstanceFromMac m mac inst)"
proof (cases "findByMacAddressAndInstanceName m mac inst")
  case (Inl err)
  with assms show ?thesis by (simp add: removeInstanceFromMac_def)
next
  case (Inr r)
  obtain e i where r: "r = (e, i)" by (cases r)
  with Inr obtain es where es: "m (NewMacKey mac) = Some es" "entries_at m mac = es" "i < length es"
    by (auto elim: find_instance_InrD)
  have "distinct (map holder (take i es @ drop (Suc i) es))"
    using macMap_okD [OF assms es(1)] distinct_remove_nth [of "map holder es" i]
    by (simp add: entries_ok_def take_map drop_map)
  then show ?thesis
    using Inr r es assms macMap_okD [OF assms es(1)]
    by (auto simp: removeInstanceFromMac_def Let_def entries_ok_def
          intro!: macMap_ok_upd macMap_ok_del)
qed

lemma store_entry_ok:
  "macMap_ok m \<Longrightarrow> findByMacAddressAndInstanceName m mac inst = Inr (e, i) \<Longrightarrow>
     holder e' = holder e \<Longrightarrow> macMap_ok (store_entry m mac i e')"
  by (auto simp: store_entry_def elim!: find_instance_InrD
        intro!: macMap_ok_upd entries_ok_update dest: macMap_okD)

lemma clearMacTransactionFromMacEntry_ok [pool_intros]:
  "macMap_ok m \<Longrightarrow> macMap_ok (clearMacTransactionFromMacEntry m mac inst)"
  by (auto simp: clearMacTransactionFromMacEntry_def store_entry_ok split: sum.splits)

lemma updateMacTransactionTimestampForUpdatedMacs_ok [pool_intros]:
  "macMap_ok m \<Longrightarrow>
     macMap_ok (snd (updateMacTransactionTimestampForUpdatedMacs m inst ts macs))"
  by (induction macs arbitrary: m) (auto simp: store_entry_ok split: sum.splits)

lemma alignMacEntryAccordingToVmInterface_ok [pool_intros]:
  "macMap_ok m \<Longrightarrow> macMap_ok (alignMacEntryAccordingToVmInterface m mac inst ifaces)"
  by (auto simp: alignMacEntryAccordingToVmInterface_def split: sum.splits intro: pool_intros)

subsection \<open>The operations on the relation\<close>

lemma holders_createOrUpdateEntry [pool_simps]:
  "holders (createOrUpdateEntry m mac inst key) = insert (NewMacKey mac, inst, key) (holders m)"
proof (cases "find_index (\<lambda>e. instanceName e = inst \<and> macInstanceKey e = key) (entries_at m mac)")
  case None
  then show ?thesis
    by (auto simp: createOrUpdateEntry_def Let_def entries_at_def findByMacAddress_def holders_def
          holder_def split: option.splits if_splits)
next
  case (Some i)
  note i = find_index_SomeD [OF Some]
  then obtain es where es: "m (NewMacKey mac) = Some es" "entries_at m mac = es"
    by (auto simp: entries_at_def findByMacAddress_def split: option.splits)
  let ?new = "\<lparr>instanceName = inst, macInstanceKey = key, transactionTimestamp = None\<rparr>"
  have "holder ?new = holder (es ! i)" using i es by (simp add: holder_def)
  then have "holders (m(NewMacKey mac \<mapsto> es[i := ?new])) = holders m"
    using i es by (intro holders_update_entry) auto
  moreover have "es ! i \<in> set es" using i es by simp
  then have "(NewMacKey mac, inst, key) \<in> holders m"
    unfolding mem_holders using i es by blast
  moreover have "createOrUpdateEntry m mac inst key = m(NewMacKey mac \<mapsto> es[i := ?new])"
    using Some by (simp only: createOrUpdateEntry_def Let_def option.case es(2))
  ultimately show ?thesis by (simp add: insert_absorb)
qed

lemma holders_store_entry:
  "findByMacAddressAndInstanceName m mac inst = Inr (e, i) \<Longrightarrow> holder e' = holder e \<Longrightarrow>
     holders (store_entry m mac i e') = holders m"
  by (auto simp: store_entry_def holders_update_entry elim!: find_instance_InrD)

lemma holders_clearMacTransactionFromMacEntry [pool_simps]:
  "holders (clearMacTransactionFromMacEntry m mac inst) = holders m"
  by (simp add: clearMacTransactionFromMacEntry_def holders_store_entry split: sum.split)

lemma holders_updateMacTransactionTimestampForUpdatedMacs [pool_simps]:
  "holders (snd (updateMacTransactionTimestampForUpdatedMacs m inst ts macs)) = holders m"
  by (induction macs arbitrary: m) (simp_all add: holders_store_entry split: sum.split)

lemma holders_remove_found:
  assumes "macMap_ok m" "findByMacAddressAndInstanceName m mac inst = Inr (e, i)"
  shows "holders (removeInstanceFromMac m mac inst) = holders m - {(NewMacKey mac, inst, macInstanceKey e)}"
    and "(NewMacKey mac, inst, macInstanceKey e) \<in> holders m"
proof -
  from assms(2) obtain es where es: "m (NewMacKey mac) = Some es" "entries_at m mac = es"
      "i < length es" "es ! i = e" "instanceName e = inst"
    by (rule find_instance_InrD)
  then have h: "holder e = (inst, macInstanceKey e)" by (simp add: holder_def)
  define es' where "es' = take i es @ drop (Suc i) es"
  have "distinct (map holder es)"
    using macMap_okD [OF assms(1) es(1)] by (simp add: entries_ok_def)
  then have set': "holder ` set es' = holder ` set es - {(inst, macInstanceKey e)}"
    using set_remove_nth [of "map holder es" i] es(3,4)
    by (simp add: take_map drop_map image_Un es'_def h)
  have rm: "removeInstanceFromMac m mac inst =
      (if es' = [] then m(NewMacKey mac := None) else m(NewMacKey mac \<mapsto> es'))"
    using assms(2) es(2) by (simp add: removeInstanceFromMac_def Let_def es'_def)
  have "(k, h) \<in> holders (removeInstanceFromMac m mac inst) \<longleftrightarrow>
      (if k = NewMacKey mac then h \<in> holder ` set es' else (k, h) \<in> holders m)" for k h
    by (simp add: rm holders_def)
  moreover have old: "(NewMacKey mac, h) \<in> holders m \<longleftrightarrow> h \<in> holder ` set es" for h
    by (simp add: holders_def es(1))
  ultimately show "holders (removeInstanceFromMac m mac inst) = holders m - {(NewMacKey mac, inst, macInstanceKey e)}"
    unfolding set' by (auto split: if_splits)
  show "(NewMacKey mac, inst, macInstanceKey e) \<in> holders m"
    unfolding old using es(3,4) h by (metis image_eqI nth_mem)
qed

lemma holders_removeInstanceFromMac:
  assumes "macMap_ok m"
  shows "(\<forall>j. (NewMacKey mac, inst, j) \<notin> holders m) \<and> removeInstanceFromMac m mac inst = m \<or>
     (\<exists>j. (NewMacKey mac, inst, j) \<in> holders m \<and>
        holders (removeInstanceFromMac m mac inst) = holders m - {(NewMacKey mac, inst, j)})"
proof (cases "findByMacAddressAndInstanceName m mac inst")
  case (Inl err)
  then show ?thesis by (auto simp: removeInstanceFromMac_def dest: find_instance_InlD)
next
  case (Inr r)
  then show ?thesis using holders_remove_found [OF assms] by (cases r) blast
qed

lemma filterInByInstanceName_apply:
  "filterInByInstanceName m inst = Inr m' \<Longrightarrow>
     m' k = Some fs \<longleftrightarrow>
       (\<exists>es. m k = Some es \<and> fs = filter (\<lambda>e. instanceName e = inst) es \<and> fs \<noteq> [])"
  by (auto simp: filterInByInstanceName_def Let_def split: option.splits if_splits)

lemma holders_filterInByInstanceName:
  assumes "filterInByInstanceName m inst = Inr m'"
  shows "holders m' = {t \<in> holders m. fst (snd t) = inst}"
proof -
  have "(k, i, j) \<in> holders m' \<longleftrightarrow> (k, i, j) \<in> holders m \<and> i = inst" for k i j
    unfolding mem_holders filterInByInstanceName_apply [OF assms] by (auto simp: filter_empty_conv)
  then show ?thesis by auto
qed

lemma dom_filterInByInstanceName:
  assumes "filterInByInstanceName m inst = Inr m'"
  shows "dom m' = {k. \<exists>j. (k, inst, j) \<in> holders m}"
proof -
  have "m' k \<noteq> None \<longleftrightarrow> (\<exists>j. (k, inst, j) \<in> holders m)" for k
    using filterInByInstanceName_apply [OF assms, of k]
    by (auto simp: mem_holders filter_empty_conv)
  then show ?thesis by (auto simp: dom_def)
qed

lemma filterInByInstanceName_total: "\<exists>m'. filterInByInstanceName m inst = Inr m'"
  by (simp add: filterInByInstanceName_def)

text \<open>The map without the addresses an object holds.\<close>

definition released :: "macMap \<Rightarrow> string \<Rightarrow> macMap" where
  "released m inst = (\<lambda>k. if \<exists>j. (k, inst, j) \<in> holders m then None else m k)"

lemma filterInByInstanceName_released:
  assumes "filterInByInstanceName m inst = Inr m'"
  shows "(\<lambda>k. if \<exists>es. m' k = Some es then None else m k) = released m inst"
    and "m' = Map.empty \<Longrightarrow> released m inst = m"
  using dom_filterInByInstanceName [OF assms] by (force simp: released_def dom_def)+

lemma macMap_ok_released: "macMap_ok m \<Longrightarrow> macMap_ok (released m inst)"
  by (auto simp: macMap_ok_def released_def elim!: finite_subset [rotated] split: if_splits)

lemma mem_holders_released:
  "(k, i, j) \<in> holders (released m inst) \<longleftrightarrow> (k, i, j) \<in> holders m \<and> (\<forall>j'. (k, inst, j') \<notin> holders m)"
  by (auto simp: released_def mem_holders split: if_splits)


subsection \<open>What the other objects hold\<close>

text \<open>
  The map without the entries of one object, timestamps included. No operation done for an object
  changes it; an object that holds nothing is not in it.
\<close>

definition others :: "string \<Rightarrow> macMap \<Rightarrow> macMap" where
  "others inst m = (\<lambda>k. case m k of
     None \<Rightarrow> None
   | Some es \<Rightarrow>
       (let es' = filter (\<lambda>e. instanceName e \<noteq> inst) es in if es' = [] then None else Some es'))"

lemma others_others:
  "others a (others b m) k = (case m k of None \<Rightarrow> None | Some es \<Rightarrow>
     (if filter (\<lambda>e. instanceName e \<notin> {a, b}) es = [] then None
      else Some (filter (\<lambda>e. instanceName e \<notin> {a, b}) es)))"
proof (cases "m k")
  case (Some es)
  have "filter (\<lambda>e. instanceName e \<notin> {a, b}) es =
      filter (\<lambda>e. instanceName e \<noteq> a) (filter (\<lambda>e. instanceName e \<noteq> b) es)"
    unfolding filter_filter by (rule filter_cong) auto
  with Some show ?thesis
    by (cases "filter (\<lambda>e. instanceName e \<noteq> b) es = []") (simp_all del: filter_filter add: others_def Let_def)
qed (simp add: others_def)

lemma others_idem [simp]: "others inst (others inst m) = others inst m"
proof (rule ext)
  fix k show "others inst (others inst m) k = others inst m k"
    unfolding others_others by (cases "m k") (simp_all add: others_def Let_def)
qed

lemma others_commute: "others a (others b m) = others b (others a m)"
proof (rule ext)
  fix k show "others a (others b m) k = others b (others a m) k"
    unfolding others_others insert_commute [of a b] ..
qed

lemma others_cong:
  assumes "\<And>x. x \<noteq> k \<Longrightarrow> m' x = m x"
    and "filter (\<lambda>e. instanceName e \<noteq> inst) (case m' k of None \<Rightarrow> [] | Some es \<Rightarrow> es) =
         filter (\<lambda>e. instanceName e \<noteq> inst) (case m k of None \<Rightarrow> [] | Some es \<Rightarrow> es)"
  shows "others inst m' = others inst m"
proof
  fix x
  show "others inst m' x = others inst m x"
    using assms by (cases "x = k") (auto simp: others_def Let_def split: option.splits)
qed

lemma filter_update_out:
  "i < length xs \<Longrightarrow> \<not> P (xs ! i) \<Longrightarrow> \<not> P y \<Longrightarrow> filter P (xs[i := y]) = filter P xs"
  by (induction xs arbitrary: i) (auto simp: nth_Cons' less_Suc_eq_0_disj split: nat.splits)

lemma filter_remove_out:
  "i < length xs \<Longrightarrow> \<not> P (xs ! i) \<Longrightarrow> filter P (take i xs @ drop (Suc i) xs) = filter P xs"
  by (metis (no_types, lifting) filter.simps(2) filter_append id_take_nth_drop)

lemma others_createOrUpdateEntry [pool_simps]:
  "others inst (createOrUpdateEntry m mac inst j) = others inst m"
proof (rule others_cong [of "NewMacKey mac"])
  show "filter (\<lambda>e. instanceName e \<noteq> inst)
      (case createOrUpdateEntry m mac inst j (NewMacKey mac) of None \<Rightarrow> [] | Some es \<Rightarrow> es) =
    filter (\<lambda>e. instanceName e \<noteq> inst) (case m (NewMacKey mac) of None \<Rightarrow> [] | Some es \<Rightarrow> es)"
    by (auto simp: createOrUpdateEntry_def Let_def entries_at_def findByMacAddress_def
          filter_update_out dest!: find_index_SomeD split: option.splits)
qed (auto simp: createOrUpdateEntry_def Let_def split: option.splits)

lemma others_removeInstanceFromMac [pool_simps]:
  "others inst (removeInstanceFromMac m mac inst) = others inst m"
proof (cases "findByMacAddressAndInstanceName m mac inst")
  case (Inr r)
  obtain e i where r: "r = (e, i)" by (cases r)
  with Inr obtain es where es: "m (NewMacKey mac) = Some es" "entries_at m mac = es"
      "i < length es" "instanceName (es ! i) = inst"
    by (auto elim: find_instance_InrD)
  have f: "filter (\<lambda>e. instanceName e \<noteq> inst) (take i es @ drop (Suc i) es) =
      filter (\<lambda>e. instanceName e \<noteq> inst) es"
    using es(3,4) by (intro filter_remove_out) auto
  show ?thesis
    by (rule others_cong [of "NewMacKey mac"])
       (use Inr r es f in \<open>auto simp: removeInstanceFromMac_def Let_def\<close>)
qed (simp add: removeInstanceFromMac_def)

lemma others_store_entry:
  assumes "findByMacAddressAndInstanceName m mac inst = Inr (e, i)" "instanceName e' = inst"
  shows "others inst (store_entry m mac i e') = others inst m"
  using assms(1)
proof (rule find_instance_InrD)
  fix es
  assume "m (NewMacKey mac) = Some es" "entries_at m mac = es" "i < length es" "es ! i = e"
    "instanceName e = inst"
  then show ?thesis
    using assms(2)
    by (intro others_cong [of "NewMacKey mac"]) (auto simp: store_entry_def filter_update_out)
qed

lemma others_clearMacTransactionFromMacEntry [pool_simps]:
  "others inst (clearMacTransactionFromMacEntry m mac inst) = others inst m"
proof (cases "findByMacAddressAndInstanceName m mac inst")
  case (Inr r)
  obtain e i where r: "r = (e, i)" by (cases r)
  with Inr have "instanceName e = inst" by (auto elim: find_instance_InrD)
  with Inr r show ?thesis by (simp add: clearMacTransactionFromMacEntry_def others_store_entry)
qed (simp add: clearMacTransactionFromMacEntry_def)

lemma others_updateMacTransactionTimestampForUpdatedMacs [pool_simps]:
  "others inst (snd (updateMacTransactionTimestampForUpdatedMacs m inst ts macs)) = others inst m"
proof (induction macs arbitrary: m)
  case (Cons mac macs)
  show ?case
  proof (cases "findByMacAddressAndInstanceName m mac inst")
    case (Inr r)
    obtain e i where "r = (e, i)" by (cases r)
    with Inr have "findByMacAddressAndInstanceName m mac inst = Inr (e, i)" "instanceName e = inst"
      by (auto elim: find_instance_InrD)
    then show ?thesis by (simp add: Cons.IH others_store_entry)
  qed simp
qed simp

lemma others_alignMacEntryAccordingToVmInterface [pool_simps]:
  "others inst (alignMacEntryAccordingToVmInterface m mac inst ifaces) = others inst m"
  by (auto simp: alignMacEntryAccordingToVmInterface_def pool_simps split: sum.splits)

lemma others_id:
  assumes "macMap_ok m" "\<And>k j. (k, inst, j) \<notin> holders m"
  shows "others inst m = m"
proof
  fix k
  show "others inst m k = m k"
  proof (cases "m k")
    case (Some es)
    then have "filter (\<lambda>e. instanceName e \<noteq> inst) es = es" and "es \<noteq> []"
      using assms(2) macMap_okD [OF assms(1) Some]
      by (auto simp: mem_holders filter_id_conv entries_ok_def)
    with Some show ?thesis by (simp add: others_def)
  qed (simp add: others_def)
qed

text \<open>Two maps with the same holders and the same others agree, for an object that holds nothing.\<close>

lemma others_determines:
  assumes "macMap_ok m" "macMap_ok m'" "holders m' = holders m" "others inst m' = others inst m"
    and "\<And>k j. (k, inst, j) \<notin> holders m"
  shows "m' = m"
  using assms others_id [of m inst] others_id [of m' inst] by simp

subsection \<open>Timestamps\<close>

text \<open>The entries that are in a transaction: only a stamping adds to them.\<close>

definition stamped_entries :: "macMap \<Rightarrow> (macKey \<times> macEntry) set" where
  "stamped_entries m = {(k, e). \<exists>es. m k = Some es \<and> e \<in> set es \<and> transactionTimestamp e \<noteq> None}"

lemma stamped_entries_empty [simp]: "stamped_entries Map.empty = {}"
  by (simp add: stamped_entries_def)

lemma stamped_createOrUpdateEntry: "stamped_entries (createOrUpdateEntry m mac inst j) \<subseteq> stamped_entries m"
  by (auto simp: stamped_entries_def createOrUpdateEntry_def Let_def entries_at_def findByMacAddress_def
      dest!: subsetD [OF set_update_subset_insert] split: if_splits option.splits)

lemma stamped_removeInstanceFromMac: "stamped_entries (removeInstanceFromMac m mac inst) \<subseteq> stamped_entries m"
  by (auto simp: stamped_entries_def removeInstanceFromMac_def Let_def entries_at_def findByMacAddress_def
      dest!: in_set_takeD in_set_dropD split: if_splits option.splits sum.splits)

lemma stamped_clearMacTransactionFromMacEntry:
  "stamped_entries (clearMacTransactionFromMacEntry m mac inst) \<subseteq> stamped_entries m"
  by (auto simp: stamped_entries_def clearMacTransactionFromMacEntry_def store_entry_def entries_at_def
      findByMacAddress_def resetTransaction_def
      dest!: subsetD [OF set_update_subset_insert] split: if_splits option.splits sum.splits)

lemma stamped_alignMacEntryAccordingToVmInterface:
  "stamped_entries (alignMacEntryAccordingToVmInterface m mac inst ifaces) \<subseteq> stamped_entries m"
  unfolding alignMacEntryAccordingToVmInterface_def
  using stamped_removeInstanceFromMac stamped_clearMacTransactionFromMacEntry
  by (auto split: sum.splits if_splits)

lemma stamped_released: "stamped_entries (released m inst) \<subseteq> stamped_entries m"
  by (auto simp: stamped_entries_def released_def split: if_splits)

lemma stamped_others:
  assumes "others inst m' = others inst m" "(k, e) \<in> stamped_entries m'" "instanceName e \<noteq> inst"
  shows "(k, e) \<in> stamped_entries m"
proof -
  from assms(2) obtain es' where es': "m' k = Some es'" "e \<in> set es'" "transactionTimestamp e \<noteq> None"
    by (auto simp: stamped_entries_def)
  with assms(3) have "\<exists>xs. others inst m' k = Some xs \<and> e \<in> set xs"
    by (auto simp: others_def Let_def filter_empty_conv)
  then obtain xs where "others inst m k = Some xs" "e \<in> set xs" using assms(1) by auto
  with es'(3) show ?thesis
    by (auto simp: stamped_entries_def others_def Let_def split: option.splits if_splits)
qed

lemma find_index_update:
  "find_index P xs = Some i \<Longrightarrow> P y \<Longrightarrow> find_index P (xs[i := y]) = Some i"
  by (induction xs arbitrary: i) (auto split: if_splits)

lemma find_store_entry:
  assumes "findByMacAddressAndInstanceName m mac inst = Inr (e, i)" "instanceName e' = inst"
  shows "findByMacAddressAndInstanceName (store_entry m mac i e') x inst =
     (if NewMacKey x = NewMacKey mac then Inr (e', i)
      else findByMacAddressAndInstanceName m x inst)"
proof -
  from assms(1) obtain es where es: "m (NewMacKey mac) = Some es" "entries_at m mac = es"
      "i < length es" by (rule find_instance_InrD)
  then have "find_index (\<lambda>e. instanceName e = inst) es = Some i"
    using assms(1)
    by (auto simp: findByMacAddressAndInstanceName_def findByMacAddress_def split: option.splits)
  with es assms(2) show ?thesis
    by (simp add: findByMacAddressAndInstanceName_def findByMacAddress_def store_entry_def
          find_index_update)
qed

text \<open>The object's entry at an address carries a timestamp.\<close>

definition stamped :: "macMap \<Rightarrow> string \<Rightarrow> time option \<Rightarrow> string \<Rightarrow> bool" where
  "stamped m inst ts mac \<longleftrightarrow>
     (\<exists>e i. findByMacAddressAndInstanceName m mac inst = Inr (e, i) \<and> transactionTimestamp e = ts)"

lemma stamped_step:
  assumes "findByMacAddressAndInstanceName m mac inst = Inr (e, i)"
  shows "stamped (store_entry m mac i (setTransaction e ts)) inst ts mac"
    and "stamped m inst ts x \<Longrightarrow> stamped (store_entry m mac i (setTransaction e ts)) inst ts x"
proof -
  have "instanceName (setTransaction e ts) = inst" using assms by (auto elim: find_instance_InrD)
  note f = find_store_entry [OF assms this]
  show "stamped (store_entry m mac i (setTransaction e ts)) inst ts mac"
    and "stamped m inst ts x \<Longrightarrow> stamped (store_entry m mac i (setTransaction e ts)) inst ts x"
    by (auto simp: stamped_def f)
qed

lemma update_keeps_stamped:
  "stamped m inst ts x \<Longrightarrow>
     stamped (snd (updateMacTransactionTimestampForUpdatedMacs m inst ts macs)) inst ts x"
  by (induction macs arbitrary: m) (auto intro: stamped_step split: sum.split)

text \<open>When the object holds every address of the list, all of them get the timestamp.\<close>

lemma updateMacTransactionTimestampForUpdatedMacs_stamps:
  assumes "\<And>mac. mac \<in> set macs \<Longrightarrow> \<exists>j. (NewMacKey mac, inst, j) \<in> holders m"
  shows "fst (updateMacTransactionTimestampForUpdatedMacs m inst ts macs) = None \<and>
     (\<forall>mac\<in>set macs. stamped (snd (updateMacTransactionTimestampForUpdatedMacs m inst ts macs)) inst ts mac)"
  using assms
proof (induction macs arbitrary: m)
  case (Cons mac macs)
  obtain r where "findByMacAddressAndInstanceName m mac inst = Inr r"
    using Cons.prems [of mac] find_instance_Inr_iff [of m mac inst] by auto
  then obtain e i where ei: "findByMacAddressAndInstanceName m mac inst = Inr (e, i)" by (cases r) auto
  let ?m = "store_entry m mac i (setTransaction e ts)"
  have "holders ?m = holders m" by (rule holders_store_entry [OF ei]) simp
  with Cons.IH [of ?m] Cons.prems update_keeps_stamped [OF stamped_step(1) [OF ei]] ei
  show ?case by auto
qed simp

subsection \<open>The interface of the store\<close>

text \<open>
  What the allocation code relies on: \<open>reserve\<close> makes an interface of an object hold an address
  and changes nothing else; \<open>release\<close> takes one of the object's interfaces off an address, if
  there is one. Any store with these two laws undoes a list of reservations of fresh addresses by
  releasing each address once, in any order.
\<close>

locale mac_store =
  fixes inv :: "'m \<Rightarrow> bool"
    and rel :: "'m \<Rightarrow> ('k \<times> string \<times> string) set"
    and key :: "string \<Rightarrow> 'k"
    and valid :: "string \<Rightarrow> bool"
    and reserve :: "'m \<Rightarrow> string \<Rightarrow> string \<Rightarrow> string \<Rightarrow> 'm"
    and release :: "'m \<Rightarrow> string \<Rightarrow> string \<Rightarrow> 'm"
  assumes inv_reserve: "inv m \<Longrightarrow> valid mac \<Longrightarrow> inv (reserve m mac i j)"
    and inv_release: "inv m \<Longrightarrow> inv (release m mac i)"
    and rel_reserve: "rel (reserve m mac i j) = insert (key mac, i, j) (rel m)"
    and rel_release: "inv m \<Longrightarrow>
      (\<forall>j. (key mac, i, j) \<notin> rel m) \<and> release m mac i = m \<or>
      (\<exists>j. (key mac, i, j) \<in> rel m \<and> rel (release m mac i) = rel m - {(key mac, i, j)})"
    and rel_finite: "inv m \<Longrightarrow> finite (rel m)"
begin

definition reserve_all :: "string \<Rightarrow> (string \<times> string) list \<Rightarrow> 'm \<Rightarrow> 'm" where
  "reserve_all i xs m = fold (\<lambda>(j, mac) m. reserve m mac i j) xs m"

definition release_all :: "string \<Rightarrow> string list \<Rightarrow> 'm \<Rightarrow> 'm" where
  "release_all i macs m = fold (\<lambda>mac m. release m mac i) macs m"

lemma reserve_all_simps [simp]:
  "reserve_all i [] m = m"
  "reserve_all i ((j, mac) # xs) m = reserve_all i xs (reserve m mac i j)"
  by (simp_all add: reserve_all_def)

lemma release_all_simps [simp]:
  "release_all i [] m = m"
  "release_all i (mac # macs) m = release_all i macs (release m mac i)"
  by (simp_all add: release_all_def)

lemma rel_reserve_all: "rel (reserve_all i xs m) = rel m \<union> {(key mac, i, j) | j mac. (j, mac) \<in> set xs}"
  by (induction xs arbitrary: m) (auto simp: rel_reserve)

lemma inv_reserve_all:
  "inv m \<Longrightarrow> list_all (\<lambda>(j, mac). valid mac) xs \<Longrightarrow> inv (reserve_all i xs m)"
  by (induction xs arbitrary: m) (auto simp: inv_reserve)

lemma inv_release_all: "inv m \<Longrightarrow> inv (release_all i macs m)"
  by (induction macs arbitrary: m) (auto simp: inv_release)

text \<open>Releasing never touches what other objects hold.\<close>

lemma release_frame:
  "inv m \<Longrightarrow> i' \<noteq> i \<Longrightarrow> (k, i', j) \<in> rel (release m mac i) \<longleftrightarrow> (k, i', j) \<in> rel m"
  using rel_release [of m mac i] by auto

lemma release_all_frame:
  "inv m \<Longrightarrow> i' \<noteq> i \<Longrightarrow> (k, i', j) \<in> rel (release_all i macs m) \<longleftrightarrow> (k, i', j) \<in> rel m"
  by (induction macs arbitrary: m) (auto simp: release_frame inv_release)

lemma release_all_subset: "inv m \<Longrightarrow> rel (release_all i macs m) \<subseteq> rel m"
proof (induction macs arbitrary: m)
  case (Cons mac macs)
  have "rel (release m mac i) \<subseteq> rel m" using rel_release [OF Cons.prems, of mac i] by auto
  with Cons show ?case by (auto dest: inv_release)
qed simp

text \<open>
  Enough releases per address bring the relation back to any part \<open>H\<close> of it that the object
  has no share in on the released addresses: each release takes one of the object's own
  interfaces off the address, until none is left.
\<close>

definition own :: "('k \<times> string \<times> string) set \<Rightarrow> string \<Rightarrow> 'm \<Rightarrow> 'k \<Rightarrow> string set" where
  "own H i m k = {j. (k, i, j) \<in> rel m - H}"

lemma own_finite: "inv m \<Longrightarrow> finite (own H i m k)"
proof -
  assume "inv m"
  have "(\<lambda>j. (k, i, j)) ` own H i m k \<subseteq> rel m" by (auto simp: own_def)
  then have "finite ((\<lambda>j. (k, i, j)) ` own H i m k)"
    using rel_finite [OF \<open>inv m\<close>] by (rule finite_subset)
  then show ?thesis by (rule finite_imageD) (auto simp: inj_on_def)
qed

lemma own_release:
  assumes "inv m" and fresh: "\<And>j. (key mac, i, j) \<notin> H"
  shows "card (own H i (release m mac i) k) \<le> card (own H i m k) - (if k = key mac then 1 else 0)"
proof (cases "\<exists>j. (key mac, i, j) \<in> rel m")
  case True
  then obtain j where j: "(key mac, i, j) \<in> rel m" "rel (release m mac i) = rel m - {(key mac, i, j)}"
    using rel_release [OF assms(1), of mac i] by blast
  show ?thesis
  proof (cases "k = key mac")
    case True
    have "own H i (release m mac i) k = own H i m k - {j}" using True j(2) by (auto simp: own_def)
    moreover have "j \<in> own H i m k" using True j(1) fresh by (simp add: own_def)
    ultimately show ?thesis using own_finite [OF assms(1)] True by simp
  next
    case False
    then have "own H i (release m mac i) k = own H i m k" using j(2) by (auto simp: own_def)
    with False show ?thesis by simp
  qed
next
  case False
  then have "release m mac i = m" using rel_release [OF assms(1), of mac i] by auto
  moreover have "own H i m (key mac) = {}" using False by (auto simp: own_def)
  ultimately show ?thesis by auto
qed

lemma release_between:
  assumes "inv m" "H \<subseteq> rel m" "\<And>j. (key mac, i, j) \<notin> H"
  shows "H \<subseteq> rel (release m mac i)" "rel (release m mac i) \<subseteq> rel m"
  using rel_release [OF assms(1), of mac i] assms(2,3) by auto

lemma release_all_restores:
  assumes "inv m" "H \<subseteq> rel m"
    and "\<And>k i' j. (k, i', j) \<in> rel m - H \<Longrightarrow> i' = i"
    and "\<And>mac j. mac \<in> set macs \<Longrightarrow> (key mac, i, j) \<notin> H"
    and "\<And>k. card (own H i m k) \<le> count (mset (map key macs)) k"
  shows "rel (release_all i macs m) = H"
  using assms
proof (induction macs arbitrary: m)
  case Nil
  have "own H i m k = {}" for k
    using Nil.prems(5) [of k] own_finite [OF Nil.prems(1), of H i k] by simp
  then have "(k, i', j) \<notin> rel m - H" for k i' j
    using Nil.prems(3) [of k i' j] by (auto simp: own_def)
  with Nil.prems(2) show ?case by auto
next
  case (Cons mac macs)
  have fresh: "(key mac, i, j) \<notin> H" for j using Cons.prems(4) by simp
  note b = release_between [OF Cons.prems(1,2) fresh]
  have "rel (release_all i macs (release m mac i)) = H"
  proof (rule Cons.IH)
    fix k
    show "card (own H i (release m mac i) k) \<le> count (mset (map key macs)) k"
      using own_release [OF Cons.prems(1) fresh, of k] Cons.prems(5) [of k]
      by (auto split: if_splits)
  qed (use Cons.prems b inv_release in auto)
  then show ?case by simp
qed

text \<open>Reserving fresh addresses and releasing each of them once, in any order, changes nothing.\<close>

lemma reserve_release_all:
  assumes "inv m" "list_all (\<lambda>(j, mac). valid mac) xs" "distinct (map fst xs)"
    and fresh: "\<And>j mac j'. (j, mac) \<in> set xs \<Longrightarrow> (key mac, i, j') \<notin> rel m"
    and macs: "mset macs = mset (map snd xs)"
  shows "rel (release_all i macs (reserve_all i xs m)) = rel m"
proof (rule release_all_restores)
  show "inv (reserve_all i xs m)" using assms(1,2) by (rule inv_reserve_all)
  show "rel m \<subseteq> rel (reserve_all i xs m)" by (auto simp: rel_reserve_all)
  show "\<And>k i' j. (k, i', j) \<in> rel (reserve_all i xs m) - rel m \<Longrightarrow> i' = i"
    by (auto simp: rel_reserve_all)
  show "(key mac, i, j) \<notin> rel m" if "mac \<in> set macs" for mac j
    using that fresh mset_eq_setD [OF macs] by fastforce
  show "card (own (rel m) i (reserve_all i xs m) k) \<le> count (mset (map key macs)) k" for k
  proof -
    have "own (rel m) i (reserve_all i xs m) k \<subseteq> set (map fst (filter (\<lambda>x. key (snd x) = k) xs))"
      by (force simp: own_def rel_reserve_all)
    then have "card (own (rel m) i (reserve_all i xs m) k) \<le>
        length (map fst (filter (\<lambda>x. key (snd x) = k) xs))"
      using card_length card_mono order_trans finite_set by metis
    also have "\<dots> = count (mset (map key (map snd xs))) k"
      by (induction xs) auto
    also have "\<dots> = count (mset (map key macs)) k" using macs by (metis mset_map)
    finally show ?thesis .
  qed
qed

end

text \<open>The map of \<open>macpoolmap.go\<close> is such a store.\<close>

interpretation pool_store: mac_store macMap_ok holders NewMacKey
  "\<lambda>mac. \<exists>a. ParseMAC mac = Inr a" createOrUpdateEntry removeInstanceFromMac
proof unfold_locales
  fix m mac i
  show "macMap_ok m \<Longrightarrow>
      (\<forall>j. (NewMacKey mac, i, j) \<notin> holders m) \<and> removeInstanceFromMac m mac i = m \<or>
      (\<exists>j. (NewMacKey mac, i, j) \<in> holders m \<and>
         holders (removeInstanceFromMac m mac i) = holders m - {(NewMacKey mac, i, j)})"
    by (rule holders_removeInstanceFromMac)
qed (auto simp: holders_createOrUpdateEntry finite_holders intro: pool_intros)

subsection \<open>Refinement of the relation\<close>

text \<open>The operations of the map that change it.\<close>

datatype map_op =
  CreateOrUpdate string string string
| RemoveInstance string string
| ClearTransaction string string
| StampTransactions string "time option" "string list"
| AlignToInterfaces string string "vm_interface list"

fun map_op_run :: "map_op \<Rightarrow> macMap \<Rightarrow> macMap" where
  "map_op_run (CreateOrUpdate mac inst key) m = createOrUpdateEntry m mac inst key"
| "map_op_run (RemoveInstance mac inst) m = removeInstanceFromMac m mac inst"
| "map_op_run (ClearTransaction mac inst) m = clearMacTransactionFromMacEntry m mac inst"
| "map_op_run (StampTransactions inst ts macs) m = snd (updateMacTransactionTimestampForUpdatedMacs m inst ts macs)"
| "map_op_run (AlignToInterfaces mac inst ifaces) m = alignMacEntryAccordingToVmInterface m mac inst ifaces"

text \<open>An entry is created for an address that parses.\<close>

fun map_op_ok :: "map_op \<Rightarrow> bool" where
  "map_op_ok (CreateOrUpdate mac inst key) \<longleftrightarrow> (\<exists>a. ParseMAC mac = Inr a)"
| "map_op_ok op \<longleftrightarrow> True"

text \<open>What they are on the relation of addresses, objects and interfaces. Which of several interfaces of an object
  loses an address they share is left open.\<close>

inductive rel_op :: "map_op \<Rightarrow> (macKey \<times> string \<times> string) set \<Rightarrow> (macKey \<times> string \<times> string) set \<Rightarrow> bool" where
  created: "rel_op (CreateOrUpdate mac i j) H (insert (NewMacKey mac, i, j) H)"
| removed: "(NewMacKey mac, i, j) \<in> H \<Longrightarrow> rel_op (RemoveInstance mac i) H (H - {(NewMacKey mac, i, j)})"
| nothing_to_remove: "\<forall>j. (NewMacKey mac, i, j) \<notin> H \<Longrightarrow> rel_op (RemoveInstance mac i) H H"
| cleared: "rel_op (ClearTransaction mac i) H H"
| stamps: "rel_op (StampTransactions i ts macs) H H"
| in_use: "(NewMacKey mac, i, iface_Name f) \<in> H \<Longrightarrow> f \<in> set fs \<Longrightarrow>
     macKey_String (NewMacKey (iface_MacAddress f)) = mac \<Longrightarrow> rel_op (AlignToInterfaces mac i fs) H H"
| not_in_use: "(NewMacKey mac, i, j) \<in> H \<Longrightarrow>
     \<forall>f\<in>set fs. iface_Name f = j \<longrightarrow> macKey_String (NewMacKey (iface_MacAddress f)) \<noteq> mac \<Longrightarrow>
     rel_op (AlignToInterfaces mac i fs) H (H - {(NewMacKey mac, i, j)})"
| nothing_to_align: "\<forall>j. (NewMacKey mac, i, j) \<notin> H \<Longrightarrow> rel_op (AlignToInterfaces mac i fs) H H"

inductive rel_ops :: "map_op list \<Rightarrow> (macKey \<times> string \<times> string) set \<Rightarrow> (macKey \<times> string \<times> string) set \<Rightarrow> bool" where
  rel_ops_Nil: "rel_ops [] H H"
| rel_ops_Cons: "rel_op op H H' \<Longrightarrow> rel_ops ops H' H'' \<Longrightarrow> rel_ops (op # ops) H H''"

lemma map_op_keeps: "macMap_ok m \<Longrightarrow> map_op_ok op \<Longrightarrow> macMap_ok (map_op_run op m)"
  by (cases op) (auto intro: pool_intros)

lemma align_refines:
  assumes "macMap_ok m"
  shows "rel_op (AlignToInterfaces mac i fs) (holders m) (holders (alignMacEntryAccordingToVmInterface m mac i fs))"
proof (cases "findByMacAddressAndInstanceName m mac i")
  case (Inl err)
  then show ?thesis
    using find_instance_InlD [OF Inl]
    by (auto simp: alignMacEntryAccordingToVmInterface_def intro: rel_op.nothing_to_align)
next
  case (Inr r)
  obtain e n where r: "r = (e, n)" by (cases r)
  note found = holders_remove_found [OF assms Inr [unfolded r]]
  let ?used = "list_ex (\<lambda>f. macKey_String (NewMacKey (iface_MacAddress f)) = mac \<and> iface_Name f = macInstanceKey e) fs"
  show ?thesis
  proof (cases ?used)
    case True
    then obtain f where "f \<in> set fs" "macKey_String (NewMacKey (iface_MacAddress f)) = mac" "iface_Name f = macInstanceKey e"
      by (auto simp: list_ex_iff)
    then have "rel_op (AlignToInterfaces mac i fs) (holders m) (holders m)"
      using found(2) by (intro rel_op.in_use [of mac i f]) simp_all
    with True Inr r show ?thesis
      by (simp add: alignMacEntryAccordingToVmInterface_def holders_clearMacTransactionFromMacEntry)
  next
    case False
    with found Inr r show ?thesis
      by (auto simp: alignMacEntryAccordingToVmInterface_def list_ex_iff intro!: rel_op.not_in_use)
  qed
qed

lemma map_op_refines:
  assumes "macMap_ok m" "map_op_ok op"
  shows "rel_op op (holders m) (holders (map_op_run op m))"
proof (cases op)
  case (RemoveInstance mac i)
  then show ?thesis
    using holders_removeInstanceFromMac [OF assms(1), of mac i] rel_op.removed [of mac i _ "holders m"]
      rel_op.nothing_to_remove [of mac i "holders m"] unfolding RemoveInstance map_op_run.simps by metis
qed (use assms in \<open>auto simp: holders_createOrUpdateEntry holders_clearMacTransactionFromMacEntry
      holders_updateMacTransactionTimestampForUpdatedMacs align_refines intro: rel_op.intros\<close>)

lemma map_ops_refine:
  "macMap_ok m \<Longrightarrow> list_all map_op_ok ops \<Longrightarrow>
     macMap_ok (fold map_op_run ops m) \<and> rel_ops ops (holders m) (holders (fold map_op_run ops m))"
  by (induction ops arbitrary: m) (auto intro: rel_ops.intros map_op_keeps map_op_refines)

text \<open>C11: The pool map refines a relation of addresses, objects and interfaces. After any sequence of its operations
  on the empty map, the relation of the map is one the abstract operations reach from the empty relation, the map is
  well-formed, and its look-ups answer from the relation: an address has entries exactly when it is held, an entry of
  an object at an address is found exactly when the object holds it, and the entries of an object are the triples with
  its name.\<close>

theorem macMap_refines:
  assumes "list_all map_op_ok ops"
  defines "m \<equiv> fold map_op_run ops Map.empty"
  shows "macMap_ok m \<and> rel_ops ops {} (holders m) \<and>
     (findByMacAddress m mac \<noteq> None \<longleftrightarrow> (\<exists>i j. (NewMacKey mac, i, j) \<in> holders m)) \<and>
     ((\<exists>r. findByMacAddressAndInstanceName m mac inst = Inr r) \<longleftrightarrow> (\<exists>j. (NewMacKey mac, inst, j) \<in> holders m)) \<and>
     (\<exists>mine. filterInByInstanceName m inst = Inr mine \<and> holders mine = {t \<in> holders m. fst (snd t) = inst})"
proof -
  have "macMap_ok m \<and> rel_ops ops {} (holders m)"
    using map_ops_refine [of Map.empty ops] assms(1) by (simp add: m_def)
  then show ?thesis
    using taken_iff_held [of m "NewMacKey mac"] find_instance_Inr_iff [of m mac inst]
      filterInByInstanceName_total [of m inst] holders_filterInByInstanceName [of m inst]
    by (auto simp: findByMacAddress_def)
qed

theorem macMap_refines_witness:
  "rel_ops [CreateOrUpdate ''02:00:00:00:00:01'' ''vm/a/b'' ''eth0'', RemoveInstance ''02:00:00:00:00:01'' ''vm/a/b'']
     {} (holders (fold map_op_run [CreateOrUpdate ''02:00:00:00:00:01'' ''vm/a/b'' ''eth0'',
       RemoveInstance ''02:00:00:00:00:01'' ''vm/a/b''] Map.empty))"
proof -
  have "\<exists>a. ParseMAC ''02:00:00:00:00:01'' = Inr a"
    using ParseMAC_hw_String [of "[2, 0, 0, 0, 0, 1]"] by (simp add: hex2_def hexDigit_def hw_length_ok_def hw_lengths_def)
  then have "list_all map_op_ok [CreateOrUpdate ''02:00:00:00:00:01'' ''vm/a/b'' ''eth0'',
      RemoveInstance ''02:00:00:00:00:01'' ''vm/a/b'']" by (simp only: list.pred_inject map_op_ok.simps simp_thms)
  from macMap_refines [OF this] show ?thesis by blast
qed

end
