(* ===== verification/Utils.thy ===== *)
theory Utils
  imports HwAddr
begin

section \<open>\<open>pkg/utils/utils.go\<close>\<close>

text \<open>
  The string-list helpers the virtual machine controller uses on finalizers, and the conversion
  of a hardware address to a 64-bit integer, which the code does by printing the bytes in
  hexadecimal and parsing the digits back. Shown: the conversion is the big-endian value of the
  address wherever that fits 63 bits, and an error elsewhere.
\<close>

fun ContainsString :: "string list \<Rightarrow> string \<Rightarrow> bool" where
  "ContainsString [] s = False"
| "ContainsString (item # items) s = (if item = s then True else ContainsString items s)"

fun RemoveString :: "string list \<Rightarrow> string \<Rightarrow> string list" where
  "RemoveString [] s = []"
| "RemoveString (item # items) s =
     (if item = s then RemoveString items s else item # RemoveString items s)"

lemma ContainsString_iff [simp]: "ContainsString items s \<longleftrightarrow> s \<in> set items"
  by (induction items) auto

lemma RemoveString_eq_filter: "RemoveString items s = filter (\<lambda>x. x \<noteq> s) items"
  by (induction items) auto

text \<open>\<open>strconv.ParseInt(s, 16, 64)\<close> on an unsigned string of digits.\<close>

fun parse_hex :: "string \<Rightarrow> nat \<Rightarrow> nat option" where
  "parse_hex [] acc = Some acc"
| "parse_hex (c # s) acc =
     (case hexVal c of None \<Rightarrow> None | Some d \<Rightarrow> parse_hex s (acc * 16 + d))"

definition ParseInt16 :: "string \<Rightarrow> go_error + int" where
  "ParseInt16 s =
     (if s = [] then Inl (ErrSyntax s)
      else case parse_hex s 0 of
        None \<Rightarrow> Inl (ErrSyntax s)
      | Some n \<Rightarrow> if n < 2 ^ 63 then Inr (int n) else Inl (ErrOutOfRange s))"

definition ConvertHwAddrToInt64 :: "hwaddr \<Rightarrow> go_error + int" where
  "ConvertHwAddrToInt64 address = ParseInt16 (concat (map hex2 address))"

lemma parse_hex_hex2: "parse_hex (hex2 b @ s) acc = parse_hex s (acc * 256 + unat b)"
proof -
  have "(acc * 16 + unat b div 16) * 16 + unat b mod 16 = acc * 256 + unat b"
    using div_mult_mod_eq [of "unat b" 16] by (simp add: algebra_simps)
  then show ?thesis by (simp add: hex2_def hexVal_hexDigit unat_byte_div algebra_simps)
qed

lemma parse_hex_concat:
  "parse_hex (concat (map hex2 a)) acc = Some (acc * 256 ^ length a + mac_val a)"
  by (induction a arbitrary: acc) (auto simp: parse_hex_hex2 algebra_simps)

lemma concat_hex2_eq_Nil [simp]: "concat (map hex2 a) = [] \<longleftrightarrow> a = []"
  by (cases a) (auto simp: hex2_def)

lemma ConvertHwAddrToInt64_eq:
  "a \<noteq> [] \<Longrightarrow> ConvertHwAddrToInt64 a =
     (if mac_val a < 2 ^ 63 then Inr (int (mac_val a))
      else Inl (ErrOutOfRange (concat (map hex2 a))))"
  using parse_hex_concat [of a 0] concat_hex2_eq_Nil [of a]
  by (simp add: ConvertHwAddrToInt64_def ParseInt16_def del: concat_hex2_eq_Nil)

lemma ConvertHwAddrToInt64_6:
  "length a = 6 \<Longrightarrow> ConvertHwAddrToInt64 a = Inr (int (mac_val a))"
  using mac_val_less [of a] by (subst ConvertHwAddrToInt64_eq) auto

lemma ConvertHwAddrToInt64_InrD:
  "ConvertHwAddrToInt64 a = Inr n \<Longrightarrow> n = int (mac_val a) \<and> mac_val a < 2 ^ 63 \<and> a \<noteq> []"
  by (cases "a = []")
     (auto simp: ConvertHwAddrToInt64_def ParseInt16_def ConvertHwAddrToInt64_eq [unfolded
          ConvertHwAddrToInt64_def] parse_hex_concat split: if_splits)

end
