(* ===== verification/Tls.thy ===== *)
theory Tls
  imports Prelude
begin

section \<open>TLS settings: \<open>pkg/tls/tls.go\<close>\<close>

text \<open>
  The conversion of the command line's TLS names to the numbers of \<open>crypto/tls\<close>. The tables
  \<open>tls.CipherSuites()\<close> and \<open>tls.InsecureCipherSuites()\<close> depend on the Go release and are
  arguments. Shown: the minimum version is exactly one of the four named ones or an error;
  unknown suites and groups are dropped and the known ones keep the order given.
\<close>

record tls_config =
  MinTLSVersion :: "16 word"
  CipherSuites :: "16 word list"
  GroupPreferences :: "16 word list"

text \<open>\<open>strings.Split(s, ",")\<close>: one piece more than there are separators.\<close>

fun split_on :: "char \<Rightarrow> string \<Rightarrow> string list" where
  "split_on sep [] = [[]]"
| "split_on sep (c # s) =
     (if c = sep then [] # split_on sep s
      else case split_on sep s of [] \<Rightarrow> [[c]] | w # ws \<Rightarrow> (c # w) # ws)"

definition versionByName :: "string \<Rightarrow> go_error + 16 word" where
  "versionByName name =
     (let versions = [(''VersionTLS10'', 0x0301), (''VersionTLS11'', 0x0302),
                      (''VersionTLS12'', 0x0303), (''VersionTLS13'', 0x0304)]
      in case map_of versions name of Some v \<Rightarrow> Inr v | None \<Rightarrow> Inl (ErrTlsVersion name))"

text \<open>Later assignments to the same key win, so the tables are searched from the back.\<close>

fun ids_by_name :: "(string \<Rightarrow> 16 word option) \<Rightarrow> string list \<Rightarrow> 16 word list" where
  "ids_by_name idByName [] = []"
| "ids_by_name idByName (name # names) =
     (case idByName name of
        Some i \<Rightarrow> i # ids_by_name idByName names
      | None \<Rightarrow> ids_by_name idByName names)"

definition tlsCipherSuites ::
    "(string \<times> 16 word) list \<Rightarrow> (string \<times> 16 word) list \<Rightarrow> string list \<Rightarrow> 16 word list" where
  "tlsCipherSuites suites insecureSuites cipherSuitesNames =
     ids_by_name (map_of (rev (suites @ insecureSuites))) cipherSuitesNames"

definition tlsGroups :: "string list \<Rightarrow> 16 word list" where
  "tlsGroups tlsGroupNames =
     ids_by_name (map_of
       [(''CurveP256'', 23), (''CurveP384'', 24), (''CurveP521'', 25), (''X25519'', 29),
        (''X25519MLKEM768'', 4588), (''SecP256r1MLKEM768'', 4587),
        (''SecP384r1MLKEM1024'', 4589)]) tlsGroupNames"

definition NewConfig ::
    "(string \<times> 16 word) list \<Rightarrow> (string \<times> 16 word) list \<Rightarrow> string \<Rightarrow> string \<Rightarrow> string \<Rightarrow>
     go_error + tls_config" where
  "NewConfig suites insecureSuites minTLSVersion cipherSuites groups =
     (case versionByName minTLSVersion of
        Inl err \<Rightarrow> Inl err
      | Inr minTLSVersionID \<Rightarrow>
          Inr \<lparr>MinTLSVersion = minTLSVersionID,
               CipherSuites = tlsCipherSuites suites insecureSuites
                 (split_on (CHR '','') cipherSuites),
               GroupPreferences = tlsGroups (split_on (CHR '','') groups)\<rparr>)"

lemma ids_by_name_eq: "ids_by_name f names = List.map_filter f names"
  by (induction names) (auto simp: List.map_filter_simps split: option.splits)

lemma versionByName_Inr_iff:
  "versionByName name = Inr v \<longleftrightarrow>
     (name, v) \<in> {(''VersionTLS10'', 0x0301), (''VersionTLS11'', 0x0302),
                 (''VersionTLS12'', 0x0303), (''VersionTLS13'', 0x0304)}"
  by (auto simp: versionByName_def Let_def split: if_splits)

text \<open>No separator is left in a piece, and joining the pieces gives the string back.\<close>

fun join_with :: "char \<Rightarrow> string list \<Rightarrow> string" where
  "join_with sep [] = []"
| "join_with sep [w] = w"
| "join_with sep (w # ws) = w @ sep # join_with sep ws"

lemma split_on_neq_Nil [simp]: "split_on sep s \<noteq> []"
  by (induction s) (auto split: list.splits)

lemma join_with_Cons: "ws \<noteq> [] \<Longrightarrow> join_with sep (w # ws) = w @ sep # join_with sep ws"
  by (cases ws) auto

lemma split_on_no_sep: "sep \<notin> set w \<Longrightarrow> split_on sep w = [w]"
  by (induction w) auto

lemma split_on_sep: "sep \<notin> set w \<Longrightarrow> split_on sep (w @ sep # s) = w # split_on sep s"
  by (induction w) auto

lemma join_split_on: "join_with sep (split_on sep s) = s"
proof (induction s)
  case (Cons c s)
  obtain w ws where "split_on sep s = w # ws" by (cases "split_on sep s") auto
  with Cons show ?case by (cases ws) (auto simp: join_with_Cons)
qed simp

lemma split_on_pieces: "w \<in> set (split_on sep s) \<Longrightarrow> sep \<notin> set w"
proof (induction s arbitrary: w)
  case (Cons c s)
  then show ?case by (cases "split_on sep s") (auto split: if_splits)
qed simp

end
