(* ===== verification/PoolManager.thy ===== *)
theory PoolManager
  imports MacPoolMap Utils Tls
begin

section \<open>The pool manager and its MAC range: \<open>pool.go\<close>\<close>

text \<open>
  The state of the program (the struct \<open>PoolManager\<close>) and the operations on its address range:
  the validation of a range, its size, a random address of it, the successor of an address and
  the search for a free one. An exported operation on the pool map runs under \<open>poolMutex\<close>, a draw and a change of the range
  under \<open>rangeMutex\<close>; a call is taken as one atomic step on the record, although the range may change between two draws of one allocation.

  The inner loop of \<open>getFreeMac\<close> ends only when it meets a free address or prints the same
  string as the range end; that need not ever happen, so the loop is a partial function.

  Shown: on a range of 6-byte addresses that contains the current address, \<open>getFreeMac\<close> always
  returns, it finds the first free address in cyclic order from the current one, fails exactly
  when the whole range is taken, and moves the current address so that the range invariant is
  kept; \<open>UpdateRanges\<close> accepts exactly the unicast-ended, non-empty ranges whose start is below
  their end, and changes nothing when it refuses.
\<close>

unbundle bit_operations_syntax

subsection \<open>The state\<close>

datatype ObjectType = ObjectTypeVMI | ObjectTypePod

record ObjectReference =
  ref_Type :: ObjectType
  ref_Namespace :: string
  ref_Name :: string

text \<open>The two metrics of \<open>pkg/monitoring/metrics\<close>: the gauge vector by MAC and the counter.\<close>

record metrics =
  macCollisionMetric :: "string \<Rightarrow> nat option"
  duplicateMacsMetric :: nat

record pool_manager =
  rangeStart :: hwaddr
  rangeEnd :: hwaddr
  currentMac :: hwaddr
  managerNamespace :: string
  macPoolMap :: macMap
  podToMacPoolMap :: "string \<Rightarrow> (string \<Rightarrow> string option) option"
  collidingObjectsPerMAC :: "(string \<Rightarrow> ObjectReference list option) option"
  pm_metrics :: metrics
  isKubevirt :: bool
  waitTime :: int
  isPoolReady :: bool
  tlsConfig :: tls_config

subsection \<open>Ranges\<close>

fun checkRange_from :: "nat list \<Rightarrow> hwaddr \<Rightarrow> hwaddr \<Rightarrow> (go_error + unit) run" where
  "checkRange_from [] startMac endMac = Ret (Inl ErrInvalidRange)"
| "checkRange_from (idx # idxs) startMac endMac =
     (if idx < length startMac \<and> idx < length endMac
      then if startMac ! idx < endMac ! idx then Ret (Inr ())
           else checkRange_from idxs startMac endMac
      else Panics)"

definition checkRange :: "hwaddr \<Rightarrow> hwaddr \<Rightarrow> (go_error + unit) run" where
  "checkRange startMac endMac = checkRange_from [0, 1, 2, 3, 4, 5] startMac endMac"

definition GetMacPoolSize :: "hwaddr \<Rightarrow> hwaddr \<Rightarrow> (go_error + int) run" where
  "GetMacPoolSize startMac endMac =
     bind_run (checkRange startMac endMac) (\<lambda>r.
       case r of
         Inl err \<Rightarrow> Ret (Inl (ErrPoolSize err))
       | Inr _ \<Rightarrow>
           (case ConvertHwAddrToInt64 startMac of
              Inl err \<Rightarrow> Ret (Inl (ErrWrap ''rangeStart'' err))
            | Inr startInt \<Rightarrow>
                (case ConvertHwAddrToInt64 endMac of
                   Inl err \<Rightarrow> Ret (Inl (ErrWrap ''rangeEnd'' err))
                 | Inr endInt \<Rightarrow> Ret (Inr (wrap64 (endInt - startInt + 1))))))"

text \<open>\<open>binary.BigEndian.PutUint64\<close> of a 64-bit value into eight bytes.\<close>

definition PutUint64 :: "int \<Rightarrow> byte list" where
  "PutUint64 v = map (\<lambda>i. word_of_int (v div 256 ^ i)) (rev [0..<8])"

text \<open>
  \<open>rand.Int\<close> of \<open>crypto/rand\<close> is the argument \<open>rnd\<close>: given the bound it returns a number or
  the reader's error. Its documentation: a uniform value at least 0 and below the bound.
\<close>

definition rand_Int_ok :: "(int \<Rightarrow> go_error + int) \<Rightarrow> bool" where
  "rand_Int_ok rnd \<longleftrightarrow> (\<forall>n r. 0 < n \<longrightarrow> rnd n = Inr r \<longrightarrow> 0 \<le> r \<and> r < n)"

definition generateRandomMac ::
    "(int \<Rightarrow> go_error + int) \<Rightarrow> hwaddr \<Rightarrow> hwaddr \<Rightarrow> (go_error + hwaddr) run" where
  "generateRandomMac rnd startMac endMac =
     bind_run (GetMacPoolSize startMac endMac) (\<lambda>r.
       case r of
         Inl err \<Rightarrow> Ret (Inl (ErrWrap ''pool size'' err))
       | Inr poolSize \<Rightarrow>
           if poolSize \<le> 0 then Ret (Inl (ErrNegativePoolSize poolSize))
           else (case rnd poolSize of
              Inl err \<Rightarrow> Ret (Inl (ErrWrap ''random offset'' err))
            | Inr randomOffset \<Rightarrow>
                (case ConvertHwAddrToInt64 startMac of
                   Inl err \<Rightarrow> Ret (Inl (ErrWrap ''rangeStart'' err))
                 | Inr startInt \<Rightarrow>
                     (let randomMacInt = wrap64 (startInt + randomOffset)
                      in Ret (Inr (drop 2 (PutUint64 randomMacInt)))))))"

definition checkCast :: "hwaddr \<Rightarrow> (go_error + unit) run" where
  "checkCast mac =
     (case mac of
        [] \<Rightarrow> Panics
      | b # _ \<Rightarrow>
          (let multicastBit = 1 AND b
           in if multicastBit \<noteq> 1 then Ret (Inr ()) else Ret (Inl (ErrMulticast b))))"

fun getNextMac_from :: "nat \<Rightarrow> hwaddr \<Rightarrow> hwaddr" where
  "getNextMac_from idx mac =
     (let mac' = mac[idx := mac ! idx + 1]
      in if mac' ! idx \<noteq> 0 then mac'
         else case idx of 0 \<Rightarrow> mac' | Suc idx' \<Rightarrow> getNextMac_from idx' mac')"

declare getNextMac_from.simps [simp del]

text \<open>The loop starts at index 5; a shorter slice is out of range there at once.\<close>

definition getNextMac :: "hwaddr \<Rightarrow> hwaddr run" where
  "getNextMac mac = (if length mac < 6 then Panics else Ret (getNextMac_from 5 mac))"

text \<open>Go's \<open>copy\<close> overwrites as many elements as both slices have.\<close>

definition go_copy :: "'a list \<Rightarrow> 'a list \<Rightarrow> 'a list" where
  "go_copy dst src = take (length dst) src @ drop (length src) dst"

text \<open>
  The inner loop of \<open>getFreeMac\<close>, from the address \<open>cur\<close>: \<open>(True, mac)\<close> at the first free
  address, \<open>(False, mac)\<close> at the range end.
\<close>

partial_function (option) scanRange ::
    "macMap \<Rightarrow> hwaddr \<Rightarrow> hwaddr \<Rightarrow> (bool \<times> hwaddr) run option" where
  "scanRange m endMac cur =
     (if m (NewMacKey (hw_String cur)) = None then Some (Ret (True, cur))
      else if hw_String cur = hw_String endMac then Some (Ret (False, cur))
      else case getNextMac cur of
             Ret cur' \<Rightarrow> scanRange m endMac cur'
           | Panics \<Rightarrow> Some Panics
           | Hangs \<Rightarrow> Some Hangs)"

fun getFreeMac_loop :: "nat \<Rightarrow> pool_manager \<Rightarrow> ((go_error + hwaddr) \<times> pool_manager) run" where
  "getFreeMac_loop 0 p = Ret (Inl ErrFull, p)"
| "getFreeMac_loop (Suc n) p =
     bind_run (run_loop (scanRange (macPoolMap p) (rangeEnd p) (currentMac p))) (\<lambda>(found, cur).
       if found
       then bind_run (if hw_String cur = hw_String (rangeEnd p)
                      then Ret (go_copy cur (rangeStart p)) else getNextMac cur)
              (\<lambda>cur'. Ret (Inr cur, p\<lparr>currentMac := cur'\<rparr>))
       else getFreeMac_loop n (p\<lparr>currentMac := go_copy cur (rangeStart p)\<rparr>))"

definition getFreeMac :: "pool_manager \<Rightarrow> ((go_error + hwaddr) \<times> pool_manager) run" where
  "getFreeMac p = getFreeMac_loop 2 p"

subsection \<open>Updating the range; construction\<close>

definition UpdateRanges ::
    "(int \<Rightarrow> go_error + int) \<Rightarrow> hwaddr \<Rightarrow> hwaddr \<Rightarrow> pool_manager \<Rightarrow>
     (go_error option \<times> pool_manager) run" where
  "UpdateRanges rnd newStart newEnd p =
     bind_run (checkRange newStart newEnd) (\<lambda>r. case r of
       Inl err \<Rightarrow> Ret (Some err, p)
     | Inr _ \<Rightarrow>
     bind_run (checkCast newStart) (\<lambda>r. case r of
       Inl err \<Rightarrow> Ret (Some (ErrRangeStart err), p)
     | Inr _ \<Rightarrow>
     bind_run (checkCast newEnd) (\<lambda>r. case r of
       Inl err \<Rightarrow> Ret (Some (ErrRangeEnd err), p)
     | Inr _ \<Rightarrow>
     (let oldStart = rangeStart p; oldEnd = rangeEnd p;
          p1 = p\<lparr>rangeStart := newStart, rangeEnd := newEnd\<rparr>
      in bind_run (generateRandomMac rnd newStart newEnd) (\<lambda>r. case r of
           Inl err \<Rightarrow> Ret (Some (ErrCurrentMac err),
                         p1\<lparr>rangeStart := oldStart, rangeEnd := oldEnd\<rparr>)
         | Inr newCurrentMac \<Rightarrow> Ret (None, p1\<lparr>currentMac := newCurrentMac\<rparr>))))))"

definition GetCurrentRanges :: "pool_manager \<Rightarrow> string \<times> string" where
  "GetCurrentRanges p = (hw_String (rangeStart p), hw_String (rangeEnd p))"

definition getCurrentMAC :: "pool_manager \<Rightarrow> string" where
  "getCurrentMAC p = hw_String (currentMac p)"

text \<open>
  The gauge and the counter live in the process-wide metrics registry, so the constructor is
  given their present values.
\<close>

definition NewPoolManager ::
    "(int \<Rightarrow> go_error + int) \<Rightarrow> metrics \<Rightarrow> hwaddr \<Rightarrow> hwaddr \<Rightarrow> string \<Rightarrow> bool \<Rightarrow> int \<Rightarrow>
     (pool_manager \<Rightarrow> pool_manager) list \<Rightarrow> (go_error + pool_manager) run" where
  "NewPoolManager rnd mets start_mac end_mac namesp kubevirtExist wait opts =
     (let p0 = \<lparr>rangeStart = [], rangeEnd = [], currentMac = [], managerNamespace = namesp,
                macPoolMap = Map.empty, podToMacPoolMap = Map.empty,
                collidingObjectsPerMAC = None, pm_metrics = mets, isKubevirt = kubevirtExist,
                waitTime = wait, isPoolReady = False,
                tlsConfig = \<lparr>MinTLSVersion = 0, CipherSuites = [], GroupPreferences = []\<rparr>\<rparr>;
          p1 = fold (\<lambda>opt p. opt p) opts p0
      in bind_run (UpdateRanges rnd start_mac end_mac p1) (\<lambda>(e, p). case e of
           Some err \<Rightarrow> Ret (Inl (ErrInitialRange err))
         | None \<Rightarrow> Ret (Inr p)))"

definition WithTLSConfig :: "tls_config \<Rightarrow> pool_manager \<Rightarrow> pool_manager" where
  "WithTLSConfig cfg p = p\<lparr>tlsConfig := cfg\<rparr>"

definition IsReady :: "pool_manager \<Rightarrow> bool" where
  "IsReady p = isPoolReady p"

definition IsKubevirtEnabled :: "pool_manager \<Rightarrow> bool" where
  "IsKubevirtEnabled p = isKubevirt p"

subsection \<open>The arithmetic of addresses\<close>

lemma mac_val_digits:
  "0 \<le> v \<Longrightarrow> int (mac_val (map (\<lambda>i. word_of_int (v div 256 ^ i)) (rev [0..<n]))) = v mod 256 ^ n"
proof (induction n)
  case 0
  then show ?case by simp
next
  case (Suc n)
  have "int (unat (word_of_int (v div 256 ^ n) :: byte)) = v div 256 ^ n mod 256"
    by (simp add: uint_word_of_int)
  then have "int (mac_val (map (\<lambda>i. word_of_int (v div 256 ^ i)) (rev [0..<Suc n]))) =
      (v div 256 ^ n mod 256) * 256 ^ n + v mod 256 ^ n"
    using Suc by simp
  also have "\<dots> = v mod (256 ^ n * 256)"
    by (subst zmod_zmult2_eq) (simp_all add: mult.commute)
  finally show ?case by (simp add: mult.commute)
qed

lemma drop_2_PutUint64:
  "drop 2 (PutUint64 v) = map (\<lambda>i. word_of_int (v div 256 ^ i)) (rev [0..<6])"
  by (simp add: PutUint64_def upt_rec drop_map)

lemma length_drop_2_PutUint64: "length (drop 2 (PutUint64 v)) = 6"
  by (simp add: drop_2_PutUint64)

lemma mac_val_PutUint64: "0 \<le> v \<Longrightarrow> int (mac_val (drop 2 (PutUint64 v))) = v mod 256 ^ 6"
  unfolding drop_2_PutUint64 by (rule mac_val_digits)

lemma length_getNextMac_from [simp]: "length (getNextMac_from i mac) = length mac"
  by (induction i mac rule: getNextMac_from.induct)
     (subst getNextMac_from.simps, simp add: Let_def split: nat.splits)

lemma getNextMac_from_append:
  "i < length xs \<Longrightarrow> getNextMac_from i (xs @ ys) = getNextMac_from i xs @ ys"
proof (induction i arbitrary: xs)
  case 0
  then show ?case
    by (simp add: getNextMac_from.simps [of 0] Let_def list_update_append nth_append)
next
  case (Suc i)
  then show ?case
    by (simp add: getNextMac_from.simps [of "Suc i"] Let_def list_update_append nth_append)
qed

lemma unat_byte_Suc: "unat (b + 1 :: byte) = (if b + 1 = 0 then 0 else unat b + 1)"
  by (metis unat_0 unatSuc Suc_eq_plus1 add.commute)

lemma unat_byte_wrap: "b + 1 = (0 :: byte) \<Longrightarrow> unat b = 255"
proof -
  assume "b + 1 = 0"
  then have "b = 255" by (simp add: add_eq_0_iff2)
  then show ?thesis by simp
qed

text \<open>The successor adds one, modulo the size of the address space.\<close>

lemma mac_val_getNextMac_from:
  "length mac = Suc i \<Longrightarrow> mac_val (getNextMac_from i mac) = (mac_val mac + 1) mod 256 ^ Suc i"
proof (induction i arbitrary: mac)
  case 0
  then obtain b where "mac = [b]" by (auto simp: length_Suc_conv)
  then show ?case
    using unat_byte_Suc [of b] unat_byte_wrap [of b] unat_byte_less [of "b + 1"]
    by (auto simp: getNextMac_from.simps [of 0] Let_def)
next
  case (Suc i)
  obtain xs b where mac: "mac = xs @ [b]" and len: "length xs = Suc i"
    using Suc.prems by (cases mac rule: rev_cases) auto
  show ?case
  proof (cases "b + 1 = 0")
    case True
    have "getNextMac_from (Suc i) mac = getNextMac_from i (xs @ [0])"
      using len True
      by (simp add: mac getNextMac_from.simps [of "Suc i"] Let_def nth_append list_update_append)
    then have "mac_val (getNextMac_from (Suc i) mac) = (mac_val xs + 1) mod 256 ^ Suc i * 256"
      using len Suc.IH [of xs] by (simp add: getNextMac_from_append mac_val_append)
    also have "\<dots> = (mac_val xs * 256 + 256) mod (256 ^ Suc i * 256)"
      by (simp only: mult_mod_left distrib_right mult_1)
    also have "\<dots> = (mac_val mac + 1) mod 256 ^ Suc (Suc i)"
      using unat_byte_wrap [OF True] by (simp add: mac mac_val_append algebra_simps)
    finally show ?thesis .
  next
    case False
    have nx: "getNextMac_from (Suc i) mac = xs @ [b + 1]"
      using len False
      by (simp add: mac getNextMac_from.simps [of "Suc i"] Let_def nth_append list_update_append)
    then have "mac_val (getNextMac_from (Suc i) mac) = mac_val mac + 1"
      using unat_byte_Suc [of b] False by (simp add: mac mac_val_append)
    then show ?thesis
      using mac_val_less [of "getNextMac_from (Suc i) mac"] Suc.prems by simp
  qed
qed

lemma getNextMac_6:
  assumes "length mac = 6"
  obtains mac' where "getNextMac mac = Ret mac'" "length mac' = 6"
    "mac_val mac' = (mac_val mac + 1) mod 256 ^ 6"
  using assms mac_val_getNextMac_from [of mac 5]
  by (auto simp: getNextMac_def)

subsection \<open>The search for a free address against its specification\<close>

text \<open>The 6-byte address of a number, the addresses between two others, and being free.\<close>

definition mac_of_nat :: "nat \<Rightarrow> hwaddr" where
  "mac_of_nat n = drop 2 (PutUint64 (int n))"

definition mac_upto :: "hwaddr \<Rightarrow> hwaddr \<Rightarrow> hwaddr list" where
  "mac_upto a b = map mac_of_nat [mac_val a..<Suc (mac_val b)]"

definition mac_free :: "macMap \<Rightarrow> hwaddr \<Rightarrow> bool" where
  "mac_free m a \<longleftrightarrow> m (MacKey (hw_String a)) = None"

text \<open>
  The specification: the first free address from the current one to the range end, else the
  first free one of the whole range.
\<close>

definition first_free :: "pool_manager \<Rightarrow> hwaddr option" where
  "first_free p = find (mac_free (macPoolMap p))
     (mac_upto (currentMac p) (rangeEnd p) @ mac_upto (rangeStart p) (rangeEnd p))"

definition next_in_range :: "pool_manager \<Rightarrow> hwaddr \<Rightarrow> hwaddr" where
  "next_in_range p a = (if a = rangeEnd p then rangeStart p else mac_of_nat (mac_val a + 1))"

text \<open>The range invariant: six-byte ends, both unicast, and the current address between them.\<close>

definition unicast :: "hwaddr \<Rightarrow> bool" where
  "unicast a \<longleftrightarrow> even (a ! 0)"

definition range_ok :: "pool_manager \<Rightarrow> bool" where
  "range_ok p \<longleftrightarrow> length (rangeStart p) = 6 \<and> length (rangeEnd p) = 6 \<and> length (currentMac p) = 6 \<and>
     mac_val (rangeStart p) \<le> mac_val (currentMac p) \<and> mac_val (currentMac p) \<le> mac_val (rangeEnd p) \<and>
     unicast (rangeStart p) \<and> unicast (rangeEnd p)"

lemma length_mac_of_nat [simp]: "length (mac_of_nat n) = 6"
  by (simp add: mac_of_nat_def drop_2_PutUint64)

lemma mac_val_mac_of_nat: "mac_val (mac_of_nat n) = n mod 256 ^ 6"
proof -
  have "int (mac_val (mac_of_nat n)) = int (n mod 256 ^ 6)"
    unfolding mac_of_nat_def zmod_int using mac_val_PutUint64 [of "int n"] by simp
  then show ?thesis by (simp only: of_nat_eq_iff)
qed

lemma mac_of_nat_mac_val [simp]: "length a = 6 \<Longrightarrow> mac_of_nat (mac_val a) = a"
  using mac_val_inject [of "mac_of_nat (mac_val a)" a] mac_val_less [of a]
  by (simp add: mac_val_mac_of_nat)

lemma hw_length_ok_6: "length a = 6 \<Longrightarrow> hw_length_ok a"
  by (simp add: hw_length_ok_iff)

lemma mac_free_iff: "length a = 6 \<Longrightarrow> mac_free m a \<longleftrightarrow> m (NewMacKey (hw_String a)) = None"
  by (simp add: mac_free_def hw_length_ok_6)

lemma find_append_eq:
  "find P (xs @ ys) = (case find P xs of Some x \<Rightarrow> Some x | None \<Rightarrow> find P ys)"
  by (induction xs) auto

lemma mac_upto_Cons:
  "length a = 6 \<Longrightarrow> mac_val a < mac_val b \<Longrightarrow> length b = 6 \<Longrightarrow>
     mac_upto a b = a # mac_upto (mac_of_nat (mac_val a + 1)) b"
  using mac_val_less [of b] by (simp add: mac_upto_def upt_conv_Cons mac_val_mac_of_nat)

lemma mac_upto_single: "length a = 6 \<Longrightarrow> mac_upto a a = [a]"
  by (simp add: mac_upto_def)

lemma set_mac_upto:
  "length b = 6 \<Longrightarrow>
     set (mac_upto a b) = {x. length x = 6 \<and> mac_val a \<le> mac_val x \<and> mac_val x \<le> mac_val b}"
proof
  assume b: "length b = 6"
  show "set (mac_upto a b) \<subseteq> {x. length x = 6 \<and> mac_val a \<le> mac_val x \<and> mac_val x \<le> mac_val b}"
    using mac_val_less [of b] b by (auto simp: mac_upto_def mac_val_mac_of_nat)
  show "{x. length x = 6 \<and> mac_val a \<le> mac_val x \<and> mac_val x \<le> mac_val b} \<subseteq> set (mac_upto a b)"
  proof
    fix x
    assume "x \<in> {x. length x = 6 \<and> mac_val a \<le> mac_val x \<and> mac_val x \<le> mac_val b}"
    then show "x \<in> set (mac_upto a b)"
      unfolding mac_upto_def set_map by (intro image_eqI [of x mac_of_nat "mac_val x"]) auto
  qed
qed

lemma getNextMac_mac_of_nat:
  assumes "length a = 6" "mac_val a + 1 < 256 ^ 6"
  shows "getNextMac a = Ret (mac_of_nat (mac_val a + 1))"
proof -
  obtain a' where a': "getNextMac a = Ret a'" "length a' = 6"
      "mac_val a' = (mac_val a + 1) mod 256 ^ 6"
    using assms(1) by (rule getNextMac_6)
  then have "a' = mac_of_nat (mac_val a + 1)"
    using assms(2) by (simp add: mac_val_inject [symmetric] mac_val_mac_of_nat)
  with a'(1) show ?thesis by simp
qed

lemma scanRange_eq_find:
  assumes "length cur = 6" "length endMac = 6" "mac_val cur \<le> mac_val endMac"
  shows "scanRange m endMac cur =
     Some (Ret (case find (mac_free m) (mac_upto cur endMac) of
                  Some x \<Rightarrow> (True, x) | None \<Rightarrow> (False, endMac)))"
  using assms
proof (induction "mac_val endMac - mac_val cur" arbitrary: cur)
  case 0
  then have "cur = endMac" by (simp add: mac_val_inject)
  with 0 show ?case
    by (subst scanRange.simps) (simp add: mac_upto_single mac_free_iff)
next
  case (Suc n)
  then have lt: "mac_val cur < mac_val endMac" and ne: "cur \<noteq> endMac" by auto
  have bound: "mac_val cur + 1 < 256 ^ 6" using lt mac_val_less [of endMac] Suc.prems by simp
  let ?nx = "mac_of_nat (mac_val cur + 1)"
  have IH: "scanRange m endMac ?nx =
      Some (Ret (case find (mac_free m) (mac_upto ?nx endMac) of
                   Some x \<Rightarrow> (True, x) | None \<Rightarrow> (False, endMac)))"
    using Suc.hyps(2) Suc.prems lt bound by (intro Suc.hyps(1)) (auto simp: mac_val_mac_of_nat)
  show ?case
    using IH lt ne bound Suc.prems getNextMac_mac_of_nat [OF Suc.prems(1) bound]
    by (subst scanRange.simps) (simp add: mac_upto_Cons mac_free_iff)
qed

lemma go_copy_same_length: "length a = length b \<Longrightarrow> go_copy a b = b"
  by (simp add: go_copy_def)

lemma find_in_mac_upto:
  "find P (mac_upto a b) = Some x \<Longrightarrow> length b = 6 \<Longrightarrow>
     P x \<and> length x = 6 \<and> mac_val a \<le> mac_val x \<and> mac_val x \<le> mac_val b"
  using set_mac_upto [of b a] by (auto simp: find_Some_iff)

text \<open>One round of the outer loop, from a current address inside the range.\<close>

lemma getFreeMac_loop_round:
  assumes "range_ok p"
  shows "getFreeMac_loop (Suc n) p =
     (case find (mac_free (macPoolMap p)) (mac_upto (currentMac p) (rangeEnd p)) of
        Some x \<Rightarrow> Ret (Inr x, p\<lparr>currentMac := next_in_range p x\<rparr>)
      | None \<Rightarrow> getFreeMac_loop n (p\<lparr>currentMac := rangeStart p\<rparr>))"
proof (cases "find (mac_free (macPoolMap p)) (mac_upto (currentMac p) (rangeEnd p))")
  case None
  with assms show ?thesis by (simp add: range_ok_def scanRange_eq_find go_copy_same_length)
next
  case (Some x)
  have x: "length x = 6" "mac_val x \<le> mac_val (rangeEnd p)"
    using find_in_mac_upto [OF Some] assms by (auto simp: range_ok_def)
  show ?thesis
  proof (cases "x = rangeEnd p")
    case True
    with Some assms x show ?thesis
      by (simp add: range_ok_def scanRange_eq_find go_copy_same_length next_in_range_def)
  next
    case False
    then have "mac_val x < mac_val (rangeEnd p)"
      using x assms mac_val_inject [of x "rangeEnd p"] by (auto simp: range_ok_def)
    then have "mac_val x + 1 < 256 ^ 6"
      using mac_val_less [of "rangeEnd p"] assms by (auto simp: range_ok_def)
    with Some False assms x show ?thesis
      by (simp add: range_ok_def scanRange_eq_find getNextMac_mac_of_nat next_in_range_def)
  qed
qed

lemma getFreeMac_eq_first_free:
  assumes "range_ok p"
  shows "getFreeMac p =
     Ret (case first_free p of
            Some x \<Rightarrow> (Inr x, p\<lparr>currentMac := next_in_range p x\<rparr>)
          | None \<Rightarrow> (Inl ErrFull, p\<lparr>currentMac := rangeStart p\<rparr>))"
proof -
  let ?q = "p\<lparr>currentMac := rangeStart p\<rparr>"
  have q: "range_ok ?q" using assms by (auto simp: range_ok_def)
  show ?thesis
    unfolding getFreeMac_def first_free_def numeral_2_eq_2 getFreeMac_loop_round [OF assms]
      getFreeMac_loop_round [OF q] find_append_eq
    by (auto simp: next_in_range_def split: option.splits)
qed

text \<open>What a caller of \<open>getFreeMac\<close> may rely on.\<close>

definition in_range :: "pool_manager \<Rightarrow> hwaddr \<Rightarrow> bool" where
  "in_range p a \<longleftrightarrow> length a = 6 \<and> mac_val (rangeStart p) \<le> mac_val a \<and> mac_val a \<le> mac_val (rangeEnd p)"

lemma first_free_Some:
  assumes "range_ok p" "first_free p = Some x"
  shows "in_range p x" "mac_free (macPoolMap p) x"
proof -
  have e: "length (rangeEnd p) = 6" using assms(1) by (simp add: range_ok_def)
  from assms(2) have "mac_free (macPoolMap p) x" and
    "x \<in> set (mac_upto (currentMac p) (rangeEnd p)) \<union> set (mac_upto (rangeStart p) (rangeEnd p))"
    unfolding first_free_def find_Some_iff by (metis nth_mem set_append)+
  then show "in_range p x" "mac_free (macPoolMap p) x"
    using assms(1) unfolding set_mac_upto [OF e] in_range_def range_ok_def by auto
qed

lemma first_free_None:
  assumes "range_ok p"
  shows "first_free p = None \<longleftrightarrow> (\<forall>x. in_range p x \<longrightarrow> \<not> mac_free (macPoolMap p) x)"
proof -
  have e: "length (rangeEnd p) = 6" using assms by (simp add: range_ok_def)
  show ?thesis
    using assms unfolding first_free_def find_None_iff set_append set_mac_upto [OF e]
    by (auto simp: in_range_def range_ok_def)
qed

lemma in_range_next:
  assumes "range_ok p" "in_range p x"
  shows "range_ok (p\<lparr>currentMac := next_in_range p x\<rparr>)"
proof (cases "x = rangeEnd p")
  case True
  with assms show ?thesis by (auto simp: range_ok_def next_in_range_def)
next
  case False
  then have "mac_val x < mac_val (rangeEnd p)"
    using assms mac_val_inject [of x "rangeEnd p"] by (auto simp: range_ok_def in_range_def)
  with False assms show ?thesis
    using mac_val_less [of "rangeEnd p"]
    by (auto simp: range_ok_def in_range_def next_in_range_def mac_val_mac_of_nat)
qed

lemma getFreeMac_returns:
  assumes "range_ok p"
  obtains x where "getFreeMac p = Ret (Inr x, p\<lparr>currentMac := next_in_range p x\<rparr>)"
      "in_range p x" "mac_free (macPoolMap p) x" "range_ok (p\<lparr>currentMac := next_in_range p x\<rparr>)"
  | "getFreeMac p = Ret (Inl ErrFull, p\<lparr>currentMac := rangeStart p\<rparr>)"
      "\<forall>x. in_range p x \<longrightarrow> \<not> mac_free (macPoolMap p) x"
      "range_ok (p\<lparr>currentMac := rangeStart p\<rparr>)"
proof (cases "first_free p")
  case (Some x)
  with that(1) [of x] first_free_Some [OF assms Some] getFreeMac_eq_first_free [OF assms]
    in_range_next [OF assms]
  show ?thesis by simp
next
  case None
  with that(2) first_free_None [OF assms] getFreeMac_eq_first_free [OF assms] assms
  show ?thesis by (simp add: range_ok_def)
qed

subsection \<open>Ranges that are accepted\<close>

lemma checkCast_eq:
  "a \<noteq> [] \<Longrightarrow>
     checkCast a = Ret (if unicast a then Inr () else Inl (ErrMulticast (a ! 0)))"
proof -
  assume "a \<noteq> []"
  then obtain b bs where a: "a = b # bs" by (cases a) auto
  have "1 AND b = of_bool (odd b)"
    by (simp add: one_and_eq mod_2_eq_odd)
  then show ?thesis by (simp add: a checkCast_def unicast_def Let_def)
qed

lemma checkRange_from_eq:
  "\<forall>i\<in>set is. i < length s \<and> i < length e \<Longrightarrow>
     checkRange_from is s e =
       Ret (if \<exists>i\<in>set is. s ! i < e ! i then Inr () else Inl ErrInvalidRange)"
  by (induction "is") auto

lemma checkRange_eq:
  "6 \<le> length s \<Longrightarrow> 6 \<le> length e \<Longrightarrow>
     checkRange s e = Ret (if \<exists>i<6. s ! i < e ! i then Inr () else Inl ErrInvalidRange)"
proof -
  assume "6 \<le> length s" "6 \<le> length e"
  moreover have "set [0, 1, 2, 3, 4, 5] = {i. i < (6 :: nat)}" by auto
  ultimately show ?thesis
    unfolding checkRange_def by (subst checkRange_from_eq) auto
qed

text \<open>
  A 6-byte range with its start below its end passes the byte-wise test; a range with equal ends
  does not. (A range whose start is above its end may pass it too: the pool size then decides.)
\<close>

lemma mac_val_less_witness:
  "length s = length e \<Longrightarrow> mac_val s < mac_val e \<Longrightarrow> \<exists>i<length s. s ! i < e ! i"
proof (induction s e rule: list_induct2)
  case (Cons x xs y ys)
  then show ?case
    using mac_val_less_Cons [of xs ys x y] by (auto simp: nth_Cons' intro: exI [of _ 0])
       (metis Suc_less_eq diff_Suc_1' zero_less_Suc less_numeral_extra(3))
qed simp

lemma GetMacPoolSize_6:
  assumes "length s = 6" "length e = 6"
  shows "GetMacPoolSize s e =
     Ret (if \<exists>i<6. s ! i < e ! i then Inr (int (mac_val e) - int (mac_val s) + 1)
          else Inl (ErrPoolSize ErrInvalidRange))"
proof -
  have "wrap64 (int (mac_val e) - int (mac_val s) + 1) = int (mac_val e) - int (mac_val s) + 1"
    using mac_val_less [of s] mac_val_less [of e] assms by (intro wrap64_id) auto
  then show ?thesis
    using assms by (simp add: GetMacPoolSize_def checkRange_eq ConvertHwAddrToInt64_6)
qed

lemma generateRandomMac_6:
  assumes "length s = 6" "length e = 6" "mac_val s < mac_val e" "rand_Int_ok rnd"
    "rnd (int (mac_val e) - int (mac_val s) + 1) = Inr r"
  shows "generateRandomMac rnd s e = Ret (Inr (mac_of_nat (mac_val s + nat r)))"
    and "mac_val (mac_of_nat (mac_val s + nat r)) = mac_val s + nat r"
    and "mac_val s + nat r \<le> mac_val e"
proof -
  have r: "0 \<le> r" "r < int (mac_val e) - int (mac_val s) + 1"
    using assms(3-5) unfolding rand_Int_ok_def by (meson diff_gt_0_iff_gt of_nat_less_iff add_pos_pos
      zero_less_one)+
  have b: "mac_val s < 256 ^ 6" "mac_val e < 256 ^ 6"
    using mac_val_less [of s] mac_val_less [of e] assms(1,2) by simp_all
  show le: "mac_val s + nat r \<le> mac_val e" using r by linarith
  then show "mac_val (mac_of_nat (mac_val s + nat r)) = mac_val s + nat r"
    using b by (simp add: mac_val_mac_of_nat)
  have "wrap64 (int (mac_val s) + r) = int (mac_val s + nat r)"
    using r b by (subst wrap64_id) auto
  then show "generateRandomMac rnd s e = Ret (Inr (mac_of_nat (mac_val s + nat r)))"
    using assms mac_val_less_witness [of s e]
    by (auto simp: generateRandomMac_def GetMacPoolSize_6 ConvertHwAddrToInt64_6 mac_of_nat_def
          Let_def)
qed

lemma UpdateRanges_Some: "UpdateRanges rnd s e p = Ret (Some err, p') \<Longrightarrow> p' = p"
  by (auto simp: UpdateRanges_def Let_def split: bind_run_splits sum.splits)

lemma generateRandomMac_inverted:
  assumes "length s = 6" "length e = 6" "mac_val e < mac_val s" "\<exists>i<6. s ! i < e ! i"
  shows "\<exists>err. generateRandomMac rnd s e = Ret (Inl err)"
  using assms by (simp add: generateRandomMac_def GetMacPoolSize_6)

lemma generateRandomMac_rand_error:
  assumes "length s = 6" "length e = 6" "mac_val s < mac_val e"
    "rnd (int (mac_val e) - int (mac_val s) + 1) = Inl err"
  shows "\<exists>err. generateRandomMac rnd s e = Ret (Inl err)"
  using assms mac_val_less_witness [of s e]
  by (auto simp: generateRandomMac_def GetMacPoolSize_6)

text \<open>An accepted range: the exact condition, and the state it leaves.\<close>

definition range_acceptable :: "(int \<Rightarrow> go_error + int) \<Rightarrow> hwaddr \<Rightarrow> hwaddr \<Rightarrow> bool" where
  "range_acceptable rnd s e \<longleftrightarrow> mac_val s < mac_val e \<and> unicast s \<and> unicast e \<and>
     (\<exists>r. rnd (int (mac_val e) - int (mac_val s) + 1) = Inr r)"

lemma UpdateRanges_accepts:
  assumes "length s = 6" "length e = 6" "rand_Int_ok rnd" "range_acceptable rnd s e"
  obtains c where "UpdateRanges rnd s e p =
      Ret (None, p\<lparr>rangeStart := s, rangeEnd := e, currentMac := c\<rparr>)"
    "range_ok (p\<lparr>rangeStart := s, rangeEnd := e, currentMac := c\<rparr>)"
proof -
  obtain r where r: "rnd (int (mac_val e) - int (mac_val s) + 1) = Inr r"
    using assms(4) by (auto simp: range_acceptable_def)
  have lt: "mac_val s < mac_val e" and u: "unicast s" "unicast e"
    using assms(4) by (auto simp: range_acceptable_def)
  note g = generateRandomMac_6 [OF assms(1,2) lt assms(3) r]
  let ?c = "mac_of_nat (mac_val s + nat r)"
  have "s \<noteq> []" "e \<noteq> []" "\<exists>i<6. s ! i < e ! i"
    using assms(1,2) mac_val_less_witness [of s e] lt by auto
  then have "UpdateRanges rnd s e p =
      Ret (None, p\<lparr>rangeStart := s, rangeEnd := e, currentMac := ?c\<rparr>)"
    using assms(1,2) u g(1) by (auto simp: UpdateRanges_def checkRange_eq checkCast_eq Let_def)
  moreover have "range_ok (p\<lparr>rangeStart := s, rangeEnd := e, currentMac := ?c\<rparr>)"
    using assms(1,2) g(2,3) u by (simp add: range_ok_def)
  ultimately show thesis by (rule that)
qed

lemma UpdateRanges_refuses:
  assumes "length s = 6" "length e = 6" "\<not> range_acceptable rnd s e"
  shows "\<exists>err. UpdateRanges rnd s e p = Ret (Some err, p)"
proof -
  have ne: "s \<noteq> []" "e \<noteq> []" using assms(1,2) by auto
  consider (order) "\<not> (\<exists>i<6. s ! i < e ! i)" | (cast) "\<not> (unicast s \<and> unicast e)"
    | (inv) "\<exists>i<6. s ! i < e ! i" "mac_val e < mac_val s"
    | (rand) err where "mac_val s < mac_val e"
        "rnd (int (mac_val e) - int (mac_val s) + 1) = Inl err"
  proof -
    assume a: "\<not> (\<exists>i<6. s ! i < e ! i) \<Longrightarrow> thesis" "\<not> (unicast s \<and> unicast e) \<Longrightarrow> thesis"
      "\<exists>i<6. s ! i < e ! i \<Longrightarrow> mac_val e < mac_val s \<Longrightarrow> thesis"
      "\<And>err. mac_val s < mac_val e \<Longrightarrow> rnd (int (mac_val e) - int (mac_val s) + 1) = Inl err \<Longrightarrow> thesis"
    show thesis
    proof (cases "mac_val s" "mac_val e" rule: linorder_cases)
      case less
      with a(2,4) assms(3) show thesis
        by (cases "rnd (int (mac_val e) - int (mac_val s) + 1)") (auto simp: range_acceptable_def)
    next
      case equal
      then have "s = e" using assms(1,2) by (simp add: mac_val_inject)
      with a(1) show thesis by simp
    next
      case greater
      with a(1,3) show thesis by blast
    qed
  qed
  then show ?thesis
    using ne assms(1,2)
    by cases (auto simp: UpdateRanges_def checkRange_eq checkCast_eq Let_def
        dest: generateRandomMac_inverted [OF assms(1,2), of rnd]
              generateRandomMac_rand_error [OF assms(1,2), of rnd])
qed

subsection \<open>Properties\<close>

text \<open>C2: On a range of 6-byte addresses that contains the current address, \<open>getFreeMac\<close>
  always returns. It gives an address of the range that the pool map does not hold, or the error
  \<open>the range is full\<close>, and the latter only when the map holds every address of the range. Of
  the state it changes only the current address, which stays inside the range.\<close>

theorem getFreeMac_correct:
  assumes "range_ok p"
  shows "\<exists>r c. getFreeMac p = Ret (r, p\<lparr>currentMac := c\<rparr>) \<and> range_ok (p\<lparr>currentMac := c\<rparr>) \<and>
     (case r of
        Inr x \<Rightarrow> in_range p x \<and> mac_free (macPoolMap p) x
      | Inl e \<Rightarrow> e = ErrFull \<and> (\<forall>x. in_range p x \<longrightarrow> \<not> mac_free (macPoolMap p) x))"
proof (cases rule: getFreeMac_returns [OF assms])
  case (1 x)
  then show ?thesis by (intro exI [of _ "Inr x"] exI [of _ "next_in_range p x"]) simp
next
  case 2
  then show ?thesis by (intro exI [of _ "Inl ErrFull"] exI [of _ "rangeStart p"]) simp
qed

definition sample_pool :: pool_manager where
  "sample_pool = \<lparr>rangeStart = [2, 0, 0, 0, 0, 0], rangeEnd = [2, 0, 0, 0, 0, 9],
     currentMac = [2, 0, 0, 0, 0, 7], managerNamespace = ''ns'', macPoolMap = Map.empty,
     podToMacPoolMap = Map.empty, collidingObjectsPerMAC = None,
     pm_metrics = \<lparr>macCollisionMetric = Map.empty, duplicateMacsMetric = 0\<rparr>,
     isKubevirt = True, waitTime = 600, isPoolReady = True,
     tlsConfig = \<lparr>MinTLSVersion = 0, CipherSuites = [], GroupPreferences = []\<rparr>\<rparr>"

lemma sample_pool_ok: "range_ok sample_pool"
  by (simp add: range_ok_def sample_pool_def unicast_def)

theorem getFreeMac_correct_witness:
  "\<exists>r c. getFreeMac sample_pool = Ret (r, sample_pool\<lparr>currentMac := c\<rparr>) \<and>
     (case r of Inr x \<Rightarrow> in_range sample_pool x | Inl e \<Rightarrow> e = ErrFull)"
  using getFreeMac_correct [OF sample_pool_ok] by (fastforce split: sum.splits)

text \<open>C12: The two nested loops of \<open>getFreeMac\<close> find the first free address in cyclic order:
  from the current address to the end of the range, then from its start. The current address
  becomes the one after the address found (the range start after the range end).\<close>

theorem getFreeMac_first_free:
  assumes "range_ok p"
  shows "getFreeMac p =
     Ret (case find (mac_free (macPoolMap p))
                 (mac_upto (currentMac p) (rangeEnd p) @ mac_upto (rangeStart p) (rangeEnd p)) of
            Some x \<Rightarrow> (Inr x, p\<lparr>currentMac := next_in_range p x\<rparr>)
          | None \<Rightarrow> (Inl ErrFull, p\<lparr>currentMac := rangeStart p\<rparr>))"
  using getFreeMac_eq_first_free [OF assms] by (simp add: first_free_def)

theorem getFreeMac_first_free_witness:
  "getFreeMac sample_pool = Ret (Inr [2, 0, 0, 0, 0, 7], sample_pool\<lparr>currentMac := [2, 0, 0, 0, 0, 8]\<rparr>)"
proof -
  let ?a = "[2, 0, 0, 0, 0, 7] :: hwaddr" and ?b = "[2, 0, 0, 0, 0, 9] :: hwaddr"
  have nx: "mac_of_nat (mac_val ?a + 1) = [2, 0, 0, 0, 0, 8]"
    using mac_of_nat_mac_val [of "[2, 0, 0, 0, 0, 8]"] by simp
  have "mac_upto ?a ?b = ?a # mac_upto [2, 0, 0, 0, 0, 8] ?b"
    unfolding nx [symmetric] by (rule mac_upto_Cons) simp_all
  then show ?thesis
    using getFreeMac_first_free [OF sample_pool_ok] nx
    by (simp add: sample_pool_def mac_free_def next_in_range_def)
qed

text \<open>C24: \<open>UpdateRanges\<close> on two 6-byte addresses always returns. It accepts exactly the pairs
  whose start is below the end and whose two ends are unicast, given a random number; it then
  installs the range with a current address inside it and touches nothing else. On every refusal
  the whole state is as before.\<close>

theorem UpdateRanges_correct:
  assumes "length s = 6" "length e = 6" "rand_Int_ok rnd"
  shows "if range_acceptable rnd s e
     then \<exists>c. UpdateRanges rnd s e p =
            Ret (None, p\<lparr>rangeStart := s, rangeEnd := e, currentMac := c\<rparr>) \<and>
          range_ok (p\<lparr>rangeStart := s, rangeEnd := e, currentMac := c\<rparr>)
     else \<exists>err. UpdateRanges rnd s e p = Ret (Some err, p)"
  using UpdateRanges_accepts [OF assms] UpdateRanges_refuses [OF assms(1,2)] by (metis (full_types))

theorem UpdateRanges_correct_witness:
  "\<exists>c. UpdateRanges (\<lambda>_. Inr 0) [2, 0, 0, 0, 0, 0] [2, 0, 0, 0, 1, 0] sample_pool =
     Ret (None, sample_pool\<lparr>rangeStart := [2, 0, 0, 0, 0, 0], rangeEnd := [2, 0, 0, 0, 1, 0],
       currentMac := c\<rparr>)"
  using UpdateRanges_correct [of "[2, 0, 0, 0, 0, 0]" "[2, 0, 0, 0, 1, 0]" "\<lambda>_. Inr 0" sample_pool]
  by (auto simp: range_acceptable_def rand_Int_ok_def unicast_def)

end
