(* ===== verification/OptMode.thy ===== *)
theory OptMode
  imports PoolManager
begin

section \<open>Managed namespaces: the opt-mode part of \<open>pool.go\<close>\<close>

text \<open>
  Whether a namespace is managed depends on the webhook configuration of the cluster (its
  namespace selector says opt-in or opt-out) and on the namespace's labels. The Kubernetes client
  and the label matching of \<open>k8s.io/apimachinery\<close> are code outside the program: the record
  \<open>kube\<close> holds them as functions, and is an argument of every definition that calls them.

  The list requests are paginated: a loop that ends when the server sends no continue token, so a
  partial function. Shown: on a server that serves finitely many pages the loop visits exactly
  them, in order; a namespace is managed in opt-in mode exactly when its labels match the
  selector, in opt-out mode exactly when they are absent or match; the two ways of asking (one
  namespace, or all of them at start-up) agree.
\<close>

record kube =
  get_webhook_config :: "string \<Rightarrow> api_error + mutating_webhook list"
  get_namespace :: "string \<Rightarrow> api_error + namespace"
  list_namespaces :: "int \<Rightarrow> string \<Rightarrow> api_error + namespace list \<times> string"
  get_vm :: "string \<Rightarrow> string \<Rightarrow> api_error + virtual_machine"
  list_vms :: "int \<Rightarrow> string \<Rightarrow> api_error + virtual_machine list \<times> string"
  list_pods :: "int \<Rightarrow> string \<Rightarrow> api_error + pod list \<times> string"
  selector_matches :: "label_selector \<Rightarrow> string_map \<Rightarrow> go_error + bool"

subsection \<open>Pagination\<close>

text \<open>
  The loop the three list operations share: request a page, handle it, stop on an error or when
  there is no continue token.
\<close>

partial_function (option) paginate ::
    "(string \<Rightarrow> api_error + 'i list \<times> string) \<Rightarrow> ('i list \<Rightarrow> 's \<Rightarrow> (go_error option \<times> 's) run) \<Rightarrow>
     string \<Rightarrow> 's \<Rightarrow> (go_error option \<times> 's) run option" where
  "paginate list_page body continueFlag s =
     (case list_page continueFlag of
        Inl e \<Rightarrow> Some (Ret (Some (ErrWrap ''failed to list'' (ErrApi e)), s))
      | Inr (items, continueFlag') \<Rightarrow>
          (case body items s of
             Ret (Some err, s') \<Rightarrow> Some (Ret (Some err, s'))
           | Ret (None, s') \<Rightarrow>
               if continueFlag' = [] then Some (Ret (None, s'))
               else paginate list_page body continueFlag' s'
           | Panics \<Rightarrow> Some Panics
           | Hangs \<Rightarrow> Some Hangs))"

text \<open>A server that hands out a finite sequence of pages from a token on.\<close>

fun serves :: "(string \<Rightarrow> api_error + 'i list \<times> string) \<Rightarrow> 'i list list \<Rightarrow> string \<Rightarrow> bool" where
  "serves list_page [] token \<longleftrightarrow> False"
| "serves list_page [page] token \<longleftrightarrow> list_page token = Inr (page, [])"
| "serves list_page (page # pages) token \<longleftrightarrow>
     (\<exists>token'. list_page token = Inr (page, token') \<and> token' \<noteq> [] \<and> serves list_page pages token')"

lemma paginate_serves:
  "serves list_page pages token \<Longrightarrow>
     paginate list_page body token s = Some (for_each body pages s)"
proof (induction list_page pages token arbitrary: s rule: serves.induct)
  case (1 list_page token)
  then show ?case by simp
next
  case (2 list_page page token)
  then show ?case
    by (subst paginate.simps) (auto split: run.splits option.splits prod.splits)
next
  case (3 list_page page p pages token)
  then obtain token' where t: "list_page token = Inr (page, token')" "token' \<noteq> []"
      "serves list_page (p # pages) token'"
    by auto
  show ?case
    using 3(1) [OF t(3)] t(1,2)
    by (subst paginate.simps) (auto split: run.splits option.splits prod.splits)
qed

text \<open>
  Two such loops on the same server, with states in a relation that the bodies keep, run alike, whatever the server
  answers: both return related results or neither returns.
\<close>

lemma paginate_related:
  fixes R :: "'s \<Rightarrow> 't \<Rightarrow> bool" and b1 :: "'i list \<Rightarrow> 's \<Rightarrow> (go_error option \<times> 's) run"
  assumes "paginate lp b1 t s1 = Some r1" "R s1 s2"
    and bodies: "\<And>items s1 s2. R s1 s2 \<Longrightarrow> rel_run (rel_prod (=) R) (b1 items s1) (b2 items s2)"
  shows "\<exists>r2. paginate lp b2 t s2 = Some r2 \<and> rel_run (rel_prod (=) R) r1 r2"
proof -
  let ?sim = "\<lambda>b1. \<forall>items s1 s2. R s1 s2 \<longrightarrow> rel_run (rel_prod (=) R) (b1 items s1) (b2 items s2)"
  have "?sim b1 \<longrightarrow> (\<forall>s2. R s1 s2 \<longrightarrow> (\<exists>r2. paginate lp b2 t s2 = Some r2 \<and> rel_run (rel_prod (=) R) r1 r2))"
    using assms(1)
  proof (rule paginate.raw_induct [rotated], intro impI allI)
    fix pg :: "(string \<Rightarrow> api_error + 'i list \<times> string) \<Rightarrow> ('i list \<Rightarrow> 's \<Rightarrow> (go_error option \<times> 's) run) \<Rightarrow> string \<Rightarrow> 's \<Rightarrow>
        (go_error option \<times> 's) run option" and lp b1 t s1 r1 s2
    assume IH: "\<And>lp b1 t s1 r1. pg lp b1 t s1 = Some r1 \<Longrightarrow> ?sim b1 \<longrightarrow>
        (\<forall>s2. R s1 s2 \<longrightarrow> (\<exists>r2. paginate lp b2 t s2 = Some r2 \<and> rel_run (rel_prod (=) R) r1 r2))"
      and sim: "?sim b1" and R: "R s1 s2"
      and r1: "(case lp t of
          Inl e \<Rightarrow> Some (Ret (Some (ErrWrap ''failed to list'' (ErrApi e)), s1))
        | Inr (items, t') \<Rightarrow> (case b1 items s1 of
            Ret (Some err, s') \<Rightarrow> Some (Ret (Some err, s'))
          | Ret (None, s') \<Rightarrow> if t' = [] then Some (Ret (None, s')) else pg lp b1 t' s'
          | Panics \<Rightarrow> Some Panics | Hangs \<Rightarrow> Some Hangs)) = Some r1"
    show "\<exists>r2. paginate lp b2 t s2 = Some r2 \<and> rel_run (rel_prod (=) R) r1 r2"
    proof (cases "lp t")
      case (Inr page)
      obtain items t' where page: "page = (items, t')" by (cases page)
      have "rel_run (rel_prod (=) R) (b1 items s1) (b2 items s2)" using sim R by blast
      then show ?thesis
      proof (cases rule: run.rel_cases)
        case (Ret x y)
        then obtain e p q where "x = (e, p)" "y = (e, q)" "R p q" by (cases x; cases y) auto
        with r1 Inr page Ret IH [of lp b1 t' p r1] sim show ?thesis
          by (cases e; cases "t' = []") (auto simp: paginate.simps [of lp b2 t])
      qed (use r1 Inr page in \<open>simp_all add: paginate.simps [of lp b2 t]\<close>)
    qed (use r1 R in \<open>auto simp: paginate.simps [of lp b2 t]\<close>)
  qed
  with assms(2) bodies show ?thesis by blast
qed

lemma run_loop_related:
  assumes "R s1 s2" "\<And>items s1 s2. R s1 s2 \<Longrightarrow> rel_run (rel_prod (=) R) (b1 items s1) (b2 items s2)"
  shows "rel_run (rel_prod (=) R) (run_loop (paginate lp b1 t s1)) (run_loop (paginate lp b2 t s2))"
proof (cases "paginate lp b1 t s1")
  case (Some r1)
  with paginate_related [of lp b1 t s1 r1 R s2 b2] assms show ?thesis by auto
next
  case None
  have "paginate lp b2 t s2 = None"
  proof (rule ccontr)
    assume "paginate lp b2 t s2 \<noteq> None"
    then obtain r2 where r2: "paginate lp b2 t s2 = Some r2" by auto
    have "rel_run (rel_prod (=) (\<lambda>x y. R y x)) (b2 items q) (b1 items p)" if "R p q" for items p q
      using assms(2) [OF that, of items] by (cases rule: run.rel_cases) auto
    with paginate_related [OF r2, of "\<lambda>x y. R y x" s1 b1] assms(1) None show False by auto
  qed
  with None show ?thesis by simp
qed

text \<open>In particular, a loop keeps what its body keeps.\<close>

lemma keeps_paginate:
  assumes "\<And>items. keeps_run I (body items)"
  shows "keeps_run I (\<lambda>s. run_loop (paginate list_page body token s))"
proof (rule keeps_runI)
  fix s e s' assume s: "I s" and r: "run_loop (paginate list_page body token s) = Ret (e, s')"
  let ?R = "\<lambda>x y. x = y \<and> I x"
  have "rel_run (rel_prod (=) ?R) (body items x) (body items x)" if "I x" for items x
    using that assms [of items] by (cases "body items x") (auto simp: rel_prod_conv dest: keeps_runD split: prod.split)
  with run_loop_related [of ?R s s body body list_page token] s r show "I s'" by auto
qed

text \<open>A loop panics only if its body does so on a page the server has sent.\<close>

lemma safe_paginate:
  fixes body :: "'i list \<Rightarrow> 's \<Rightarrow> (go_error option \<times> 's) run"
  assumes "\<And>t items t'. list_page t = Inr (items, t') \<Longrightarrow> safe_run I (body items)"
    and "\<And>items. keeps_run I (body items)"
  shows "safe_run I (\<lambda>s. run_loop (paginate list_page body token s))"
proof -
  let ?ok = "\<lambda>lp body. \<forall>t items t'. lp t = Inr (items, t') \<longrightarrow> safe_run I (body items)"
  have "?ok list_page body \<longrightarrow> I s \<longrightarrow> r \<noteq> Panics" if "paginate list_page body token s = Some r" for s r
    using that
  proof (rule paginate.raw_induct [rotated], intro impI)
    fix pg :: "(string \<Rightarrow> api_error + 'i list \<times> string) \<Rightarrow> ('i list \<Rightarrow> 's \<Rightarrow> (go_error option \<times> 's) run) \<Rightarrow> string \<Rightarrow> 's \<Rightarrow>
        (go_error option \<times> 's) run option" and lp body t s r
    assume IH: "\<And>lp body t s r. pg lp body t s = Some r \<Longrightarrow> ?ok lp body \<longrightarrow> I s \<longrightarrow> r \<noteq> Panics"
      and ok: "?ok lp body" and s: "I s"
      and r: "(case lp t of
          Inl e \<Rightarrow> Some (Ret (Some (ErrWrap ''failed to list'' (ErrApi e)), s))
        | Inr (items, t') \<Rightarrow> (case body items s of
            Ret (Some err, s') \<Rightarrow> Some (Ret (Some err, s'))
          | Ret (None, s') \<Rightarrow> if t' = [] then Some (Ret (None, s')) else pg lp body t' s'
          | Panics \<Rightarrow> Some Panics | Hangs \<Rightarrow> Some Hangs)) = Some r"
    show "r \<noteq> Panics"
    proof (cases "lp t")
      case (Inr page)
      obtain items t' where page: "page = (items, t')" by (cases page)
      with ok Inr have "safe_run I (body items)" by blast
      then show ?thesis using s
      proof (cases rule: safe_run_cases)
        case (1 e s')
        with r Inr page IH [of lp body t' s' r] ok show ?thesis by (cases e; cases "t' = []") auto
      qed (use r Inr page in auto)
    qed (use r in auto)
  qed
  then have "run_loop (paginate list_page body token s) \<noteq> Panics" if "I s" for s
    using that assms(1) by (cases "paginate list_page body token s") auto
  then show ?thesis using keeps_paginate [OF assms(2)] by (simp add: safe_run_def)
qed

subsection \<open>Opt-mode\<close>

datatype OptMode = OptInMode | OptOutMode

definition mutatingWebhookConfigName :: string where
  "mutatingWebhookConfigName = ''kubemacpool-mutator''"

definition virtualMachnesWebhookName :: string where
  "virtualMachnesWebhookName = ''mutatevirtualmachines.kubemacpool.io''"

definition podsWebhookName :: string where
  "podsWebhookName = ''mutatepods.kubemacpool.io''"

definition lookupWebhookInMutatingWebhookConfig ::
    "kube \<Rightarrow> string \<Rightarrow> string \<Rightarrow> go_error + mutating_webhook" where
  "lookupWebhookInMutatingWebhookConfig k configName webhookName =
     (case get_webhook_config k configName of
        Inl e \<Rightarrow> Inl (ErrWrap ''Failed to get mutatingWebhookConfig'' (ErrApi e))
      | Inr webhooks \<Rightarrow>
          (case find (\<lambda>w. webhook_Name w = webhookName) webhooks of
             Some w \<Rightarrow> Inr w
           | None \<Rightarrow> Inl (ErrNoWebhook webhookName)))"

text \<open>
  An \<open>OptMode\<close> of the source is a string; the only values the program makes are the two
  constants, next to the empty string that comes with an error.
\<close>

definition isNamespaceManagedByDefault :: "OptMode \<Rightarrow> bool" where
  "isNamespaceManagedByDefault vmOptMode =
     (case vmOptMode of OptInMode \<Rightarrow> False | OptOutMode \<Rightarrow> True)"

fun optMode_of_expressions :: "string \<Rightarrow> label_requirement list \<Rightarrow> OptMode option" where
  "optMode_of_expressions webhookName [] = None"
| "optMode_of_expressions webhookName (expression # expressions) =
     (if expression = \<lparr>req_Key = webhookName, req_Operator = ''In'', req_Values = [''allocate'']\<rparr>
      then Some OptInMode
      else if expression = \<lparr>req_Key = webhookName, req_Operator = ''NotIn'', req_Values = [''ignore'']\<rparr>
      then Some OptOutMode
      else optMode_of_expressions webhookName expressions)"

definition getOptModeFromWebhook :: "string \<Rightarrow> label_selector option \<Rightarrow> go_error + OptMode" where
  "getOptModeFromWebhook webhookName namespaceSelector =
     (case namespaceSelector of
        None \<Rightarrow> Inl (ErrNoNamespaceSelector webhookName)
      | Some sel \<Rightarrow>
          (case optMode_of_expressions webhookName (MatchExpressions sel) of
             Some mode \<Rightarrow> Inr mode
           | None \<Rightarrow>
               if map_of (MatchLabels sel) webhookName = Some ''allocate'' then Inr OptInMode
               else Inl (ErrNoOptMode webhookName)))"

definition getOptMode :: "kube \<Rightarrow> string \<Rightarrow> string \<Rightarrow> go_error + OptMode" where
  "getOptMode k configName webhookName =
     (case lookupWebhookInMutatingWebhookConfig k configName webhookName of
        Inl err \<Rightarrow> Inl (ErrWrap ''Failed lookup webhook in MutatingWebhookConfig'' err)
      | Inr webhook \<Rightarrow> getOptModeFromWebhook webhookName (NamespaceSelector webhook))"

definition isNamespaceManagedByWebhookNamespaceSelector ::
    "kube \<Rightarrow> label_selector \<Rightarrow> OptMode \<Rightarrow> string_map \<Rightarrow> bool \<Rightarrow> go_error + bool" where
  "isNamespaceManagedByWebhookNamespaceSelector k namespaceSelector vmOptMode labels defaultIsManaged =
     (case selector_matches k namespaceSelector labels of
        Inl err \<Rightarrow> Inl (ErrWrap ''failed to convert namespace selector'' err)
      | Inr isMatch \<Rightarrow>
          if vmOptMode = OptInMode \<and> isMatch then Inr True
          else if vmOptMode = OptOutMode \<and> \<not> isMatch then Inr False
          else Inr defaultIsManaged)"

definition isNamespaceManagedFromObject ::
    "kube \<Rightarrow> namespace \<Rightarrow> label_selector \<Rightarrow> OptMode \<Rightarrow> go_error + bool" where
  "isNamespaceManagedFromObject k ns namespaceSelector vmOptMode =
     (let defaultIsManaged = isNamespaceManagedByDefault vmOptMode
      in case ns_Labels ns of
           None \<Rightarrow> Inr defaultIsManaged
         | Some labels \<Rightarrow>
             (case isNamespaceManagedByWebhookNamespaceSelector k namespaceSelector vmOptMode labels
                     defaultIsManaged of
                Inl err \<Rightarrow>
                  Inl (ErrWrap ''failed to check if namespace managed by webhook namespaceSelector'' err)
              | Inr isManaged \<Rightarrow> Inr isManaged))"

text \<open>
  The namespace selector is a pointer; where the code passes it on it is not nil, since the
  opt-mode was read from it.
\<close>

definition IsNamespaceManaged :: "kube \<Rightarrow> string \<Rightarrow> string \<Rightarrow> go_error + bool" where
  "IsNamespaceManaged k namespaceName webhookName =
     (case lookupWebhookInMutatingWebhookConfig k mutatingWebhookConfigName webhookName of
        Inl err \<Rightarrow> Inl (ErrWrap ''failed to lookup webhook'' err)
      | Inr webhook \<Rightarrow>
     (case (getOptModeFromWebhook webhookName (NamespaceSelector webhook), NamespaceSelector webhook) of
        (Inr vmOptMode, Some sel) \<Rightarrow>
          (case get_namespace k namespaceName of
             Inl e \<Rightarrow> Inl (ErrWrap ''failed to get namespace'' (ErrApi e))
           | Inr ns \<Rightarrow>
               (case isNamespaceManagedFromObject k ns sel vmOptMode of
                  Inl err \<Rightarrow> Inl (ErrWrap ''failed to check if namespace is managed'' err)
                | Inr b \<Rightarrow> Inr b))
      | (Inl err, _) \<Rightarrow> Inl (ErrWrap ''failed to get opt-Mode'' err)
      | (Inr _, None) \<Rightarrow> Inl (ErrNoNamespaceSelector webhookName)))"

definition IsVirtualMachineManaged :: "kube \<Rightarrow> string \<Rightarrow> go_error + bool" where
  "IsVirtualMachineManaged k namespaceName = IsNamespaceManaged k namespaceName virtualMachnesWebhookName"

definition IsPodManaged :: "kube \<Rightarrow> string \<Rightarrow> go_error + bool" where
  "IsPodManaged k namespaceName = IsNamespaceManaged k namespaceName podsWebhookName"

text \<open>The body of the start-up loop: a namespace whose check fails is skipped.\<close>

definition collectManaged ::
    "kube \<Rightarrow> label_selector \<Rightarrow> OptMode \<Rightarrow> namespace list \<Rightarrow> string set \<Rightarrow>
     (go_error option \<times> string set) run" where
  "collectManaged k sel vmOptMode items managedNamespaces =
     Ret (None, fold (\<lambda>ns acc.
            case isNamespaceManagedFromObject k ns sel vmOptMode of
              Inl _ \<Rightarrow> acc
            | Inr managed \<Rightarrow> if managed then insert (ns_Name ns) acc else acc)
          items managedNamespaces)"

definition getManagedNamespaces :: "kube \<Rightarrow> string \<Rightarrow> (go_error + string set) run" where
  "getManagedNamespaces k webhookName =
     (case lookupWebhookInMutatingWebhookConfig k mutatingWebhookConfigName webhookName of
        Inl err \<Rightarrow> Ret (Inl (ErrWrap ''failed to lookup webhook'' err))
      | Inr webhook \<Rightarrow>
     (case (getOptModeFromWebhook webhookName (NamespaceSelector webhook), NamespaceSelector webhook) of
        (Inr vmOptMode, Some sel) \<Rightarrow>
          bind_run (run_loop (paginate (list_namespaces k 500) (collectManaged k sel vmOptMode) [] {}))
            (\<lambda>(e, managedNamespaces). case e of
               Some err \<Rightarrow> Ret (Inl err)
             | None \<Rightarrow> Ret (Inr managedNamespaces))
      | (Inl err, _) \<Rightarrow> Ret (Inl (ErrWrap ''failed to get opt-mode for webhook'' err))
      | (Inr _, None) \<Rightarrow> Ret (Inl (ErrNoNamespaceSelector webhookName))))"

subsection \<open>Properties\<close>

text \<open>The webhook, its selector and its mode, as both uses read them.\<close>

definition webhook_mode :: "kube \<Rightarrow> string \<Rightarrow> label_selector \<Rightarrow> OptMode \<Rightarrow> bool" where
  "webhook_mode k webhookName sel mode \<longleftrightarrow>
     (\<exists>w. lookupWebhookInMutatingWebhookConfig k mutatingWebhookConfigName webhookName = Inr w \<and>
        NamespaceSelector w = Some sel \<and> getOptModeFromWebhook webhookName (Some sel) = Inr mode)"

lemma isNamespaceManagedFromObject_True:
  "isNamespaceManagedFromObject k ns sel mode = Inr True \<longleftrightarrow>
     (case ns_Labels ns of None \<Rightarrow> mode = OptOutMode
      | Some labels \<Rightarrow> selector_matches k sel labels = Inr True)"
  by (cases mode)
     (auto simp: isNamespaceManagedFromObject_def isNamespaceManagedByDefault_def Let_def
        isNamespaceManagedByWebhookNamespaceSelector_def split: option.splits sum.splits)

lemma IsNamespaceManaged_True:
  "IsNamespaceManaged k n w = Inr True \<longleftrightarrow>
     (\<exists>sel mode ns. webhook_mode k w sel mode \<and> get_namespace k n = Inr ns \<and>
        isNamespaceManagedFromObject k ns sel mode = Inr True)"
  by (auto simp: IsNamespaceManaged_def webhook_mode_def getOptModeFromWebhook_def
        split: sum.splits option.splits)

lemma collectManaged_pages:
  "for_each (collectManaged k sel mode) pages acc = Ret (None, acc \<union>
     {ns_Name ns | ns. ns \<in> set (concat pages) \<and> isNamespaceManagedFromObject k ns sel mode = Inr True})"
proof -
  have page: "collectManaged k sel mode items acc = Ret (None, acc \<union>
      {ns_Name ns | ns. ns \<in> set items \<and> isNamespaceManagedFromObject k ns sel mode = Inr True})" for items acc
    unfolding collectManaged_def
    by (induction items arbitrary: acc) (auto split: sum.split if_split)
  show ?thesis by (induction pages arbitrary: acc) (auto simp: page)
qed

lemma getManagedNamespaces_returns:
  assumes "webhook_mode k w sel mode" "serves (list_namespaces k 500) pages []"
  shows "getManagedNamespaces k w = Ret (Inr
     {ns_Name ns | ns. ns \<in> set (concat pages) \<and> isNamespaceManagedFromObject k ns sel mode = Inr True})"
  using assms(1)
  by (auto simp: getManagedNamespaces_def webhook_mode_def collectManaged_pages paginate_serves [OF assms(2)])

text \<open>
  What a label selector means, as the Kubernetes documentation says it: every label it names has its value, and every
  expression holds. A call of the selector that returns an answer returns this one; it may also fail.
\<close>

definition requirement_holds :: "label_requirement \<Rightarrow> string_map \<Rightarrow> bool" where
  "requirement_holds r labels \<longleftrightarrow>
     (if req_Operator r = ''In'' then (case map_of labels (req_Key r) of None \<Rightarrow> False | Some v \<Rightarrow> v \<in> set (req_Values r))
      else if req_Operator r = ''NotIn'' then (case map_of labels (req_Key r) of None \<Rightarrow> True | Some v \<Rightarrow> v \<notin> set (req_Values r))
      else if req_Operator r = ''Exists'' then map_of labels (req_Key r) \<noteq> None
      else req_Operator r = ''DoesNotExist'' \<and> map_of labels (req_Key r) = None)"

definition selector_holds :: "label_selector \<Rightarrow> string_map \<Rightarrow> bool" where
  "selector_holds sel labels \<longleftrightarrow> (\<forall>(key, v)\<in>set (MatchLabels sel). map_of labels key = Some v) \<and>
     (\<forall>r\<in>set (MatchExpressions sel). requirement_holds r labels)"

definition selectors_documented :: "kube \<Rightarrow> bool" where
  "selectors_documented k \<longleftrightarrow> (\<forall>sel labels b. selector_matches k sel labels = Inr b \<longrightarrow> b = selector_holds sel labels)"

text \<open>The two expressions by which a webhook opts in or out.\<close>

definition opt_in_expression :: "string \<Rightarrow> label_requirement" where
  "opt_in_expression w = \<lparr>req_Key = w, req_Operator = ''In'', req_Values = [''allocate'']\<rparr>"

definition opt_out_expression :: "string \<Rightarrow> label_requirement" where
  "opt_out_expression w = \<lparr>req_Key = w, req_Operator = ''NotIn'', req_Values = [''ignore'']\<rparr>"

lemma optMode_of_expressions_eq:
  assumes "\<not> (opt_in_expression w \<in> set es \<and> opt_out_expression w \<in> set es)"
  shows "optMode_of_expressions w es = (if opt_in_expression w \<in> set es then Some OptInMode
     else if opt_out_expression w \<in> set es then Some OptOutMode else None)"
  using assms by (induction es) (auto simp: opt_in_expression_def opt_out_expression_def)

text \<open>A selector that holds says what the label of the webhook is, or is not.\<close>

lemma selector_holds_label:
  "selector_holds sel labels \<Longrightarrow> opt_in_expression w \<in> set (MatchExpressions sel) \<Longrightarrow> map_of labels w = Some ''allocate''"
  "selector_holds sel labels \<Longrightarrow> map_of (MatchLabels sel) w = Some v \<Longrightarrow> map_of labels w = Some v"
  "selector_holds sel labels \<Longrightarrow> opt_out_expression w \<in> set (MatchExpressions sel) \<Longrightarrow> map_of labels w \<noteq> Some ''ignore''"
  by (fastforce simp: selector_holds_def requirement_holds_def opt_in_expression_def opt_out_expression_def
      dest: map_of_SomeD split: option.splits)+

lemma IsNamespaceManaged_by:
  assumes "get_webhook_config k mutatingWebhookConfigName = Inr hooks" "find (\<lambda>h. webhook_Name h = w) hooks = Some hook"
    and "NamespaceSelector hook = Some sel" "getOptModeFromWebhook w (Some sel) = Inr mode" "get_namespace k n = Inr ns"
    and "\<And>labels. ns_Labels ns = Some labels \<Longrightarrow> selector_matches k sel labels = Inr (selector_holds sel labels)"
  shows "IsNamespaceManaged k n w = Inr (case ns_Labels ns of None \<Rightarrow> mode = OptOutMode | Some labels \<Rightarrow> selector_holds sel labels)"
  using assms
  by (cases mode; cases "ns_Labels ns")
     (auto simp: IsNamespaceManaged_def lookupWebhookInMutatingWebhookConfig_def isNamespaceManagedFromObject_def
        isNamespaceManagedByDefault_def isNamespaceManagedByWebhookNamespaceSelector_def Let_def)

text \<open>C34: Whether a namespace is managed, as the documentation of the opt-modes has it. When the selector of the webhook
  opts out (it has the expression that the label of the webhook is not \<open>ignore\<close>), a namespace is managed exactly if it has no labels, or
  its label of the webhook is not \<open>ignore\<close> and the rest of the selector holds. When the selector opts in (by the expression or by the
  match label that the label of the webhook is \<open>allocate\<close>), a namespace is managed exactly if its label of the webhook is \<open>allocate\<close> and the rest of the selector
  holds; without labels it is not. A selector that does neither is an error. (The webhook and the namespace can be read, the selector does
  not have both expressions, and the label library evaluates it, as documented, on the labels of the namespace.)\<close>

theorem IsNamespaceManaged_iff:
  assumes "selectors_documented k"
    and "get_webhook_config k ''kubemacpool-mutator'' = Inr hooks" "find (\<lambda>h. webhook_Name h = w) hooks = Some hook"
    and "NamespaceSelector hook = Some sel" "get_namespace k n = Inr ns"
    and "\<And>labels. ns_Labels ns = Some labels \<Longrightarrow> \<exists>b. selector_matches k sel labels = Inr b"
    and "\<not> (opt_in_expression w \<in> set (MatchExpressions sel) \<and> opt_out_expression w \<in> set (MatchExpressions sel))"
  shows "if opt_out_expression w \<in> set (MatchExpressions sel)
     then IsNamespaceManaged k n w = Inr (case ns_Labels ns of None \<Rightarrow> True
            | Some labels \<Rightarrow> map_of labels w \<noteq> Some ''ignore'' \<and> selector_holds sel labels)
     else if opt_in_expression w \<in> set (MatchExpressions sel) \<or> map_of (MatchLabels sel) w = Some ''allocate''
     then IsNamespaceManaged k n w = Inr (case ns_Labels ns of None \<Rightarrow> False
            | Some labels \<Rightarrow> map_of labels w = Some ''allocate'' \<and> selector_holds sel labels)
     else IsNamespaceManaged k n w = Inl (ErrWrap ''failed to get opt-Mode'' (ErrNoOptMode w))"
proof -
  let ?out = "opt_out_expression w \<in> set (MatchExpressions sel)"
  let ?in = "opt_in_expression w \<in> set (MatchExpressions sel) \<or> map_of (MatchLabels sel) w = Some ''allocate''"
  have answers: "selector_matches k sel labels = Inr (selector_holds sel labels)" if "ns_Labels ns = Some labels" for labels
    using assms(1,6) that unfolding selectors_documented_def by blast
  have mode: "getOptModeFromWebhook w (Some sel) =
      (if ?out then Inr OptOutMode else if ?in then Inr OptInMode else Inl (ErrNoOptMode w))"
    using assms(7) by (auto simp: getOptModeFromWebhook_def optMode_of_expressions_eq)
  note by_mode = IsNamespaceManaged_by [OF assms(2) [folded mutatingWebhookConfigName_def] assms(3,4) _ assms(5) answers]
  consider (out) "?out" | (allocate) "\<not> ?out" "?in" | (neither) "\<not> ?out" "\<not> ?in" by blast
  then show ?thesis
  proof cases
    case out
    with by_mode [of OptOutMode] mode show ?thesis using selector_holds_label(3) by (auto split: option.split)
  next
    case allocate
    with by_mode [of OptInMode] mode show ?thesis using selector_holds_label(1,2) by (auto split: option.split)
  next
    case neither
    with assms(2-4) mode show ?thesis
      by (simp add: IsNamespaceManaged_def lookupWebhookInMutatingWebhookConfig_def mutatingWebhookConfigName_def)
  qed
qed

text \<open>The selectors of the shipped manifests, which leave out the namespaces of the control plane.\<close>

definition labelled_selector :: "label_requirement \<Rightarrow> label_selector" where
  "labelled_selector expression = \<lparr>MatchLabels = [],
     MatchExpressions = [\<lparr>req_Key = ''runlevel'', req_Operator = ''NotIn'', req_Values = [''0'', ''1'']\<rparr>, expression]\<rparr>"

definition labelled_kube :: "label_requirement \<Rightarrow> string_map option \<Rightarrow> kube" where
  "labelled_kube expression labels = \<lparr>get_webhook_config = (\<lambda>_. Inr
       [\<lparr>webhook_Name = podsWebhookName, NamespaceSelector = Some (labelled_selector expression)\<rparr>]),
     get_namespace = (\<lambda>n. Inr \<lparr>ns_Name = n, ns_Labels = labels\<rparr>),
     list_namespaces = (\<lambda>_ _. Inr ([], [])),
     get_vm = (\<lambda>_ _. Inl NotFound), list_vms = (\<lambda>_ _. Inr ([], [])), list_pods = (\<lambda>_ _. Inr ([], [])),
     selector_matches = (\<lambda>sel labels. Inr (selector_holds sel labels))\<rparr>"

theorem IsNamespaceManaged_iff_witness:
  "IsNamespaceManaged (labelled_kube (opt_out_expression podsWebhookName) (Some [(podsWebhookName, ''ignore'')])) ''ns'' podsWebhookName = Inr False \<and>
   IsNamespaceManaged (labelled_kube (opt_out_expression podsWebhookName) (Some [(''team'', ''a'')])) ''ns'' podsWebhookName = Inr True \<and>
   IsNamespaceManaged (labelled_kube (opt_in_expression podsWebhookName) (Some [(podsWebhookName, ''allocate'')])) ''ns'' podsWebhookName = Inr True \<and>
   IsNamespaceManaged (labelled_kube (opt_in_expression podsWebhookName) None) ''ns'' podsWebhookName = Inr False"
proof -
  let ?w = podsWebhookName
  have [simp]: "opt_in_expression ?w \<noteq> opt_out_expression ?w" "opt_out_expression ?w \<noteq> opt_in_expression ?w"
    by (simp_all add: opt_in_expression_def opt_out_expression_def)
  have [simp]: "opt_in_expression ?w \<in> set (MatchExpressions (labelled_selector e)) \<longleftrightarrow> e = opt_in_expression ?w"
    "opt_out_expression ?w \<in> set (MatchExpressions (labelled_selector e)) \<longleftrightarrow> e = opt_out_expression ?w" for e
    by (auto simp: labelled_selector_def opt_in_expression_def opt_out_expression_def)
  have managed: "if e = opt_out_expression ?w
      then IsNamespaceManaged (labelled_kube e ls) ''ns'' ?w = Inr (case ls of None \<Rightarrow> True
             | Some labels \<Rightarrow> map_of labels ?w \<noteq> Some ''ignore'' \<and> selector_holds (labelled_selector e) labels)
      else IsNamespaceManaged (labelled_kube e ls) ''ns'' ?w = Inr (case ls of None \<Rightarrow> False
             | Some labels \<Rightarrow> map_of labels ?w = Some ''allocate'' \<and> selector_holds (labelled_selector e) labels)"
    if "e \<in> {opt_in_expression ?w, opt_out_expression ?w}" for e ls
    using IsNamespaceManaged_iff [of "labelled_kube e ls" "[\<lparr>webhook_Name = ?w, NamespaceSelector = Some (labelled_selector e)\<rparr>]" ?w
        "\<lparr>webhook_Name = ?w, NamespaceSelector = Some (labelled_selector e)\<rparr>" "labelled_selector e" "''ns''" "\<lparr>ns_Name = ''ns'', ns_Labels = ls\<rparr>"] that
    by (simp add: labelled_kube_def selectors_documented_def split: if_splits)
  have "selector_holds (labelled_selector (opt_out_expression ?w)) [(''team'', ''a'')]"
    "selector_holds (labelled_selector (opt_in_expression ?w)) [(?w, ''allocate'')]"
    by (simp_all add: selector_holds_def requirement_holds_def labelled_selector_def opt_out_expression_def opt_in_expression_def
        podsWebhookName_def)
  then show ?thesis
    using managed [of "opt_out_expression ?w"] managed [of "opt_in_expression ?w"] by simp
qed

text \<open>A cluster with both webhooks in opt-out mode, one namespace without labels.\<close>

definition opt_out_selector :: "string \<Rightarrow> label_selector" where
  "opt_out_selector w = \<lparr>MatchLabels = [],
     MatchExpressions = [\<lparr>req_Key = w, req_Operator = ''NotIn'', req_Values = [''ignore'']\<rparr>]\<rparr>"

definition managed_kube :: kube where
  "managed_kube = \<lparr>get_webhook_config = (\<lambda>_. Inr
       [\<lparr>webhook_Name = virtualMachnesWebhookName, NamespaceSelector = Some (opt_out_selector virtualMachnesWebhookName)\<rparr>,
        \<lparr>webhook_Name = podsWebhookName, NamespaceSelector = Some (opt_out_selector podsWebhookName)\<rparr>]),
     get_namespace = (\<lambda>n. Inr \<lparr>ns_Name = n, ns_Labels = None\<rparr>),
     list_namespaces = (\<lambda>_ _. Inr ([\<lparr>ns_Name = ''default'', ns_Labels = None\<rparr>], [])),
     get_vm = (\<lambda>_ _. Inl NotFound), list_vms = (\<lambda>_ _. Inr ([], [])), list_pods = (\<lambda>_ _. Inr ([], [])),
     selector_matches = (\<lambda>_ _. Inr True)\<rparr>"

lemma managed_kube_mode:
  "w \<in> {virtualMachnesWebhookName, podsWebhookName} \<Longrightarrow> webhook_mode managed_kube w (opt_out_selector w) OptOutMode"
  by (auto simp: webhook_mode_def lookupWebhookInMutatingWebhookConfig_def managed_kube_def
        getOptModeFromWebhook_def opt_out_selector_def virtualMachnesWebhookName_def podsWebhookName_def)

lemma managed_kube_managed [simp]:
  "IsVirtualMachineManaged managed_kube n = Inr True" "IsPodManaged managed_kube n = Inr True"
proof -
  have "IsNamespaceManaged managed_kube n w = Inr True" if "w \<in> {virtualMachnesWebhookName, podsWebhookName}" for w
    unfolding IsNamespaceManaged_True
    by (intro exI [of _ "opt_out_selector w"] exI [of _ OptOutMode] exI [of _ "\<lparr>ns_Name = n, ns_Labels = None\<rparr>"])
       (simp add: managed_kube_mode [OF that] isNamespaceManagedFromObject_True, simp add: managed_kube_def)
  then show "IsVirtualMachineManaged managed_kube n = Inr True" "IsPodManaged managed_kube n = Inr True"
    by (simp_all add: IsVirtualMachineManaged_def IsPodManaged_def)
qed

text \<open>C35: At start-up the managed namespaces are collected page by page; when the pages the API server
  serves end and show the namespaces as it returns them one by one, the collected set is exactly the set
  of namespaces that \<open>IsNamespaceManaged\<close> accepts.\<close>

theorem getManagedNamespaces_agrees:
  assumes "lookupWebhookInMutatingWebhookConfig k mutatingWebhookConfigName w = Inr webhook"
    and "getOptModeFromWebhook w (NamespaceSelector webhook) = Inr mode"
    and "serves (list_namespaces k 500) pages []"
    and "\<And>ns. ns \<in> set (concat pages) \<Longrightarrow> get_namespace k (ns_Name ns) = Inr ns"
  shows "getManagedNamespaces k w =
     Ret (Inr {n \<in> ns_Name ` set (concat pages). IsNamespaceManaged k n w = Inr True})"
proof -
  obtain sel where sel: "NamespaceSelector webhook = Some sel"
    using assms(2) by (auto simp: getOptModeFromWebhook_def split: option.splits)
  then have mode: "webhook_mode k w sel mode" and only: "webhook_mode k w sel' mode' \<Longrightarrow> sel' = sel \<and> mode' = mode" for sel' mode'
    using assms(1,2) by (auto simp: webhook_mode_def)
  have "IsNamespaceManaged k (ns_Name ns) w = Inr True \<longleftrightarrow> isNamespaceManagedFromObject k ns sel mode = Inr True"
    if "ns \<in> set (concat pages)" for ns
    unfolding IsNamespaceManaged_True assms(4) [OF that] using mode only by blast
  then have "{ns_Name ns | ns. ns \<in> set (concat pages) \<and> isNamespaceManagedFromObject k ns sel mode = Inr True} =
      {n \<in> ns_Name ` set (concat pages). IsNamespaceManaged k n w = Inr True}"
    by blast
  then show ?thesis using getManagedNamespaces_returns [OF mode assms(3)] by simp
qed

theorem getManagedNamespaces_agrees_witness:
  "getManagedNamespaces managed_kube podsWebhookName = Ret (Inr {''default''})"
proof -
  obtain w where w: "lookupWebhookInMutatingWebhookConfig managed_kube mutatingWebhookConfigName podsWebhookName = Inr w"
      "NamespaceSelector w = Some (opt_out_selector podsWebhookName)"
      "getOptModeFromWebhook podsWebhookName (Some (opt_out_selector podsWebhookName)) = Inr OptOutMode"
    using managed_kube_mode [of podsWebhookName] by (auto simp: webhook_mode_def)
  have "getManagedNamespaces managed_kube podsWebhookName =
      Ret (Inr {n \<in> ns_Name ` set (concat [[\<lparr>ns_Name = ''default'', ns_Labels = None\<rparr>]]).
        IsNamespaceManaged managed_kube n podsWebhookName = Inr True})"
    using w by (intro getManagedNamespaces_agrees [of _ _ w OptOutMode]) (simp_all add: managed_kube_def)
  then show ?thesis using managed_kube_managed(2) [of "''default''"] by (simp add: IsPodManaged_def cong: conj_cong)
qed

end
