(* ===== verification/Allocation.thy ===== *)
theory Allocation
  imports PoolManager
begin

section \<open>The allocation loop that virtual machines and pods share\<close>

text \<open>
  \<open>AllocateVirtualMachineMac\<close> and \<open>AllocatePodMac\<close> run the same loop over different items
  (interfaces, networks): an item with a requested address reserves it, one without draws a free
  address from the pool, and the first failure gives back what the loop reserved so far. The loop
  is stated once, for items of any type, and its operations are the interface \<open>allocator\<close>; the
  loops of the two components are shown to be instances of it.

  Shown in the interface: the loop always returns; a dry run leaves the pool map alone; the entries
  of other objects are never touched; a failure, for an object that held nothing, gives back the
  pool map exactly; a success holds exactly one address per item, the drawn ones from the range
  and not held by anybody before.
\<close>

definition pool_ok :: "pool_manager \<Rightarrow> bool" where
  "pool_ok p \<longleftrightarrow> range_ok p \<and> macMap_ok (macPoolMap p)"

definition hold :: "bool \<Rightarrow> string \<Rightarrow> string \<Rightarrow> string \<Rightarrow> pool_manager \<Rightarrow> pool_manager" where
  "hold isNotDryRun mac owner j p =
     (if isNotDryRun then p\<lparr>macPoolMap := createOrUpdateEntry (macPoolMap p) mac owner j\<rparr> else p)"

fun alloc_loop ::
    "('i \<Rightarrow> bool) \<Rightarrow> ('i \<Rightarrow> string) \<Rightarrow> ('i \<Rightarrow> string) \<Rightarrow> (string \<Rightarrow> 'i \<Rightarrow> 'i) \<Rightarrow>
     ('i \<Rightarrow> pool_manager \<Rightarrow> go_error option \<times> pool_manager) \<Rightarrow>
     ('i \<Rightarrow> pool_manager \<Rightarrow> ((go_error + string) \<times> pool_manager) run) \<Rightarrow>
     ((string, string) gomap \<Rightarrow> pool_manager \<Rightarrow> pool_manager) \<Rightarrow>
     'i list \<Rightarrow> 'i list \<Rightarrow> (string, string) gomap \<Rightarrow> pool_manager \<Rightarrow>
     ((go_error + 'i list \<times> (string, string) gomap) \<times> pool_manager) run" where
  "alloc_loop skip name mac set_mac request draw revert visited [] allocs p =
     Ret (Inr (visited, allocs), p)"
| "alloc_loop skip name mac set_mac request draw revert visited (i # items) allocs p =
     (if skip i then alloc_loop skip name mac set_mac request draw revert (visited @ [i]) items allocs p
      else if mac i \<noteq> []
      then case request i p of
             (Some err, p1) \<Rightarrow> Ret (Inl err, revert allocs p1)
           | (None, p1) \<Rightarrow>
               alloc_loop skip name mac set_mac request draw revert (visited @ [i]) items
                 (AList.update (name i) (mac i) allocs) p1
      else bind_run (draw i p) (\<lambda>(r, p1). case r of
             Inl err \<Rightarrow> Ret (Inl err, revert allocs p1)
           | Inr macAddr \<Rightarrow>
               alloc_loop skip name mac set_mac request draw revert (visited @ [set_mac macAddr i]) items
                 (AList.update (name i) macAddr allocs) p1))"

text \<open>A loop that succeeds has not reverted anything.\<close>

lemma alloc_loop_unreverted:
  "alloc_loop skip name mac set_mac request draw revert visited items allocs p = Ret (Inr x, p') \<Longrightarrow>
     alloc_loop skip name mac set_mac request draw revert' visited items allocs p = Ret (Inr x, p')"
proof (induction items arbitrary: visited allocs p)
  case (Cons i items)
  show ?case
  proof (cases "mac i = []")
    case True
    with Cons show ?thesis by (cases "draw i p") (auto split: sum.splits if_splits)
  next
    case False
    with Cons show ?thesis by (auto split: prod.splits option.splits if_splits)
  qed
qed simp

subsection \<open>Facts about the pool state\<close>

lemma update_fresh: "k \<notin> fst ` set xs \<Longrightarrow> AList.update k v xs = xs @ [(k, v)]"
  by (induction xs) auto

lemma pool_ok_currentMac: "pool_ok p \<Longrightarrow> range_ok (p\<lparr>currentMac := c\<rparr>) \<Longrightarrow> pool_ok (p\<lparr>currentMac := c\<rparr>)"
  by (simp add: pool_ok_def)

lemma range_ok_macPoolMap [simp]: "range_ok (p\<lparr>macPoolMap := m\<rparr>) = range_ok p"
  by (simp add: range_ok_def)

lemma in_range_macPoolMap [simp]: "in_range (p\<lparr>macPoolMap := m\<rparr>) x = in_range p x"
  by (simp add: in_range_def)

lemma in_range_currentMac [simp]: "in_range (p\<lparr>currentMac := c\<rparr>) x = in_range p x"
  by (simp add: in_range_def)

lemma in_range_ParseMAC: "in_range p x \<Longrightarrow> ParseMAC (hw_String x) = Inr x"
  by (simp add: in_range_def ParseMAC_hw_String hw_length_ok_6)

lemma pool_ok_hold: "pool_ok p \<Longrightarrow> ParseMAC mac = Inr a \<Longrightarrow> pool_ok (hold nd mac owner j p)"
  by (auto simp: pool_ok_def hold_def intro: pool_intros)

lemma in_range_hold [simp]: "in_range (hold nd mac owner j p) x = in_range p x"
  by (simp add: hold_def)

lemma macPoolMap_hold:
  "macPoolMap (hold nd mac owner j p) =
     (if nd then createOrUpdateEntry (macPoolMap p) mac owner j else macPoolMap p)"
  by (simp add: hold_def)

lemma pool_ok_macPoolMap:
  "pool_ok p \<Longrightarrow> macMap_ok m \<Longrightarrow> pool_ok (p\<lparr>macPoolMap := m\<rparr>)"
  by (simp add: pool_ok_def)

text \<open>The operations change the pool map and the current address, nothing else.\<close>

definition same_config :: "pool_manager \<Rightarrow> pool_manager \<Rightarrow> bool" where
  "same_config p p' \<longleftrightarrow> p' = p\<lparr>macPoolMap := macPoolMap p', currentMac := currentMac p'\<rparr>"

lemma same_config_refl [simp]: "same_config p p"
  by (simp add: same_config_def)

lemma same_config_trans: "same_config p q \<Longrightarrow> same_config q r \<Longrightarrow> same_config p r"
  unfolding same_config_def
  by (cases p; cases q; cases r) simp

lemma same_config_upd [simp]:
  "same_config p (q\<lparr>macPoolMap := m\<rparr>) = same_config p q"
  "same_config p (q\<lparr>currentMac := c\<rparr>) = same_config p q"
  by (cases p; cases q; simp add: same_config_def)+

lemma same_config_hold [simp]: "same_config p (hold nd mac owner j q) = same_config p q"
  by (simp add: hold_def)

lemma same_config_in_range: "same_config p q \<Longrightarrow> in_range q x = in_range p x"
  unfolding same_config_def by (cases p; cases q) (simp add: in_range_def)

text \<open>What every operation for one object keeps: a well-formed pool, the configuration, the entries of
  the other objects, and in a dry run the whole map.\<close>

definition framed :: "string \<Rightarrow> bool \<Rightarrow> pool_manager \<Rightarrow> pool_manager \<Rightarrow> bool" where
  "framed owner isNotDryRun p p' \<longleftrightarrow> pool_ok p' \<and> same_config p p' \<and>
     others owner (macPoolMap p') = others owner (macPoolMap p) \<and>
     (\<not> isNotDryRun \<longrightarrow> macPoolMap p' = macPoolMap p)"

lemma framed_refl [simp]: "framed owner isNotDryRun p p \<longleftrightarrow> pool_ok p"
  by (auto simp: framed_def)

subsection \<open>The interface\<close>

text \<open>
  An allocation reserves for \<open>owner\<close> and undoes for \<open>reverter\<close>. For a pod without a name the two
  are different.
\<close>

locale allocation_steps =
  fixes nd :: bool and owner :: string and reverter :: string
    and skip :: "'i \<Rightarrow> bool" and name :: "'i \<Rightarrow> string" and mac :: "'i \<Rightarrow> string"
    and set_mac :: "string \<Rightarrow> 'i \<Rightarrow> 'i"
    and ord :: "(string \<times> string) list \<Rightarrow> (string \<times> string) list"
    and request :: "'i \<Rightarrow> pool_manager \<Rightarrow> go_error option \<times> pool_manager"
    and draw :: "'i \<Rightarrow> pool_manager \<Rightarrow> ((go_error + string) \<times> pool_manager) run"
    and revert :: "(string, string) gomap \<Rightarrow> pool_manager \<Rightarrow> pool_manager"
  assumes request_invalid: "ParseMAC (mac i) = Inl e \<Longrightarrow> request i p = (Some e, p)"
    and request_valid: "ParseMAC (mac i) = Inr a \<Longrightarrow>
      request i p = (None, hold nd (mac i) owner (name i) p)"
    and draw_full: "getFreeMac p = Ret (Inl e, p') \<Longrightarrow> draw i p = Ret (Inl e, p')"
    and draw_free: "getFreeMac p = Ret (Inr a, p') \<Longrightarrow>
      draw i p = Ret (Inr (hw_String a), hold nd (hw_String a) owner (name i) p')"
    and revert_eq: "revert allocs p =
      (if nd then p\<lparr>macPoolMap := pool_store.release_all reverter (map snd (ord allocs)) (macPoolMap p)\<rparr>
       else p)"
    and mac_set_mac [simp]: "mac (set_mac s i) = s"
    and name_set_mac [simp]: "name (set_mac s i) = name i"
    and skip_set_mac: "skip (set_mac s i) = skip i"
begin

abbreviation loop where
  "loop \<equiv> alloc_loop skip name mac set_mac request draw revert"

text \<open>A single item: what a request and a draw do.\<close>

lemma request_cases:
  assumes "pool_ok p"
  obtains e where "ParseMAC (mac i) = Inl e" "request i p = (Some e, p)"
  | p1 where "\<exists>a. ParseMAC (mac i) = Inr a" "request i p = (None, p1)" "pool_ok p1" "same_config p p1"
      "macPoolMap p1 = (if nd then createOrUpdateEntry (macPoolMap p) (mac i) owner (name i)
                        else macPoolMap p)"
proof (cases "ParseMAC (mac i)")
  case (Inl e)
  then show ?thesis using that(1) request_invalid by blast
next
  case (Inr a)
  with that(2) [OF _ request_valid] assms show ?thesis
    by (simp add: pool_ok_hold macPoolMap_hold)
qed

lemma draw_cases:
  assumes "pool_ok p"
  obtains p1 where "draw i p = Ret (Inl ErrFull, p1)" "pool_ok p1" "same_config p p1"
      "macPoolMap p1 = macPoolMap p"
      "\<And>x. in_range p x \<Longrightarrow> \<not> mac_free (macPoolMap p) x"
  | x p1 where "draw i p = Ret (Inr (hw_String x), p1)" "in_range p x" "mac_free (macPoolMap p) x"
      "pool_ok p1" "same_config p p1"
      "macPoolMap p1 = (if nd then createOrUpdateEntry (macPoolMap p) (hw_String x) owner (name i)
                        else macPoolMap p)"
proof -
  have r: "range_ok p" using assms by (simp add: pool_ok_def)
  show ?thesis
  proof (cases rule: getFreeMac_returns [OF r])
    case (1 x)
    let ?q = "p\<lparr>currentMac := next_in_range p x\<rparr>"
    have "pool_ok (hold nd (hw_String x) owner (name i) ?q)"
      using assms 1(4) in_range_ParseMAC [OF 1(2)]
      by (intro pool_ok_hold pool_ok_currentMac)
    with that(2) [OF draw_free [OF 1(1)] 1(2,3)] show ?thesis by (simp add: macPoolMap_hold)
  next
    case 2
    with that(1) [OF draw_full [OF 2(1)]] assms show ?thesis by (simp add: pool_ok_def)
  qed
qed

lemma revert_facts:
  assumes "pool_ok p"
  shows "pool_ok (revert allocs p)" "same_config p (revert allocs p)"
    "\<not> nd \<Longrightarrow> revert allocs p = p"
    "others reverter (macPoolMap (revert allocs p)) = others reverter (macPoolMap p)"
proof -
  have "macMap_ok (macPoolMap p)" using assms by (simp add: pool_ok_def)
  then have "macMap_ok (pool_store.release_all reverter macs (macPoolMap p))" for macs
    by (rule pool_store.inv_release_all)
  with assms show "pool_ok (revert allocs p)" by (auto simp: revert_eq pool_ok_macPoolMap)
  have "others reverter (pool_store.release_all reverter macs m) = others reverter m" for macs m
    by (induction macs arbitrary: m) (simp_all add: others_removeInstanceFromMac)
  then show "others reverter (macPoolMap (revert allocs p)) = others reverter (macPoolMap p)"
    by (simp add: revert_eq)
qed (simp_all add: revert_eq)

text \<open>
  The loop always returns, in a well-formed state that differs from the start only in the pool map
  and the current address, and in the pool map only in the entries of the two names.
\<close>

definition bystanders :: "macMap \<Rightarrow> macMap" where
  "bystanders m = others reverter (others owner m)"

lemma bystanders_createOrUpdateEntry: "bystanders (createOrUpdateEntry m s owner j) = bystanders m"
  by (simp add: bystanders_def others_createOrUpdateEntry)

lemma bystanders_revert: "pool_ok p \<Longrightarrow> bystanders (macPoolMap (revert allocs p)) = bystanders (macPoolMap p)"
  unfolding bystanders_def others_commute [of reverter] by (simp add: revert_facts)

lemma loop_ends:
  assumes "pool_ok p"
  shows "\<exists>r p'. loop visited items allocs p = Ret (r, p') \<and> pool_ok p' \<and> same_config p p' \<and>
     bystanders (macPoolMap p') = bystanders (macPoolMap p) \<and>
     (\<not> nd \<longrightarrow> macPoolMap p' = macPoolMap p)"
  using assms
proof (induction items arbitrary: visited allocs p)
  case (Cons i items)
  note step = Cons.IH
  show ?case
  proof (cases "skip i")
    case True
    with step [OF Cons.prems] show ?thesis by simp
  next
    case ns: False
    show ?thesis
    proof (cases "mac i = []")
      case False
      show ?thesis
      proof (cases rule: request_cases [OF Cons.prems, of i])
        case (1 e)
        with ns False revert_facts [OF Cons.prems] bystanders_revert [OF Cons.prems] show ?thesis by auto
      next
        case (2 p1)
        with ns False step [OF 2(3), of "visited @ [i]" "AList.update (name i) (mac i) allocs"]
        show ?thesis by (auto simp: bystanders_createOrUpdateEntry intro: same_config_trans split: if_splits)
      qed
    next
      case True
      show ?thesis
      proof (cases rule: draw_cases [OF Cons.prems, of i])
        case (1 p1)
        with ns True revert_facts [OF 1(2), of allocs] bystanders_revert [OF 1(2)] same_config_trans [OF 1(3)]
        show ?thesis by auto
      next
        case (2 x p1)
        with ns True step [OF 2(4), of "visited @ [set_mac (hw_String x) i]"
            "AList.update (name i) (hw_String x) allocs"]
        show ?thesis by (auto simp: bystanders_createOrUpdateEntry intro: same_config_trans split: if_splits)
      qed
    qed
  qed
qed simp

text \<open>What reserving and removing an entry keep of the pool map, the loop keeps.\<close>

lemma loop_valid:
  assumes "pool_ok p" "loop visited items allocs p = Ret (Inr x, p')" "i \<in> set items" "\<not> skip i" "mac i \<noteq> []"
  shows "\<exists>a. ParseMAC (mac i) = Inr a"
  using assms(1-3)
proof (induction items arbitrary: visited allocs p)
  case (Cons j items)
  have rest: "\<exists>a. ParseMAC (mac i) = Inr a" if "loop visited' items allocs' q = Ret (Inr x, p')" "pool_ok q" "i \<noteq> j" for visited' allocs' q
    using Cons.IH [OF that(2,1)] Cons.prems(3) that(3) by simp
  show ?case
  proof (cases "skip j")
    case True
    then show ?thesis using rest [of "visited @ [j]" allocs p] Cons.prems(1,2) assms(4) by auto
  next
    case ns: False
    show ?thesis
    proof (cases "mac j = []")
      case True
      from draw_cases [OF Cons.prems(1), of j] True ns Cons.prems(2) assms(5) show ?thesis
        by cases (auto intro: rest)
    next
      case False
      show ?thesis
      proof (cases rule: request_cases [OF Cons.prems(1), of j])
        case (1 e)
        with False ns Cons.prems(2) show ?thesis by simp
      next
        case (2 p1)
        with False ns Cons.prems(2) rest [OF _ 2(3)] show ?thesis by (cases "i = j") auto
      qed
    qed
  qed
qed simp

text \<open>A loop in which every item has a valid address reserves these.\<close>

lemma loop_requests:
  assumes "\<And>i. i \<in> set items \<Longrightarrow> \<not> skip i \<and> mac i \<noteq> [] \<and> (\<exists>a. ParseMAC (mac i) = Inr a)"
  shows "\<exists>al. loop visited items allocs p = Ret (Inr (visited @ items, al), fold (\<lambda>i. hold nd (mac i) owner (name i)) items p)"
  using assms
proof (induction items arbitrary: visited allocs p)
  case (Cons i items)
  then obtain a where "\<not> skip i" "mac i \<noteq> []" "ParseMAC (mac i) = Inr a" by (metis list.set_intros(1))
  with Cons.IH [of "visited @ [i]" "AList.update (name i) (mac i) allocs" "hold nd (mac i) owner (name i) p"] Cons.prems request_valid
  show ?case by simp
qed simp

lemma revert_keeps:
  assumes "I (macPoolMap p)" "\<And>m s. I m \<Longrightarrow> I (removeInstanceFromMac m s reverter)"
  shows "I (macPoolMap (revert allocs p))"
proof -
  have "I (pool_store.release_all reverter macs m)" if "I m" for macs m
    using that by (induction macs arbitrary: m) (simp_all add: assms(2))
  with assms(1) show ?thesis by (simp add: revert_eq)
qed

lemma loop_keeps:
  assumes "loop visited items allocs p = Ret (r, p')" "pool_ok p" "I (macPoolMap p)"
    and reserve: "\<And>m s j. I m \<Longrightarrow> I (createOrUpdateEntry m s owner j)"
    and remove: "\<And>m s. I m \<Longrightarrow> I (removeInstanceFromMac m s reverter)"
  shows "I (macPoolMap p')"
  using assms(1-3)
proof (induction items arbitrary: visited allocs p)
  case (Cons i items)
  note revert = revert_keeps [of I, OF _ remove]
  consider (skip) "skip i" | (request) "\<not> skip i" "mac i \<noteq> []" | (draw) "\<not> skip i" "mac i = []" by blast
  then show ?case
  proof cases
    case skip
    with Cons show ?thesis by auto
  next
    case request
    from Cons.prems(2) show ?thesis
    proof (cases rule: request_cases [of p i])
      case (1 e)
      with request Cons.prems revert show ?thesis by auto
    next
      case (2 p1)
      with request Cons.prems Cons.IH [of _ _ p1] reserve show ?thesis by (auto split: if_splits)
    qed
  next
    case draw
    from Cons.prems(2) show ?thesis
    proof (cases rule: draw_cases [of p i])
      case (1 p1)
      with draw Cons.prems revert [of p1] show ?thesis by auto
    next
      case (2 x p1)
      with draw Cons.prems Cons.IH [of _ _ p1] reserve show ?thesis by (auto split: if_splits)
    qed
  qed
qed simp

text \<open>A successful loop keeps the items, up to their addresses.\<close>

lemma loop_shape:
  assumes "loop visited items allocs p = Ret (Inr (items', allocs'), p')"
  shows "\<exists>rest. items' = visited @ rest \<and> list_all2 (\<lambda>i i'. i' = i \<or> (\<exists>s. i' = set_mac s i)) items rest"
  using assms
proof (induction items arbitrary: visited allocs p)
  case (Cons i items)
  then obtain i' allocs1 p1 where "loop (visited @ [i']) items allocs1 p1 = Ret (Inr (items', allocs'), p')"
      "i' = i \<or> (\<exists>s. i' = set_mac s i)"
    apply (auto simp: bind_run_eq_Ret split: if_splits option.splits prod.splits sum.split_asm)
    subgoal for r p1 by (cases r) auto
    done
  with Cons.IH [of "visited @ [i']" allocs1 p1] show ?case by auto
qed simp

end

text \<open>Where both names are the same, a failed allocation can be undone.\<close>

locale allocator = allocation_steps nd owner owner skip name mac set_mac ord request draw revert
  for nd :: bool and owner :: string and skip :: "'i \<Rightarrow> bool" and name mac :: "'i \<Rightarrow> string"
    and set_mac :: "string \<Rightarrow> 'i \<Rightarrow> 'i" and ord request draw revert
begin

lemma loop_returns:
  assumes "pool_ok p"
  shows "\<exists>r p'. loop visited items allocs p = Ret (r, p') \<and> pool_ok p' \<and> same_config p p' \<and>
     others owner (macPoolMap p') = others owner (macPoolMap p) \<and>
     (\<not> nd \<longrightarrow> macPoolMap p' = macPoolMap p)"
  using loop_ends [OF assms] by (simp add: bystanders_def)

text \<open>
  The reservations of a list of served items, how a served item relates to the one it was, the
  keys of the addresses drawn from the pool.
\<close>

definition pairs :: "'i list \<Rightarrow> (string \<times> string) list" where
  "pairs items = map (\<lambda>i. (name i, mac i)) (filter (\<lambda>i. \<not> skip i) items)"

definition served :: "pool_manager \<Rightarrow> 'i \<Rightarrow> 'i \<Rightarrow> bool" where
  "served p i i' \<longleftrightarrow>
     (if skip i then i' = i
      else if mac i \<noteq> [] then i' = i \<and> (\<exists>a. ParseMAC (mac i) = Inr a)
      else \<exists>x. i' = set_mac (hw_String x) i \<and> in_range p x \<and> mac_free (macPoolMap p) x)"

definition drawn :: "'i list \<Rightarrow> 'i list \<Rightarrow> macKey list" where
  "drawn items items' =
     map (\<lambda>(i, i'). NewMacKey (mac i')) (filter (\<lambda>(i, i'). \<not> skip i \<and> mac i = []) (zip items items'))"

definition ok_result :: "pool_manager \<Rightarrow> 'i list \<Rightarrow> 'i list \<Rightarrow> pool_manager \<Rightarrow> bool" where
  "ok_result p items items' p' \<longleftrightarrow> list_all2 (served p) items items' \<and>
     distinct (drawn items items') \<and>
     macPoolMap p' = pool_store.reserve_all owner (pairs items') (macPoolMap p)"

definition fail_result ::
    "pool_manager \<Rightarrow> 'i list \<Rightarrow> go_error \<Rightarrow> (string \<times> string) list \<Rightarrow> pool_manager \<Rightarrow> bool" where
  "fail_result p items err xs p1 \<longleftrightarrow> pool_ok p1 \<and>
     macPoolMap p1 = pool_store.reserve_all owner xs (macPoolMap p) \<and>
     list_all (\<lambda>(j, s). \<exists>a. ParseMAC s = Inr a) xs \<and> distinct (map fst xs) \<and>
     set (map fst xs) \<subseteq> set (map name (filter (\<lambda>i. \<not> skip i) items)) \<and>
     (err = ErrFull \<or> (\<exists>i\<in>set items. ParseMAC (mac i) = Inl err))"

lemma pairs_simps [simp]:
  "pairs [] = []" "pairs (i # items) = (if skip i then pairs items else (name i, mac i) # pairs items)"
  by (simp_all add: pairs_def)

lemma drawn_simps [simp]:
  "drawn [] [] = []"
  "drawn (i # items) (i' # items') =
     (if \<not> skip i \<and> mac i = [] then NewMacKey (mac i') # drawn items items' else drawn items items')"
  by (simp_all add: drawn_def)

lemma mac_free_mono: "mac_free (createOrUpdateEntry m s o' j) x \<Longrightarrow> mac_free m x"
  by (auto simp: mac_free_def createOrUpdateEntry_def Let_def split: option.splits if_splits)

lemma createOrUpdateEntry_taken: "createOrUpdateEntry m s o' j (NewMacKey s) \<noteq> None"
  by (auto simp: createOrUpdateEntry_def Let_def split: option.splits)

lemma served_mono:
  assumes "same_config p p1" "macPoolMap p1 = createOrUpdateEntry (macPoolMap p) s o' j"
    "served p1 i i'"
  shows "served p i i'"
  using assms same_config_in_range [OF assms(1)]
  by (auto simp: served_def dest: mac_free_mono split: if_splits)

text \<open>An address drawn later is free when it is drawn, so it is none of those held before.\<close>

lemma drawn_fresh:
  assumes "list_all2 (served p) items items'" "macPoolMap p k \<noteq> None"
  shows "k \<notin> set (drawn items items')"
  using assms
proof (induction rule: list_all2_induct)
  case (Cons i items i' items')
  then show ?case
    by (auto simp: served_def mac_free_def in_range_def hw_length_ok_6)
qed simp

lemma ok_result_Cons:
  assumes step: "same_config p p1"
      "macPoolMap p1 = createOrUpdateEntry (macPoolMap p) (mac i') owner (name i)"
    and i: "served p i i'" "\<not> skip i" "name i' = name i"
    and rest: "ok_result p1 items items' p'"
  shows "ok_result p (i # items) (i' # items') p'"
proof -
  have all: "list_all2 (served p1) items items'" using rest by (simp add: ok_result_def)
  then have "list_all2 (served p) items items'"
    by (rule list_all2_mono) (rule served_mono [OF step])
  moreover have "NewMacKey (mac i') \<notin> set (drawn items items')"
    using drawn_fresh [OF all, of "NewMacKey (mac i')"] step(2) createOrUpdateEntry_taken by simp
  moreover have "skip i' = skip i" using i(1,2) by (auto simp: served_def skip_set_mac split: if_splits)
  ultimately show ?thesis using rest i step(2) by (simp add: ok_result_def)
qed

lemma fail_result_Cons:
  assumes step: "macPoolMap p1 = createOrUpdateEntry (macPoolMap p) s owner (name i)"
      "\<exists>a. ParseMAC s = Inr a"
    and i: "\<not> skip i" "name i \<notin> set (map name (filter (\<lambda>i. \<not> skip i) items))"
    and rest: "fail_result p1 items err xs p2"
  shows "fail_result p (i # items) err ((name i, s) # xs) p2"
  using assms by (auto simp: fail_result_def)

definition traced :: "'i list \<Rightarrow> 'i list \<Rightarrow> (string, string) gomap \<Rightarrow> pool_manager \<Rightarrow> bool" where
  "traced visited items allocs p \<longleftrightarrow>
     (\<exists>items' p'. loop visited items allocs p = Ret (Inr (visited @ items', allocs @ pairs items'), p')
        \<and> ok_result p items items' p') \<or>
     (\<exists>err xs p1. loop visited items allocs p = Ret (Inl err, revert (allocs @ xs) p1)
        \<and> fail_result p items err xs p1)"

lemma traced_fail:
  "loop visited items allocs p = Ret (Inl err, revert (allocs @ xs) p1) \<Longrightarrow>
     fail_result p items err xs p1 \<Longrightarrow> traced visited items allocs p"
  by (auto simp: traced_def)

lemma traced_skip:
  assumes "skip i" "traced (visited @ [i]) items allocs p"
  shows "traced visited (i # items) allocs p"
proof -
  from assms(2) consider
    (ok) items' p' where "loop (visited @ [i]) items allocs p =
        Ret (Inr ((visited @ [i]) @ items', allocs @ pairs items'), p')" "ok_result p items items' p'"
  | (fail) err xs p1 where "loop (visited @ [i]) items allocs p = Ret (Inl err, revert (allocs @ xs) p1)"
      "fail_result p items err xs p1"
    unfolding traced_def by blast
  then show ?thesis
  proof cases
    case ok
    with assms(1) show ?thesis
      unfolding traced_def
      by (intro disjI1 exI [of _ "i # items'"] exI [of _ p']) (simp add: ok_result_def served_def)
  next
    case fail
    with assms(1) show ?thesis
      by (intro traced_fail [of _ _ _ _ err xs p1]) (auto simp: fail_result_def)
  qed
qed

lemma traced_step:
  assumes p1: "same_config p p1"
      "macPoolMap p1 = createOrUpdateEntry (macPoolMap p) s owner (name i)"
    and s: "\<exists>a. ParseMAC s = Inr a"
    and i: "\<not> skip i" "name i \<notin> set (map name (filter (\<lambda>i. \<not> skip i) items))"
    and i': "served p i i'" "mac i' = s" "name i' = name i"
    and eq: "loop visited (i # items) allocs p =
      loop (visited @ [i']) items (allocs @ [(name i, s)]) p1"
    and rest: "traced (visited @ [i']) items (allocs @ [(name i, s)]) p1"
  shows "traced visited (i # items) allocs p"
proof -
  have sk: "skip i' = skip i" using i'(1) i(1) by (auto simp: served_def skip_set_mac split: if_splits)
  from rest consider
    (ok) items' p' where "loop (visited @ [i']) items (allocs @ [(name i, s)]) p1 =
        Ret (Inr ((visited @ [i']) @ items', (allocs @ [(name i, s)]) @ pairs items'), p')"
      "ok_result p1 items items' p'"
  | (fail) err xs p2 where "loop (visited @ [i']) items (allocs @ [(name i, s)]) p1 =
        Ret (Inl err, revert ((allocs @ [(name i, s)]) @ xs) p2)" "fail_result p1 items err xs p2"
    unfolding traced_def by blast
  then show ?thesis
  proof cases
    case ok
    have "ok_result p (i # items) (i' # items') p'"
      using p1 i' i(1) ok(2) by (intro ok_result_Cons) auto
    moreover have "loop visited (i # items) allocs p =
        Ret (Inr (visited @ (i' # items'), allocs @ pairs (i' # items')), p')"
      unfolding eq ok(1) using sk i(1) i'(2,3) by simp
    ultimately show ?thesis unfolding traced_def by blast
  next
    case fail
    have "fail_result p (i # items) err ((name i, s) # xs) p2"
      using p1(2) s i fail(2) by (rule fail_result_Cons)
    with eq fail(1) show ?thesis by (intro traced_fail) simp_all
  qed
qed

lemma loop_trace:
  assumes nd and "pool_ok p" "distinct (map name (filter (\<lambda>i. \<not> skip i) items))"
    and "set (map name (filter (\<lambda>i. \<not> skip i) items)) \<inter> fst ` set allocs = {}"
  shows "traced visited items allocs p"
  using assms(2-)
proof (induction items arbitrary: visited allocs p)
  case Nil
  then show ?case by (simp add: traced_def ok_result_def)
next
  case (Cons i items)
  show ?case
  proof (cases "skip i")
    case True
    with Cons show ?thesis by (intro traced_skip) auto
  next
    case ns: False
    have names: "name i \<notin> set (map name (filter (\<lambda>i. \<not> skip i) items))" "name i \<notin> fst ` set allocs"
      using Cons.prems(2,3) ns by auto
    have IH: "traced (visited @ [i']) items (allocs @ [(name i, s)]) p1" if "pool_ok p1" for i' s p1
      using Cons.prems(2,3) ns names that by (intro Cons.IH) auto
    show ?thesis
    proof (cases "mac i = []")
      case False
      show ?thesis
      proof (cases rule: request_cases [OF Cons.prems(1), of i])
        case (1 e)
        with ns False Cons.prems(1) show ?thesis
          by (intro traced_fail [of _ _ _ _ e "[]" p]) (simp_all add: fail_result_def)
      next
        case (2 p1)
        with ns False \<open>nd\<close> names IH [OF 2(3)] show ?thesis
          by (intro traced_step [of p p1 "mac i" i _ i]) (auto simp: served_def update_fresh)
      qed
    next
      case True
      show ?thesis
      proof (cases rule: draw_cases [OF Cons.prems(1), of i])
        case (1 p1)
        with ns True show ?thesis
          by (intro traced_fail [of _ _ _ _ ErrFull "[]" p1]) (simp_all add: fail_result_def)
      next
        case (2 x p1)
        with ns True \<open>nd\<close> names IH [OF 2(4)] in_range_ParseMAC [OF 2(2)] show ?thesis
          by (intro traced_step [of p p1 "hw_String x" i _ "set_mac (hw_String x) i"])
             (auto simp: served_def update_fresh)
      qed
    qed
  qed
qed

text \<open>
  For an object that holds nothing, a failed loop leaves the pool map as it was, timestamps and
  the order of entries included.
\<close>

lemma revert_restores:
  assumes nd "pool_ok p" "range_order ord" "\<And>k j. (k, owner, j) \<notin> holders (macPoolMap p)"
    and "fail_result p items err xs p1"
  shows "macPoolMap (revert xs p1) = macPoolMap p"
proof -
  let ?m = "macPoolMap p" and ?m' = "macPoolMap (revert xs p1)"
  have m: "macMap_ok ?m" using assms(2) by (simp add: pool_ok_def)
  have p1: "pool_ok p1" "macPoolMap p1 = pool_store.reserve_all owner xs ?m"
    using assms(5) by (simp_all add: fail_result_def)
  have m': "?m' = pool_store.release_all owner (map snd (ord xs)) (pool_store.reserve_all owner xs ?m)"
    using assms(1) p1(2) by (simp add: revert_eq)
  have "holders ?m' = holders ?m"
    unfolding m' using m assms(4,5) range_order_map_snd [OF assms(3)]
    by (intro pool_store.reserve_release_all) (auto simp: fail_result_def)
  moreover have "others owner (pool_store.reserve_all owner ys m) = others owner m" for ys m
    by (induction ys arbitrary: m) (auto simp: others_createOrUpdateEntry)
  then have "others owner ?m' = others owner ?m"
    using revert_facts(4) [OF p1(1)] p1(2) by simp
  moreover have "macMap_ok ?m'" using revert_facts(1) [OF p1(1)] by (simp add: pool_ok_def)
  ultimately show ?thesis using others_determines [OF m _ _ _ assms(4)] by blast
qed

lemma loop_failure_restores:
  assumes "pool_ok p" "range_order ord" "\<And>k j. (k, owner, j) \<notin> holders (macPoolMap p)"
    and "nd \<Longrightarrow> distinct (map name (filter (\<lambda>i. \<not> skip i) items))"
    and "loop [] items [] p = Ret (Inl err, p')"
  shows "macPoolMap p' = macPoolMap p"
proof (cases nd)
  case True
  have "traced [] items [] p" using True assms(1,4) by (intro loop_trace) auto
  then obtain xs p1 where "p' = revert xs p1" "fail_result p items err xs p1"
    using assms(5) by (auto simp: traced_def)
  with revert_restores [OF True assms(1-3)] show ?thesis by simp
next
  case False
  with loop_returns [OF assms(1), of "[]" items "[]"] assms(5) show ?thesis by auto
qed

text \<open>A successful loop of a real run.\<close>

lemma loop_success:
  assumes nd "pool_ok p" "distinct (map name (filter (\<lambda>i. \<not> skip i) items))"
    and "loop [] items [] p = Ret (Inr (items', allocs), p')"
  shows "ok_result p items items' p'" "allocs = pairs items'"
proof -
  have "traced [] items [] p" using assms(1-3) by (intro loop_trace) auto
  then show "ok_result p items items' p'" "allocs = pairs items'"
    using assms(4) by (auto simp: traced_def)
qed

lemma loop_error:
  assumes nd "pool_ok p" "distinct (map name (filter (\<lambda>i. \<not> skip i) items))"
    and "loop [] items [] p = Ret (Inl err, p')"
  shows "err = ErrFull \<or> (\<exists>i\<in>set items. ParseMAC (mac i) = Inl err)"
proof -
  have "traced [] items [] p" using assms(1-3) by (intro loop_trace) auto
  then show ?thesis using assms(4) by (auto simp: traced_def fail_result_def)
qed

end

end
