(* ===== verification/VmPool.thy ===== *)
theory VmPool
  imports OptMode Allocation
begin

section \<open>Virtual machines in the pool: \<open>virtualmachine_pool.go\<close>\<close>

text \<open>
  What the webhook and the controllers do to the pool for a virtual machine: allocation on
  creation and release on deletion; \<open>VmUpdate\<close> has the re-allocation on update.

  A method of \<open>PoolManager\<close> takes and returns the record \<open>pool_manager\<close>; a method that changes
  its virtual machine returns it too. A virtual machine without a template is a nil dereference
  in the source, so \<open>Panics\<close>. The local maps of a method are association lists (see
  \<open>Prelude\<close>), and the order in which they are iterated is the argument \<open>ord\<close>.

  Shown, through the interface \<open>allocator\<close>: an allocation always returns and touches no other
  object's entries; a successful one gives every supported interface an address, the drawn ones free
  before, and reserves exactly these with the timestamp; a failed one changes neither the pool map
  nor the machine.
\<close>

subsection \<open>Names and parts of a virtual machine\<close>

definition VmNamespaced :: "virtual_machine \<Rightarrow> string" where
  "VmNamespaced machine = ''vm/'' @ vm_Namespace machine @ ''/'' @ vm_Name machine"

record request =
  request_Namespace :: string
  request_Name :: string

definition VmNamespacedFromRequest :: "request \<Rightarrow> string" where
  "VmNamespacedFromRequest r =
     (let vm = \<lparr>vm_Name = request_Name r, vm_Namespace = request_Namespace r, vm_Labels = None,
               vm_Annotations = None, vm_Finalizers = [], vm_DeletionTimestamp = False,
               vm_Template = None, vm_SpecOther = []\<rparr>
      in VmNamespaced vm)"

definition IsVirtualMachineDeletionInProgress :: "virtual_machine \<Rightarrow> bool" where
  "IsVirtualMachineDeletionInProgress vm = vm_DeletionTimestamp vm"

definition getVirtualMachineInterfaces :: "virtual_machine \<Rightarrow> vm_interface list run" where
  "getVirtualMachineInterfaces vm =
     (case vm_Template vm of None \<Rightarrow> Panics | Some t \<Rightarrow> Ret (Interfaces t))"

definition getVirtualMachineNetworks :: "virtual_machine \<Rightarrow> vm_network list run" where
  "getVirtualMachineNetworks vm =
     (case vm_Template vm of None \<Rightarrow> Panics | Some t \<Rightarrow> Ret (Networks t))"

text \<open>\<open>vm.Spec.Template.Spec.Domain.Devices.Interfaces = ifaces\<close>\<close>

definition set_interfaces :: "vm_interface list \<Rightarrow> virtual_machine \<Rightarrow> virtual_machine" where
  "set_interfaces ifaces vm =
     vm\<lparr>vm_Template := map_option (\<lambda>t. t\<lparr>Interfaces := ifaces\<rparr>) (vm_Template vm)\<rparr>"

text \<open>The map of networks by name; a later network of the same name replaces an earlier one.\<close>

definition networks_by_name :: "vm_network list \<Rightarrow> string \<Rightarrow> vm_network option" where
  "networks_by_name ns = map_of (rev (map (\<lambda>n. (network_Name n, n)) ns))"

definition IsInterfaceSupported :: "vm_interface \<Rightarrow> (string \<Rightarrow> vm_network option) \<Rightarrow> bool" where
  "IsInterfaceSupported iface networks \<longleftrightarrow>
     iface_Masquerade iface \<or>
     (case networks (iface_Name iface) of None \<Rightarrow> False | Some n \<Rightarrow> network_Multus n)"

subsection \<open>The checks on a virtual machine's own interfaces\<close>

fun duplicate_names :: "string set \<Rightarrow> vm_interface list \<Rightarrow> go_error option" where
  "duplicate_names tmpInterfaceMap [] = None"
| "duplicate_names tmpInterfaceMap (vmInterface # ifaces) =
     (if iface_Name vmInterface \<in> tmpInterfaceMap then Some ErrDuplicateInterface
      else duplicate_names (insert (iface_Name vmInterface) tmpInterfaceMap) ifaces)"

definition checkVmForInterfaceDuplication :: "virtual_machine \<Rightarrow> go_error option run" where
  "checkVmForInterfaceDuplication vm =
     bind_run (getVirtualMachineInterfaces vm) (\<lambda>vmInterfaces. Ret (duplicate_names {} vmInterfaces))"

fun duplicate_macs :: "(string \<times> string) list \<Rightarrow> vm_interface list \<Rightarrow> go_error option" where
  "duplicate_macs macToInterface [] = None"
| "duplicate_macs macToInterface (iface # ifaces) =
     (if iface_MacAddress iface = [] then duplicate_macs macToInterface ifaces
      else case ParseMAC (iface_MacAddress iface) of
             Inl _ \<Rightarrow> Some (ErrVmMacFormat (iface_Name iface) (iface_MacAddress iface))
           | Inr _ \<Rightarrow>
               (let normalizedMac = macKey_String (NewMacKey (iface_MacAddress iface))
                in case map_of macToInterface normalizedMac of
                     Some existingInterface \<Rightarrow>
                       Some (ErrVmDuplicateMac normalizedMac existingInterface (iface_Name iface))
                   | None \<Rightarrow>
                       duplicate_macs ((normalizedMac, iface_Name iface) # macToInterface) ifaces))"

definition checkIntraVMDuplicateMACs :: "virtual_machine \<Rightarrow> go_error option run" where
  "checkIntraVMDuplicateMACs vm =
     bind_run (getVirtualMachineInterfaces vm) (\<lambda>ifaces. Ret (duplicate_macs [] ifaces))"

text \<open>The two checks, as both entry points run them, and only outside a dry run.\<close>

definition check_vm :: "bool \<Rightarrow> virtual_machine \<Rightarrow> go_error option run" where
  "check_vm isNotDryRun vm =
     (if isNotDryRun
      then bind_run (checkIntraVMDuplicateMACs vm) (\<lambda>e. case e of
             Some err \<Rightarrow> Ret (Some err)
           | None \<Rightarrow> checkVmForInterfaceDuplication vm)
      else Ret None)"

subsection \<open>Allocation\<close>

definition allocateFromPoolForVirtualMachine ::
    "string \<Rightarrow> vm_interface \<Rightarrow> bool \<Rightarrow> pool_manager \<Rightarrow> ((go_error + string) \<times> pool_manager) run" where
  "allocateFromPoolForVirtualMachine vmFullName iface isNotDryRun p =
     bind_run (getFreeMac p) (\<lambda>(r, p). case r of
       Inl err \<Rightarrow> Ret (Inl err, p)
     | Inr macAddr \<Rightarrow>
         Ret (Inr (hw_String macAddr),
              if isNotDryRun
              then p\<lparr>macPoolMap := createOrUpdateEntry (macPoolMap p) (hw_String macAddr) vmFullName
                                     (iface_Name iface)\<rparr>
              else p))"

definition allocateRequestedVirtualMachineInterfaceMac ::
    "string \<Rightarrow> vm_interface \<Rightarrow> bool \<Rightarrow> pool_manager \<Rightarrow> go_error option \<times> pool_manager" where
  "allocateRequestedVirtualMachineInterfaceMac vmFullName iface isNotDryRun p =
     (let requestedMac = iface_MacAddress iface
      in case ParseMAC requestedMac of
           Inl err \<Rightarrow> (Some err, p)
         | Inr _ \<Rightarrow>
             (None,
              if isNotDryRun
              then p\<lparr>macPoolMap := createOrUpdateEntry (macPoolMap p) requestedMac vmFullName
                                     (iface_Name iface)\<rparr>
              else p))"

definition macAlreadyBelongsToVmAndInterface :: "string \<Rightarrow> string \<Rightarrow> macEntry list \<Rightarrow> bool" where
  "macAlreadyBelongsToVmAndInterface vmFullName interfaceName entries \<longleftrightarrow>
     list_ex (\<lambda>entry. instanceName entry = vmFullName \<and> macInstanceKey entry = interfaceName) entries"

definition checkRequestedVirtualMachineInterfaceMac ::
    "string \<Rightarrow> vm_interface \<Rightarrow> pool_manager \<Rightarrow> go_error option" where
  "checkRequestedVirtualMachineInterfaceMac vmFullName iface p =
     (let requestedMac = iface_MacAddress iface
      in case ParseMAC requestedMac of
           Inl err \<Rightarrow> Some err
         | Inr _ \<Rightarrow>
             (case macPoolMap p (NewMacKey requestedMac) of
                Some entries \<Rightarrow>
                  if \<not> macAlreadyBelongsToVmAndInterface vmFullName (iface_Name iface) entries
                  then Some ErrMacAllocated else None
              | None \<Rightarrow> None))"

definition revertAllocationOnVm ::
    "((string \<times> string) list \<Rightarrow> (string \<times> string) list) \<Rightarrow> string \<Rightarrow> (string, string) gomap \<Rightarrow> bool \<Rightarrow>
     pool_manager \<Rightarrow> pool_manager" where
  "revertAllocationOnVm ord vmName allocations isNotDryRun p =
     (if isNotDryRun = False then p
      else p\<lparr>macPoolMap := fold (\<lambda>macAddress m. removeInstanceFromMac m macAddress vmName)
                (map snd (ord allocations)) (macPoolMap p)\<rparr>)"

text \<open>
  The loop of \<open>AllocateVirtualMachineMac\<close> over the interfaces of the copied machine: \<open>done\<close>
  are the interfaces already visited, with their addresses filled in.
\<close>

fun allocateVmInterfaces ::
    "((string \<times> string) list \<Rightarrow> (string \<times> string) list) \<Rightarrow> bool \<Rightarrow> string \<Rightarrow>
     (string \<Rightarrow> vm_network option) \<Rightarrow> vm_interface list \<Rightarrow> vm_interface list \<Rightarrow> (string, string) gomap \<Rightarrow>
     pool_manager \<Rightarrow>
     ((go_error + vm_interface list \<times> (string, string) gomap) \<times> pool_manager) run" where
  "allocateVmInterfaces ord isNotDryRun vmFullName networks visited [] newAllocations p =
     Ret (Inr (visited, newAllocations), p)"
| "allocateVmInterfaces ord isNotDryRun vmFullName networks visited (iface # ifaces) newAllocations p =
     (if \<not> IsInterfaceSupported iface networks
      then allocateVmInterfaces ord isNotDryRun vmFullName networks (visited @ [iface]) ifaces newAllocations p
      else if iface_MacAddress iface \<noteq> []
      then case allocateRequestedVirtualMachineInterfaceMac vmFullName iface isNotDryRun p of
             (Some err, p1) \<Rightarrow>
               Ret (Inl err, revertAllocationOnVm ord vmFullName newAllocations isNotDryRun p1)
           | (None, p1) \<Rightarrow>
               allocateVmInterfaces ord isNotDryRun vmFullName networks (visited @ [iface]) ifaces
                 (AList.update (iface_Name iface) (iface_MacAddress iface) newAllocations) p1
      else bind_run (allocateFromPoolForVirtualMachine vmFullName iface isNotDryRun p) (\<lambda>(r, p1).
             case r of
               Inl err \<Rightarrow>
                 Ret (Inl err, revertAllocationOnVm ord vmFullName newAllocations isNotDryRun p1)
             | Inr macAddr \<Rightarrow>
                 allocateVmInterfaces ord isNotDryRun vmFullName networks
                   (visited @ [iface\<lparr>iface_MacAddress := macAddr\<rparr>]) ifaces
                   (AList.update (iface_Name iface) macAddr newAllocations) p1))"

definition set_transaction_timestamps ::
    "((string \<times> string) list \<Rightarrow> (string \<times> string) list) \<Rightarrow> string \<Rightarrow> time option \<Rightarrow> (string, string) gomap \<Rightarrow>
     pool_manager \<Rightarrow> pool_manager" where
  "set_transaction_timestamps ord vmFullName ts macByInterface p =
     p\<lparr>macPoolMap := snd (updateMacTransactionTimestampForUpdatedMacs (macPoolMap p) vmFullName ts
                           (map snd (ord macByInterface)))\<rparr>"

type_synonym vm_result = "(go_error option \<times> virtual_machine \<times> pool_manager) run"

definition AllocateVirtualMachineMac ::
    "((string \<times> string) list \<Rightarrow> (string \<times> string) list) \<Rightarrow> virtual_machine \<Rightarrow> time option \<Rightarrow> bool \<Rightarrow>
     pool_manager \<Rightarrow> vm_result" where
  "AllocateVirtualMachineMac ord vm ts isNotDryRun p =
     bind_run (getVirtualMachineInterfaces vm) (\<lambda>ifaces.
     if length ifaces = 0 then Ret (None, vm, p)
     else bind_run (check_vm isNotDryRun vm) (\<lambda>e. case e of
       Some err \<Rightarrow> Ret (Some err, vm, p)
     | None \<Rightarrow>
     (let vmFullName = VmNamespaced vm in
     bind_run (getVirtualMachineNetworks vm) (\<lambda>nets.
     if length nets = 0 then Ret (None, vm, p)
     else bind_run (allocateVmInterfaces ord isNotDryRun vmFullName (networks_by_name nets) [] ifaces [] p)
       (\<lambda>(r, p1). case r of
          Inl err \<Rightarrow> Ret (Some err, vm, p1)
        | Inr (copied, newAllocations) \<Rightarrow>
            Ret (None, set_interfaces copied vm,
                 if isNotDryRun
                 then set_transaction_timestamps ord vmFullName ts newAllocations p1
                 else p1))))))"

subsection \<open>Release\<close>

text \<open>\<open>delete(p.macPoolMap, macAddress)\<close> for every key of the filtered map: order plays no role.\<close>

definition ReleaseAllVirtualMachineMacs :: "string \<Rightarrow> pool_manager \<Rightarrow> go_error option \<times> pool_manager" where
  "ReleaseAllVirtualMachineMacs vmFullName p =
     (case filterInByInstanceName (macPoolMap p) vmFullName of
        Inl err \<Rightarrow> (Some (ErrWrap ''Failed to get VmMacMap for vm'' err), p)
      | Inr vmMacMap \<Rightarrow>
          (None, p\<lparr>macPoolMap := (\<lambda>k. if vmMacMap k \<noteq> None then None else macPoolMap p k)\<rparr>))"

lemma ReleaseAllVirtualMachineMacs_eq:
  "ReleaseAllVirtualMachineMacs vmFullName p =
     (None, p\<lparr>macPoolMap := released (macPoolMap p) vmFullName\<rparr>)"
proof -
  obtain m' where m': "filterInByInstanceName (macPoolMap p) vmFullName = Inr m'"
    using filterInByInstanceName_total by blast
  show ?thesis
    using filterInByInstanceName_released(1) [OF m'] by (simp add: ReleaseAllVirtualMachineMacs_def m')
qed

subsection \<open>The checks\<close>

lemma duplicate_names_None:
  "duplicate_names seen ifaces = None \<longleftrightarrow>
     distinct (map iface_Name ifaces) \<and> set (map iface_Name ifaces) \<inter> seen = {}"
  by (induction ifaces arbitrary: seen) auto

text \<open>The addresses an interface list asks for, as keys.\<close>

definition requested_keys :: "vm_interface list \<Rightarrow> macKey list" where
  "requested_keys ifaces =
     map (\<lambda>i. NewMacKey (iface_MacAddress i)) (filter (\<lambda>i. iface_MacAddress i \<noteq> []) ifaces)"

lemma duplicate_macs_None:
  "duplicate_macs seen ifaces = None \<longleftrightarrow>
     (\<forall>i\<in>set ifaces. iface_MacAddress i \<noteq> [] \<longrightarrow> (\<exists>a. ParseMAC (iface_MacAddress i) = Inr a)) \<and>
     distinct (requested_keys ifaces) \<and>
     (\<forall>k\<in>set (requested_keys ifaces). macKey_String k \<notin> fst ` set seen)"
proof (induction ifaces arbitrary: seen)
  case (Cons i ifaces)
  have "macKey_String k = macKey_String k' \<longleftrightarrow> k = k'" for k k'
    by (cases k; cases k') simp
  then show ?case
    using Cons
    by (auto simp: requested_keys_def Let_def map_of_eq_None_iff
          dest!: map_of_SomeD intro: rev_image_eqI split: sum.splits option.splits)
qed (simp add: requested_keys_def)

lemma check_vm_None:
  assumes "vm_Template vm = Some t"
  shows "check_vm isNotDryRun vm = Ret None \<longleftrightarrow>
     (isNotDryRun \<longrightarrow> distinct (map iface_Name (Interfaces t)) \<and> distinct (requested_keys (Interfaces t)) \<and>
       (\<forall>i\<in>set (Interfaces t). iface_MacAddress i \<noteq> [] \<longrightarrow>
          (\<exists>a. ParseMAC (iface_MacAddress i) = Inr a)))"
  using assms duplicate_names_None [of "{}" "Interfaces t"] duplicate_macs_None [of "[]" "Interfaces t"]
  by (auto simp: check_vm_def checkIntraVMDuplicateMACs_def checkVmForInterfaceDuplication_def
        getVirtualMachineInterfaces_def split: option.splits)

lemma check_vm_returns: "vm_Template vm = Some t \<Longrightarrow> \<exists>e. check_vm isNotDryRun vm = Ret e"
  by (auto simp: check_vm_def checkIntraVMDuplicateMACs_def checkVmForInterfaceDuplication_def
        getVirtualMachineInterfaces_def split: option.splits)

subsection \<open>The loop of a creation is the shared loop\<close>

interpretation vm_alloc: allocator isNotDryRun vmFullName
    "\<lambda>iface. \<not> IsInterfaceSupported iface networks" iface_Name iface_MacAddress
    "\<lambda>s iface. iface\<lparr>iface_MacAddress := s\<rparr>" ord
    "\<lambda>iface. allocateRequestedVirtualMachineInterfaceMac vmFullName iface isNotDryRun"
    "\<lambda>iface. allocateFromPoolForVirtualMachine vmFullName iface isNotDryRun"
    "\<lambda>allocs. revertAllocationOnVm ord vmFullName allocs isNotDryRun"
  for isNotDryRun vmFullName networks ord
  by unfold_locales
     (simp_all add: allocateRequestedVirtualMachineInterfaceMac_def
        allocateFromPoolForVirtualMachine_def revertAllocationOnVm_def hold_def
        pool_store.release_all_def IsInterfaceSupported_def)

lemma allocateVmInterfaces_eq:
  "allocateVmInterfaces ord isNotDryRun vmFullName networks visited ifaces allocs p =
     vm_alloc.loop networks vmFullName isNotDryRun ord visited ifaces allocs p"
  by (induction ifaces arbitrary: visited allocs p)
     (auto split: option.splits prod.splits sum.splits bind_run_splits)

subsection \<open>Creation\<close>

abbreviation creation_loop where
  "creation_loop ord isNotDryRun vm t p \<equiv>
     vm_alloc.loop (networks_by_name (Networks t)) (VmNamespaced vm) isNotDryRun ord [] (Interfaces t) [] p"

lemma AllocateVirtualMachineMac_cases [consumes 2, case_names skipped refused failed allocated]:
  assumes "vm_Template vm = Some t" "pool_ok p"
  obtains (skipped) "Interfaces t = [] \<or> Networks t = []"
      "AllocateVirtualMachineMac ord vm ts isNotDryRun p = Ret (None, vm, p)"
  | (refused) err where "check_vm isNotDryRun vm = Ret (Some err)"
      "AllocateVirtualMachineMac ord vm ts isNotDryRun p = Ret (Some err, vm, p)"
  | (failed) err p1 where "check_vm isNotDryRun vm = Ret None"
      "creation_loop ord isNotDryRun vm t p = Ret (Inl err, p1)"
      "AllocateVirtualMachineMac ord vm ts isNotDryRun p = Ret (Some err, vm, p1)"
  | (allocated) ifaces allocs p1 where "check_vm isNotDryRun vm = Ret None"
      "Interfaces t \<noteq> []" "Networks t \<noteq> []"
      "creation_loop ord isNotDryRun vm t p = Ret (Inr (ifaces, allocs), p1)"
      "AllocateVirtualMachineMac ord vm ts isNotDryRun p =
         Ret (None, set_interfaces ifaces vm,
              if isNotDryRun then set_transaction_timestamps ord (VmNamespaced vm) ts allocs p1 else p1)"
proof -
  obtain e where e: "check_vm isNotDryRun vm = Ret e" using check_vm_returns [OF assms(1)] by blast
  obtain r p1 where loop: "creation_loop ord isNotDryRun vm t p = Ret (r, p1)"
    using vm_alloc.loop_returns [OF assms(2)] by blast
  note defs = AllocateVirtualMachineMac_def getVirtualMachineInterfaces_def
    getVirtualMachineNetworks_def allocateVmInterfaces_eq assms(1) e loop
  show ?thesis
  proof (cases "Interfaces t = []")
    case True
    with skipped show ?thesis by (simp add: defs)
  next
    case i: False
    show ?thesis
    proof (cases e)
      case (Some err)
      with i refused e show ?thesis by (simp add: defs)
    next
      case None
      show ?thesis
      proof (cases "Networks t = []")
        case True
        with i None skipped show ?thesis by (simp add: defs)
      next
        case n: False
        show ?thesis
        proof (cases r)
          case (Inl err)
          with i n None failed [OF _ loop [unfolded Inl]] e show ?thesis by (simp add: defs)
        next
          case (Inr a)
          then obtain ifaces allocs where a: "r = Inr (ifaces, allocs)" by (cases a) auto
          with i n None allocated [OF _ i n loop [unfolded a]] e show ?thesis by (simp add: defs)
        qed
      qed
    qed
  qed
qed

lemma set_transaction_timestamps_facts [simp]:
  "same_config p (set_transaction_timestamps ord inst ts al q) = same_config p q"
  "others inst (macPoolMap (set_transaction_timestamps ord inst ts al q)) = others inst (macPoolMap q)"
  "holders (macPoolMap (set_transaction_timestamps ord inst ts al q)) = holders (macPoolMap q)"
  "pool_ok q \<Longrightarrow> pool_ok (set_transaction_timestamps ord inst ts al q)"
  by (auto simp: set_transaction_timestamps_def pool_simps pool_ok_def intro: pool_intros)

lemma supported_names_distinct:
  assumes "vm_Template vm = Some t" "check_vm True vm = Ret None"
  shows "distinct (map iface_Name (filter (\<lambda>i. \<not> \<not> IsInterfaceSupported i nets) (Interfaces t)))"
  using assms by (auto simp: check_vm_None intro: distinct_map_filter)

text \<open>
  What a creation leaves of an interface: an unsupported one is as it was, a requested address
  stays, an empty one becomes a free address of the range.
\<close>

definition iface_served ::
    "pool_manager \<Rightarrow> (string \<Rightarrow> vm_network option) \<Rightarrow> vm_interface \<Rightarrow> vm_interface \<Rightarrow> bool" where
  "iface_served p nets i i' \<longleftrightarrow>
     (if IsInterfaceSupported i nets \<and> iface_MacAddress i = []
      then \<exists>x. i' = i\<lparr>iface_MacAddress := hw_String x\<rparr> \<and> in_range p x \<and> mac_free (macPoolMap p) x
      else i' = i)"

text \<open>The addresses drawn for the interfaces \<open>is\<close>, which became \<open>is'\<close>.\<close>

definition drawn_keys ::
    "(string \<Rightarrow> vm_network option) \<Rightarrow> vm_interface list \<Rightarrow> vm_interface list \<Rightarrow> macKey list" where
  "drawn_keys nets ifaces ifaces' =
     map (\<lambda>(i, i'). NewMacKey (iface_MacAddress i'))
       (filter (\<lambda>(i, i'). IsInterfaceSupported i nets \<and> iface_MacAddress i = []) (zip ifaces ifaces'))"

lemma drawn_keys_eq: "drawn_keys nets ifaces ifaces' = vm_alloc.drawn nets ifaces ifaces'"
  by (simp add: drawn_keys_def vm_alloc.drawn_def)

lemma creation_success:
  assumes t: "vm_Template vm = Some t" "pool_ok p" "check_vm True vm = Ret None"
    and ok: "creation_loop ord True vm t p = Ret (Inr (ifaces, allocs), p1)"
  shows "list_all2 (iface_served p (networks_by_name (Networks t))) (Interfaces t) ifaces"
    and "distinct (drawn_keys (networks_by_name (Networks t)) (Interfaces t) ifaces)"
    and "allocs = map (\<lambda>i. (iface_Name i, iface_MacAddress i))
           (filter (\<lambda>i. IsInterfaceSupported i (networks_by_name (Networks t))) ifaces)"
    and "holders (macPoolMap p1) = holders (macPoolMap p) \<union>
           {(NewMacKey mac, VmNamespaced vm, j) | j mac. (j, mac) \<in> set allocs}"
proof -
  let ?nets = "networks_by_name (Networks t)"
  note s = vm_alloc.loop_success [OF _ t(2) supported_names_distinct [OF t(1,3)] ok]
  show al: "allocs = map (\<lambda>i. (iface_Name i, iface_MacAddress i))
      (filter (\<lambda>i. IsInterfaceSupported i ?nets) ifaces)"
    using s(2) by (simp add: vm_alloc.pairs_def)
  have "list_all2 (vm_alloc.served ?nets p) (Interfaces t) ifaces"
    using s(1) by (simp add: vm_alloc.ok_result_def)
  then show "list_all2 (iface_served p ?nets) (Interfaces t) ifaces"
    by (rule list_all2_mono) (auto simp: vm_alloc.served_def iface_served_def split: if_splits)
  show "distinct (drawn_keys ?nets (Interfaces t) ifaces)"
    using s(1) by (simp add: vm_alloc.ok_result_def drawn_keys_eq)
  show "holders (macPoolMap p1) = holders (macPoolMap p) \<union>
      {(NewMacKey mac, VmNamespaced vm, j) | j mac. (j, mac) \<in> set allocs}"
    using s by (simp add: vm_alloc.ok_result_def pool_store.rel_reserve_all)
qed

text \<open>An operation on a virtual machine changes nothing of it but addresses.\<close>

definition same_but_mac :: "vm_interface \<Rightarrow> vm_interface \<Rightarrow> bool" where
  "same_but_mac i i' \<longleftrightarrow> i' = i\<lparr>iface_MacAddress := iface_MacAddress i'\<rparr>"

lemma same_but_mac_upd [simp]: "same_but_mac i (i\<lparr>iface_MacAddress := s\<rparr>)" "same_but_mac i i"
  by (simp_all add: same_but_mac_def)

definition only_macs :: "virtual_machine \<Rightarrow> virtual_machine \<Rightarrow> bool" where
  "only_macs vm vm' \<longleftrightarrow> (\<exists>t ifaces. vm_Template vm = Some t \<and> vm' = set_interfaces ifaces vm \<and>
     list_all2 same_but_mac (Interfaces t) ifaces)"

lemma only_macsI:
  "vm_Template vm = Some t \<Longrightarrow> list_all2 same_but_mac (Interfaces t) ifaces \<Longrightarrow> only_macs vm (set_interfaces ifaces vm)"
  by (auto simp: only_macs_def)

lemma only_macs_refl: "vm_Template vm = Some t \<Longrightarrow> only_macs vm vm"
  using only_macsI [of vm t "Interfaces t"] by (cases vm) (simp add: set_interfaces_def list_all2_same)

lemma AllocateVirtualMachineMac_only_macs:
  assumes "vm_Template vm = Some t" "pool_ok p"
    and "AllocateVirtualMachineMac ord vm ts isNotDryRun p = Ret (e, vm', p')"
  shows "only_macs vm vm'"
  using assms(1,2)
proof (cases rule: AllocateVirtualMachineMac_cases [where ord = ord and ts = ts and isNotDryRun = isNotDryRun])
  case (allocated ifaces allocs p1)
  have "list_all2 same_but_mac (Interfaces t) ifaces"
    using vm_alloc.loop_shape [OF allocated(4)] by (auto elim!: list_all2_mono)
  then show ?thesis using allocated(5) assms(1,3) by (auto intro: only_macsI)
qed (use assms in \<open>auto intro: only_macs_refl\<close>)

subsection \<open>Properties of a creation\<close>

definition sample_iface :: vm_interface where
  "sample_iface = \<lparr>iface_Name = ''br1'', iface_MacAddress = [], iface_Masquerade = False, iface_Other = []\<rparr>"

definition sample_template :: vm_template where
  "sample_template = \<lparr>Interfaces = [sample_iface],
     Networks = [\<lparr>network_Name = ''br1'', network_Multus = True, network_Other = []\<rparr>],
     template_Other = []\<rparr>"

definition sample_vm :: virtual_machine where
  "sample_vm = \<lparr>vm_Name = ''vm1'', vm_Namespace = ''default'', vm_Labels = None,
     vm_Annotations = Some [], vm_Finalizers = [], vm_DeletionTimestamp = False,
     vm_Template = Some sample_template, vm_SpecOther = []\<rparr>"

lemma sample_vm_Template [simp]: "vm_Template sample_vm = Some sample_template"
  by (simp add: sample_vm_def)

lemma sample_pool_pool_ok: "pool_ok sample_pool"
  using sample_pool_ok by (simp add: pool_ok_def sample_pool_def)

lemma sample_pool_holders [simp]: "holders (macPoolMap sample_pool) = {}"
  by (simp add: sample_pool_def)

text \<open>The sample pool with other contents and metrics, ready or not.\<close>

abbreviation sample_with :: "bool \<Rightarrow> macMap \<Rightarrow> metrics \<Rightarrow> pool_manager" where
  "sample_with ready m g \<equiv> sample_pool\<lparr>macPoolMap := m, pm_metrics := g, isPoolReady := ready\<rparr>"

lemma sample_with_own: "sample_pool = sample_with True Map.empty (pm_metrics sample_pool)"
  by (simp add: sample_pool_def)

lemma sample_getFreeMac:
  assumes "mac_free m [2, 0, 0, 0, 0, 7]"
  shows "getFreeMac (sample_with b m g) = Ret (Inr [2, 0, 0, 0, 0, 7], (sample_with b m g)\<lparr>currentMac := [2, 0, 0, 0, 0, 8]\<rparr>)"
proof -
  let ?a = "[2, 0, 0, 0, 0, 7] :: hwaddr" and ?b = "[2, 0, 0, 0, 0, 9] :: hwaddr"
  have nx: "mac_of_nat (mac_val ?a + 1) = [2, 0, 0, 0, 0, 8]"
    using mac_of_nat_mac_val [of "[2, 0, 0, 0, 0, 8]"] by simp
  have "mac_upto ?a ?b = ?a # mac_upto [2, 0, 0, 0, 0, 8] ?b"
    unfolding nx [symmetric] by (rule mac_upto_Cons) simp_all
  moreover have "range_ok (sample_with b m g)" using sample_pool_ok by (simp add: range_ok_def in_range_def)
  ultimately show ?thesis
    using getFreeMac_eq_first_free [of "sample_with b m g"] nx assms
    by (simp add: sample_pool_def first_free_def next_in_range_def)
qed

lemma sample_getFreeMac_own:
  "getFreeMac sample_pool = Ret (Inr [2, 0, 0, 0, 0, 7], sample_pool\<lparr>currentMac := [2, 0, 0, 0, 0, 8]\<rparr>)"
  using sample_getFreeMac [where m = Map.empty and g = "pm_metrics sample_pool" and b = True]
  unfolding sample_with_own [symmetric] by (simp add: mac_free_def)

lemma sample_creation:
  assumes "mac_free m [2, 0, 0, 0, 0, 7]"
  shows "\<exists>p'. AllocateVirtualMachineMac (\<lambda>xs. xs) (sample_vm\<lparr>vm_Annotations := a\<rparr>) (Some 5) True (sample_with b m g) =
     Ret (None, set_interfaces [sample_iface\<lparr>iface_MacAddress := ''02:00:00:00:00:07''\<rparr>]
       (sample_vm\<lparr>vm_Annotations := a\<rparr>), p')"
proof -
  have "hw_String [2, 0, 0, 0, 0, 7] = ''02:00:00:00:00:07''"
    by (simp add: hex2_def hexDigit_def)
  then show ?thesis
    by (simp add: AllocateVirtualMachineMac_def getVirtualMachineInterfaces_def
          getVirtualMachineNetworks_def check_vm_def checkIntraVMDuplicateMACs_def
          checkVmForInterfaceDuplication_def sample_template_def sample_iface_def
          networks_by_name_def IsInterfaceSupported_def allocateFromPoolForVirtualMachine_def
          sample_getFreeMac [OF assms] Let_def)
qed

lemma AllocateVirtualMachineMac_framed:
  assumes "vm_Template vm = Some t" "pool_ok p"
  shows "\<exists>e vm' p'. AllocateVirtualMachineMac ord vm ts isNotDryRun p = Ret (e, vm', p') \<and>
     framed (VmNamespaced vm) isNotDryRun p p'"
proof -
  obtain r p1 where loop: "creation_loop ord isNotDryRun vm t p = Ret (r, p1)" "pool_ok p1"
      "same_config p p1" "\<not> isNotDryRun \<longrightarrow> macPoolMap p1 = macPoolMap p"
      "others (VmNamespaced vm) (macPoolMap p1) = others (VmNamespaced vm) (macPoolMap p)"
    using vm_alloc.loop_returns [OF assms(2)] by blast
  show ?thesis
    using assms
    by (cases rule: AllocateVirtualMachineMac_cases [where ord = ord and ts = ts and
          isNotDryRun = isNotDryRun]) (use loop assms(2) in \<open>auto simp: framed_def\<close>)
qed

text \<open>C5: A creation that fails is atomic. For a virtual machine that held no address, in whatever
  order the loop visits its map of new allocations, an error leaves the pool map exactly as it was
  (keys, entries, order of entries, timestamps) and the virtual machine unchanged. The error is a
  refused duplicate, an address that does not parse, or the full range.\<close>

theorem AllocateVirtualMachineMac_atomic:
  assumes "vm_Template vm = Some t" "pool_ok p" "range_order ord"
    and "\<And>k j. (k, VmNamespaced vm, j) \<notin> holders (macPoolMap p)"
  shows "case AllocateVirtualMachineMac ord vm ts isNotDryRun p of
     Ret (Some err, vm', p') \<Rightarrow> vm' = vm \<and> macPoolMap p' = macPoolMap p
   | Ret (None, vm', p') \<Rightarrow> True | Panics \<Rightarrow> False | Hangs \<Rightarrow> False"
  using assms(1,2)
proof (cases rule: AllocateVirtualMachineMac_cases [where ord = ord and ts = ts and isNotDryRun = isNotDryRun])
  case (failed err p1)
  have "macPoolMap p1 = macPoolMap p"
    using assms(2-4) _ failed(2)
  proof (rule vm_alloc.loop_failure_restores)
    show "isNotDryRun \<Longrightarrow> distinct (map iface_Name
        (filter (\<lambda>i. \<not> \<not> IsInterfaceSupported i (networks_by_name (Networks t))) (Interfaces t)))"
      using supported_names_distinct [OF assms(1)] failed(1) by simp
  qed
  with failed show ?thesis by simp
qed simp_all

text \<open>A range of two addresses, one of them held: a request for two addresses draws the other one and then fails.\<close>

definition tight_pool :: pool_manager where
  "tight_pool = sample_pool\<lparr>rangeStart := [2, 0, 0, 0, 0, 8], currentMac := [2, 0, 0, 0, 0, 8],
     macPoolMap := createOrUpdateEntry Map.empty ''02:00:00:00:00:09'' ''vm/default/vm0'' ''br1''\<rparr>"

lemma tight_strings:
  "hw_String [2, 0, 0, 0, 0, 8] = ''02:00:00:00:00:08''" "hw_String [2, 0, 0, 0, 0, 9] = ''02:00:00:00:00:09''"
  "ParseMAC ''02:00:00:00:00:08'' = Inr [2, 0, 0, 0, 0, 8]" "ParseMAC ''02:00:00:00:00:09'' = Inr [2, 0, 0, 0, 0, 9]"
  "NewMacKey ''02:00:00:00:00:08'' = MacKey ''02:00:00:00:00:08''" "NewMacKey ''02:00:00:00:00:09'' = MacKey ''02:00:00:00:00:09''"
proof -
  show "hw_String [2, 0, 0, 0, 0, 8] = ''02:00:00:00:00:08''" "hw_String [2, 0, 0, 0, 0, 9] = ''02:00:00:00:00:09''"
    by (simp_all add: hex2_def hexDigit_def)
  then show p: "ParseMAC ''02:00:00:00:00:08'' = Inr [2, 0, 0, 0, 0, 8]" "ParseMAC ''02:00:00:00:00:09'' = Inr [2, 0, 0, 0, 0, 9]"
    using ParseMAC_hw_String [of "[2, 0, 0, 0, 0, 8]"] ParseMAC_hw_String [of "[2, 0, 0, 0, 0, 9]"]
    by (simp_all add: hw_length_ok_def hw_lengths_def)
  then show "NewMacKey ''02:00:00:00:00:08'' = MacKey ''02:00:00:00:00:08''" "NewMacKey ''02:00:00:00:00:09'' = MacKey ''02:00:00:00:00:09''"
    by (simp_all add: NewMacKey_def hex2_def hexDigit_def)
qed

lemma tight_pool_ok: "pool_ok tight_pool" "(k, owner, j) \<in> holders (macPoolMap tight_pool) \<Longrightarrow> owner = ''vm/default/vm0''"
proof -
  have "macMap_ok (createOrUpdateEntry Map.empty ''02:00:00:00:00:09'' ''vm/default/vm0'' ''br1'')"
    using tight_strings(4) by (auto intro: pool_intros)
  then show "pool_ok tight_pool"
    using sample_pool_ok by (simp add: pool_ok_def tight_pool_def range_ok_def sample_pool_def unicast_def)
  show "owner = ''vm/default/vm0''" if "(k, owner, j) \<in> holders (macPoolMap tight_pool)"
    using that by (simp add: tight_pool_def holders_createOrUpdateEntry)
qed

lemma tight_getFreeMac:
  "getFreeMac tight_pool = Ret (Inr [2, 0, 0, 0, 0, 8], tight_pool\<lparr>currentMac := [2, 0, 0, 0, 0, 9]\<rparr>)"
  "getFreeMac (tight_pool\<lparr>currentMac := [2, 0, 0, 0, 0, 9],
      macPoolMap := createOrUpdateEntry (macPoolMap tight_pool) ''02:00:00:00:00:08'' owner j\<rparr>) =
   Ret (Inl ErrFull, tight_pool\<lparr>macPoolMap := createOrUpdateEntry (macPoolMap tight_pool) ''02:00:00:00:00:08'' owner j\<rparr>)"
proof -
  let ?a = "[2, 0, 0, 0, 0, 8] :: hwaddr" and ?b = "[2, 0, 0, 0, 0, 9] :: hwaddr"
  have nx: "mac_of_nat (mac_val ?a + 1) = ?b" using mac_of_nat_mac_val [of ?b] by simp
  have upto: "mac_upto ?a ?b = [?a, ?b]" "mac_upto ?b ?b = [?b]"
    using mac_upto_Cons [of ?a ?b] mac_upto_single [of ?b] nx by simp_all
  have "range_ok tight_pool" using tight_pool_ok(1) by (simp add: pool_ok_def)
  then have ok: "range_ok tight_pool" "range_ok (tight_pool\<lparr>currentMac := ?b, macPoolMap := m\<rparr>)" for m
    by (simp_all add: range_ok_def tight_pool_def sample_pool_def)
  have ends: "rangeStart tight_pool = ?a" "rangeEnd tight_pool = ?b" "currentMac tight_pool = ?a"
    by (simp_all add: tight_pool_def sample_pool_def)
  have key_of: "createOrUpdateEntry m mac x i k = None \<longleftrightarrow> k \<noteq> NewMacKey mac \<and> m k = None" for m mac x i k
    by (simp add: createOrUpdateEntry_def Let_def split: option.split)
  have free: "mac_free (macPoolMap tight_pool) ?a" "\<not> mac_free (macPoolMap tight_pool) ?b"
    "\<not> mac_free (createOrUpdateEntry (macPoolMap tight_pool) ''02:00:00:00:00:08'' owner j) ?a"
    "\<not> mac_free (createOrUpdateEntry (macPoolMap tight_pool) ''02:00:00:00:00:08'' owner j) ?b"
    using key_of tight_strings(1,2) by (simp_all add: mac_free_def tight_pool_def tight_strings(5,6))
  show "getFreeMac tight_pool = Ret (Inr ?a, tight_pool\<lparr>currentMac := ?b\<rparr>)"
    using getFreeMac_eq_first_free [OF ok(1)] free(1) nx by (simp add: first_free_def next_in_range_def ends upto)
  show "getFreeMac (tight_pool\<lparr>currentMac := ?b, macPoolMap := createOrUpdateEntry (macPoolMap tight_pool) ''02:00:00:00:00:08'' owner j\<rparr>) =
      Ret (Inl ErrFull, tight_pool\<lparr>macPoolMap := createOrUpdateEntry (macPoolMap tight_pool) ''02:00:00:00:00:08'' owner j\<rparr>)"
    using getFreeMac_eq_first_free [OF ok(2)] free(3,4) by (simp add: first_free_def ends upto)
qed

definition greedy_vm :: virtual_machine where
  "greedy_vm = sample_vm\<lparr>vm_Template := Some \<lparr>Interfaces = [sample_iface, sample_iface\<lparr>iface_Name := ''br2''\<rparr>],
     Networks = [\<lparr>network_Name = ''br1'', network_Multus = True, network_Other = []\<rparr>,
       \<lparr>network_Name = ''br2'', network_Multus = True, network_Other = []\<rparr>], template_Other = []\<rparr>\<rparr>"

theorem AllocateVirtualMachineMac_atomic_witness:
  "\<exists>p'. AllocateVirtualMachineMac rev greedy_vm (Some 5) True tight_pool = Ret (Some ErrFull, greedy_vm, p') \<and>
     macPoolMap p' = macPoolMap tight_pool"
proof -
  obtain t where t: "vm_Template greedy_vm = Some t" by (simp add: greedy_vm_def)
  have held: "(k, VmNamespaced greedy_vm, j) \<notin> holders (macPoolMap tight_pool)" for k j
    using tight_pool_ok(2) by (auto simp: VmNamespaced_def greedy_vm_def sample_vm_def)
  obtain p' where "AllocateVirtualMachineMac rev greedy_vm (Some 5) True tight_pool = Ret (Some ErrFull, greedy_vm, p')"
    by (simp add: AllocateVirtualMachineMac_def getVirtualMachineInterfaces_def getVirtualMachineNetworks_def check_vm_def
        checkIntraVMDuplicateMACs_def checkVmForInterfaceDuplication_def greedy_vm_def sample_iface_def networks_by_name_def
        IsInterfaceSupported_def allocateFromPoolForVirtualMachine_def tight_getFreeMac hex2_def hexDigit_def Let_def)
  with AllocateVirtualMachineMac_atomic [OF t tight_pool_ok(1) range_order_rev held, of "Some 5" True] show ?thesis by simp
qed

text \<open>What a successful creation does to the pool and to the interfaces.\<close>

definition created :: "virtual_machine \<Rightarrow> vm_template \<Rightarrow> time option \<Rightarrow> pool_manager \<Rightarrow> vm_interface list \<Rightarrow> pool_manager \<Rightarrow> bool" where
  "created vm t ts p ifaces p' \<longleftrightarrow>
     list_all2 (iface_served p (networks_by_name (Networks t))) (Interfaces t) ifaces \<and>
     distinct (drawn_keys (networks_by_name (Networks t)) (Interfaces t) ifaces) \<and>
     holders (macPoolMap p') = holders (macPoolMap p) \<union>
       {(NewMacKey (iface_MacAddress i), VmNamespaced vm, iface_Name i) | i.
          i \<in> set ifaces \<and> IsInterfaceSupported i (networks_by_name (Networks t))} \<and>
     (\<forall>i\<in>set ifaces. IsInterfaceSupported i (networks_by_name (Networks t)) \<longrightarrow>
        stamped (macPoolMap p') (VmNamespaced vm) ts (iface_MacAddress i))"

lemma AllocateVirtualMachineMac_creates:
  assumes "vm_Template vm = Some t" "pool_ok p" "range_order ord"
    and "Interfaces t \<noteq> []" "Networks t \<noteq> []"
    and "AllocateVirtualMachineMac ord vm ts True p = Ret (None, vm', p')"
  shows "\<exists>ifaces. vm' = set_interfaces ifaces vm \<and> created vm t ts p ifaces p'"
  using assms(1,2)
proof (cases rule: AllocateVirtualMachineMac_cases [where ord = ord and ts = ts and isNotDryRun = True])
  case (allocated ifaces allocs p1)
  note s = creation_success [OF assms(1,2) allocated(1,4)]
  have p': "p' = set_transaction_timestamps ord (VmNamespaced vm) ts allocs p1"
      "vm' = set_interfaces ifaces vm"
    using allocated(5) assms(6) by simp_all
  have "\<forall>mac\<in>set (map snd (ord allocs)). stamped (macPoolMap p') (VmNamespaced vm) ts mac"
    unfolding p' set_transaction_timestamps_def
    using updateMacTransactionTimestampForUpdatedMacs_stamps
        [of "map snd (ord allocs)" "VmNamespaced vm" "macPoolMap p1" ts]
      s(4) range_order_set [OF assms(3), of allocs] by fastforce
  then have "\<forall>mac\<in>snd ` set allocs. stamped (macPoolMap p') (VmNamespaced vm) ts mac"
    using range_order_set [OF assms(3), of allocs] by simp
  with s p' show ?thesis unfolding created_def by (intro exI [of _ ifaces]) auto
qed (use assms in auto)

text \<open>C4: A successful creation, outside a dry run, serves every interface. A supported interface
  without an address gets one of the range that nobody held, two interfaces never the same one; every
  other interface is as requested. The pool then holds, next to what it held before, exactly the
  addresses of the supported interfaces for this virtual machine, and the entries found for them
  carry the timestamp of the transaction.\<close>

theorem AllocateVirtualMachineMac_serves:
  assumes "vm_Template vm = Some t" "pool_ok p" "range_order ord"
    and "Interfaces t \<noteq> []" "Networks t \<noteq> []"
    and "AllocateVirtualMachineMac ord vm ts True p = Ret (None, vm', p')"
  shows "\<exists>ifaces. vm' = set_interfaces ifaces vm \<and>
     list_all2 (iface_served p (networks_by_name (Networks t))) (Interfaces t) ifaces \<and>
     distinct (drawn_keys (networks_by_name (Networks t)) (Interfaces t) ifaces) \<and>
     holders (macPoolMap p') = holders (macPoolMap p) \<union>
       {(NewMacKey (iface_MacAddress i), VmNamespaced vm, iface_Name i) | i.
          i \<in> set ifaces \<and> IsInterfaceSupported i (networks_by_name (Networks t))} \<and>
     (\<forall>i\<in>set ifaces. IsInterfaceSupported i (networks_by_name (Networks t)) \<longrightarrow>
        stamped (macPoolMap p') (VmNamespaced vm) ts (iface_MacAddress i))"
  using AllocateVirtualMachineMac_creates [OF assms] unfolding created_def .

theorem AllocateVirtualMachineMac_serves_witness:
  "\<exists>ifaces p'. AllocateVirtualMachineMac (\<lambda>xs. xs) sample_vm (Some 5) True sample_pool =
     Ret (None, set_interfaces ifaces sample_vm, p') \<and>
   list_all2 (iface_served sample_pool (networks_by_name (Networks sample_template)))
     (Interfaces sample_template) ifaces"
proof -
  obtain vm' p' where r: "AllocateVirtualMachineMac (\<lambda>xs. xs) sample_vm (Some 5) True sample_pool =
      Ret (None, vm', p')"
    using sample_creation [where m = Map.empty and g = "pm_metrics sample_pool" and b = True and a = "vm_Annotations sample_vm"]
    unfolding sample_with_own [symmetric] by (auto simp: mac_free_def)
  have "Interfaces sample_template \<noteq> []" "Networks sample_template \<noteq> []"
    by (simp_all add: sample_template_def)
  from AllocateVirtualMachineMac_serves [OF sample_vm_Template sample_pool_pool_ok range_order_id this r] r
  show ?thesis by auto
qed

end
