(* ===== verification/PodPool.thy ===== *)
theory PodPool
  imports VmPool
begin

section \<open>Pods in the pool: \<open>pod_pool.go\<close>\<close>

text \<open>
  Allocation and release for the secondary networks of a pod, which are listed as JSON in one of
  its annotations. The JSON codec is outside the program: the record \<open>codec\<close> holds its two
  functions as the code calls them (a list of pointers to network selections, any of which may be
  nil in the decoded list), and is an argument of the operations that call it.

  Shown: an allocation returns unless the list has a null element, and touches no other object's
  entries; a successful one gives every network its address and the pool holds exactly these; a
  failed one leaves a named pod and the pool map as they were.
\<close>

record codec =
  unmarshal :: "string \<Rightarrow> go_error + network_selection option list"
  marshal :: "network_selection list \<Rightarrow> go_error + string"

definition NetworkAttachmentAnnot :: string where
  "NetworkAttachmentAnnot = ''k8s.v1.cni.cncf.io/networks''"

definition NetworkStatusAnnot :: string where
  "NetworkStatusAnnot = ''k8s.v1.cni.cncf.io/network-status''"

definition tempPodName :: string where
  "tempPodName = ''tempPodName''"

definition podNamespaced :: "pod \<Rightarrow> string" where
  "podNamespaced pd = ''pod/'' @ pod_Namespace pd @ ''/'' @ pod_Name pd"

subsection \<open>The network annotation\<close>

text \<open>Filling in the default namespace dereferences every element.\<close>

fun default_namespaces :: "string \<Rightarrow> network_selection option list \<Rightarrow> network_selection list run" where
  "default_namespaces defaultNamespace [] = Ret []"
| "default_namespaces defaultNamespace (None # networks) = Panics"
| "default_namespaces defaultNamespace (Some network # networks) =
     bind_run (default_namespaces defaultNamespace networks) (\<lambda>rest.
       Ret ((if sel_Namespace network = [] then network\<lparr>sel_Namespace := defaultNamespace\<rparr>
             else network) # rest))"

definition parsePodNetworkAnnotation ::
    "codec \<Rightarrow> string \<Rightarrow> string \<Rightarrow> (go_error + network_selection list) run" where
  "parsePodNetworkAnnotation js podNetworks defaultNamespace =
     (if podNetworks = [] then Ret (Inl (ErrNetworkAnnotation podNetworks))
      else if list_ex (\<lambda>c. c \<in> set (CHR 0x22 # ''[{'')) podNetworks
      then case unmarshal js podNetworks of
             Inl err \<Rightarrow> Ret (Inl (ErrWrap ''failed to parse pod Network Attachment'' err))
           | Inr networks \<Rightarrow>
               bind_run (default_namespaces defaultNamespace networks) (\<lambda>ns. Ret (Inr ns))
      else Ret (Inr []))"

subsection \<open>Allocation\<close>

text \<open>In the webhook the pod may not have a name yet.\<close>

definition allocatePodRequestedMac ::
    "network_selection \<Rightarrow> pod \<Rightarrow> bool \<Rightarrow> pool_manager \<Rightarrow> go_error option \<times> pool_manager" where
  "allocatePodRequestedMac network pd isNotDryRun p =
     (let requestedMac = sel_MacRequest network
      in case ParseMAC requestedMac of
           Inl err \<Rightarrow> (Some err, p)
         | Inr _ \<Rightarrow>
             (let podFullName = (if pod_Name pd = [] then tempPodName else podNamespaced pd)
              in (None,
                  if isNotDryRun
                  then p\<lparr>macPoolMap := createOrUpdateEntry (macPoolMap p) requestedMac podFullName
                                         (sel_Name network)\<rparr>
                  else p)))"

definition allocatePodFromPool ::
    "network_selection \<Rightarrow> pod \<Rightarrow> bool \<Rightarrow> pool_manager \<Rightarrow> ((go_error + string) \<times> pool_manager) run" where
  "allocatePodFromPool network pd isNotDryRun p =
     bind_run (getFreeMac p) (\<lambda>(r, p). case r of
       Inl err \<Rightarrow> Ret (Inl err, p)
     | Inr macAddr \<Rightarrow>
         (let podFullName = (if pod_Name pd = [] then tempPodName else podNamespaced pd)
          in Ret (Inr (hw_String macAddr),
                  if isNotDryRun
                  then p\<lparr>macPoolMap := createOrUpdateEntry (macPoolMap p) (hw_String macAddr)
                                         podFullName (sel_Name network)\<rparr>
                  else p)))"

definition revertAllocationOnPod ::
    "((string \<times> string) list \<Rightarrow> (string \<times> string) list) \<Rightarrow> string \<Rightarrow> (string, string) gomap \<Rightarrow> bool \<Rightarrow>
     pool_manager \<Rightarrow> pool_manager" where
  "revertAllocationOnPod ord podFullName allocations isNotDryRun p =
     (if isNotDryRun = False then p
      else p\<lparr>macPoolMap := fold (\<lambda>macAddress m. removeInstanceFromMac m macAddress podFullName)
                (map snd (ord allocations)) (macPoolMap p)\<rparr>)"

text \<open>The loop of \<open>AllocatePodMac\<close> over the networks.\<close>

fun allocatePodNetworks ::
    "((string \<times> string) list \<Rightarrow> (string \<times> string) list) \<Rightarrow> bool \<Rightarrow> pod \<Rightarrow>
     network_selection list \<Rightarrow> network_selection list \<Rightarrow> (string, string) gomap \<Rightarrow> pool_manager \<Rightarrow>
     ((go_error + network_selection list) \<times> pool_manager) run" where
  "allocatePodNetworks ord isNotDryRun pd networkList [] newAllocations p =
     Ret (Inr networkList, p)"
| "allocatePodNetworks ord isNotDryRun pd networkList (network # networks) newAllocations p =
     (if sel_MacRequest network \<noteq> []
      then case allocatePodRequestedMac network pd isNotDryRun p of
             (Some err, p1) \<Rightarrow>
               Ret (Inl err, revertAllocationOnPod ord (podNamespaced pd) newAllocations isNotDryRun p1)
           | (None, p1) \<Rightarrow>
               allocatePodNetworks ord isNotDryRun pd (networkList @ [network]) networks
                 (AList.update (sel_Name network) (sel_MacRequest network) newAllocations) p1
      else bind_run (allocatePodFromPool network pd isNotDryRun p) (\<lambda>(r, p1). case r of
             Inl err \<Rightarrow>
               Ret (Inl err, revertAllocationOnPod ord (podNamespaced pd) newAllocations isNotDryRun p1)
           | Inr macAddr \<Rightarrow>
               allocatePodNetworks ord isNotDryRun pd
                 (networkList @ [network\<lparr>sel_MacRequest := macAddr\<rparr>]) networks
                 (AList.update (sel_Name network) macAddr newAllocations) p1))"

text \<open>
  A pod that a \<open>VirtualMachineInstance\<close> owns is KubeVirt's, unless the virtual machine of that
  name is known not to exist. Only the first such owner is looked at.
\<close>

fun isRelatedToKubevirt_refs :: "kube \<Rightarrow> string \<Rightarrow> owner_reference list \<Rightarrow> bool" where
  "isRelatedToKubevirt_refs k ns [] = False"
| "isRelatedToKubevirt_refs k ns (ref # refs) =
     (if owner_Kind ref = ''VirtualMachineInstance''
      then get_vm k ns (owner_Name ref) \<noteq> Inl NotFound
      else isRelatedToKubevirt_refs k ns refs)"

definition isRelatedToKubevirt :: "kube \<Rightarrow> pod \<Rightarrow> bool" where
  "isRelatedToKubevirt k pd = isRelatedToKubevirt_refs k (pod_Namespace pd) (pod_OwnerReferences pd)"

type_synonym pod_result = "(go_error option \<times> pod \<times> pool_manager) run"

definition AllocatePodMac ::
    "kube \<Rightarrow> codec \<Rightarrow> ((string \<times> string) list \<Rightarrow> (string \<times> string) list) \<Rightarrow> pod \<Rightarrow> bool \<Rightarrow> pool_manager \<Rightarrow>
     pod_result" where
  "AllocatePodMac k js ord pd isNotDryRun p =
     (case lookup_nil (pod_Annotations pd) NetworkAttachmentAnnot of
        None \<Rightarrow> Ret (None, pd, p)
      | Some networkValue \<Rightarrow>
     if lookup_nil (pod_Annotations pd) NetworkStatusAnnot \<noteq> None then Ret (None, pd, p)
     else bind_run (parsePodNetworkAnnotation js networkValue (pod_Namespace pd)) (\<lambda>r. case r of
       Inl err \<Rightarrow> Ret (Some err, pd, p)
     | Inr networks \<Rightarrow>
     if length networks = 0 then Ret (None, pd, p)
     else if isRelatedToKubevirt k pd then Ret (None, pd, p)
     else bind_run (allocatePodNetworks ord isNotDryRun pd [] networks [] p) (\<lambda>(r, p1). case r of
       Inl err \<Rightarrow> Ret (Some err, pd, p1)
     | Inr networkList \<Rightarrow>
         (case marshal js networkList of
            Inl err \<Rightarrow> Ret (Some err, pd, p1)
          | Inr networkListJson \<Rightarrow>
              Ret (None,
                   pd\<lparr>pod_Annotations := map_option
                        (AList.update NetworkAttachmentAnnot networkListJson) (pod_Annotations pd)\<rparr>,
                   p1)))))"

subsection \<open>Release\<close>

definition ReleaseAllPodMacs :: "string \<Rightarrow> pool_manager \<Rightarrow> go_error option \<times> pool_manager" where
  "ReleaseAllPodMacs podFullName p =
     (case filterInByInstanceName (macPoolMap p) podFullName of
        Inl _ \<Rightarrow> (None, p)
      | Inr vmMacMap \<Rightarrow>
          if vmMacMap = Map.empty then (None, p)
          else (None, p\<lparr>macPoolMap := (\<lambda>k. if vmMacMap k \<noteq> None then None else macPoolMap p k)\<rparr>))"

subsection \<open>The loop over the networks is the shared loop\<close>

text \<open>The name an entry of a pod gets: a pod whose name is still to be generated has a common one.\<close>

definition pod_owner :: "pod \<Rightarrow> string" where
  "pod_owner pd = (if pod_Name pd = [] then tempPodName else podNamespaced pd)"

interpretation pod_steps: allocation_steps isNotDryRun "pod_owner pd" "podNamespaced pd"
    "\<lambda>_. False" sel_Name sel_MacRequest "\<lambda>s n. n\<lparr>sel_MacRequest := s\<rparr>" ord
    "\<lambda>n. allocatePodRequestedMac n pd isNotDryRun" "\<lambda>n. allocatePodFromPool n pd isNotDryRun"
    "\<lambda>allocs. revertAllocationOnPod ord (podNamespaced pd) allocs isNotDryRun"
  for isNotDryRun pd ord
  by unfold_locales
     (simp_all add: pod_owner_def allocatePodRequestedMac_def allocatePodFromPool_def revertAllocationOnPod_def
        hold_def pool_store.release_all_def Let_def)

lemma pod_allocator:
  assumes "pod_Name pd \<noteq> []"
  shows "allocator isNotDryRun (podNamespaced pd) (\<lambda>_. False) sel_Name sel_MacRequest
    (\<lambda>s n. n\<lparr>sel_MacRequest := s\<rparr>) ord (\<lambda>n. allocatePodRequestedMac n pd isNotDryRun)
    (\<lambda>n. allocatePodFromPool n pd isNotDryRun)
    (\<lambda>allocs. revertAllocationOnPod ord (podNamespaced pd) allocs isNotDryRun)"
  using pod_steps.allocation_steps_axioms [of isNotDryRun pd ord] assms
  by (simp add: allocator_def pod_owner_def)

text \<open>The loop as it would be if it reverted what it reserves, also for a pod without a name.\<close>

lemma pod_owner_allocator:
  "allocator isNotDryRun (pod_owner pd) (\<lambda>_. False) sel_Name sel_MacRequest
    (\<lambda>s n. n\<lparr>sel_MacRequest := s\<rparr>) ord (\<lambda>n. allocatePodRequestedMac n pd isNotDryRun)
    (\<lambda>n. allocatePodFromPool n pd isNotDryRun)
    (\<lambda>allocs. revertAllocationOnPod ord (pod_owner pd) allocs isNotDryRun)"
  by unfold_locales
     (simp_all add: pod_owner_def allocatePodRequestedMac_def allocatePodFromPool_def revertAllocationOnPod_def
        hold_def pool_store.release_all_def Let_def)

abbreviation pod_loop where
  "pod_loop ord isNotDryRun pd \<equiv> alloc_loop (\<lambda>_. False) sel_Name sel_MacRequest
    (\<lambda>s n. n\<lparr>sel_MacRequest := s\<rparr>) (\<lambda>n. allocatePodRequestedMac n pd isNotDryRun)
    (\<lambda>n. allocatePodFromPool n pd isNotDryRun)
    (\<lambda>allocs. revertAllocationOnPod ord (podNamespaced pd) allocs isNotDryRun)"

lemma allocatePodNetworks_eq:
  "allocatePodNetworks ord isNotDryRun pd visited networks allocs p =
     bind_run (pod_loop ord isNotDryRun pd visited networks allocs p) (\<lambda>(r, p'). Ret (map_sum id fst r, p'))"
proof (induction networks arbitrary: visited allocs p)
  case (Cons n networks)
  show ?case
  proof (cases "sel_MacRequest n = []")
    case True
    then show ?thesis
      by (cases "allocatePodFromPool n pd isNotDryRun p") (auto simp: Cons.IH split: sum.splits)
  next
    case False
    then show ?thesis by (auto simp: Cons.IH split: prod.splits option.splits)
  qed
qed simp

subsection \<open>The branches of an allocation\<close>

text \<open>The networks an allocation works on, when there are any.\<close>

definition pod_networks :: "kube \<Rightarrow> codec \<Rightarrow> pod \<Rightarrow> (go_error + network_selection list) run" where
  "pod_networks k js pd =
     (case lookup_nil (pod_Annotations pd) NetworkAttachmentAnnot of
        None \<Rightarrow> Ret (Inr [])
      | Some v \<Rightarrow>
          if lookup_nil (pod_Annotations pd) NetworkStatusAnnot \<noteq> None then Ret (Inr [])
          else bind_run (parsePodNetworkAnnotation js v (pod_Namespace pd)) (\<lambda>r. case r of
                 Inl err \<Rightarrow> Ret (Inl err)
               | Inr ns \<Rightarrow> Ret (Inr (if isRelatedToKubevirt k pd then [] else ns))))"

definition set_pod_networks :: "string \<Rightarrow> pod \<Rightarrow> pod" where
  "set_pod_networks v pd =
     pd\<lparr>pod_Annotations := map_option (AList.update NetworkAttachmentAnnot v) (pod_Annotations pd)\<rparr>"

lemma AllocatePodMac_eq:
  "AllocatePodMac k js ord pd isNotDryRun p =
     bind_run (pod_networks k js pd) (\<lambda>r. case r of
       Inl err \<Rightarrow> Ret (Some err, pd, p)
     | Inr networks \<Rightarrow>
         if networks = [] then Ret (None, pd, p)
         else bind_run (pod_loop ord isNotDryRun pd [] networks [] p) (\<lambda>(r, p1). case r of
                Inl err \<Rightarrow> Ret (Some err, pd, p1)
              | Inr (networkList, _) \<Rightarrow>
                  (case marshal js networkList of
                     Inl err \<Rightarrow> Ret (Some err, pd, p1)
                   | Inr v \<Rightarrow> Ret (None, set_pod_networks v pd, p1))))"
proof -
  have bind: "bind_run (bind_run r f) g = bind_run r (\<lambda>x. bind_run (f x) g)" for r :: "'a run" and f g
    by (cases r) auto
  show ?thesis
    unfolding AllocatePodMac_def pod_networks_def allocatePodNetworks_eq set_pod_networks_def
    by (auto simp: bind split: option.split sum.split bind_run_split prod.split)
qed

lemma AllocatePodMac_loop:
  assumes "AllocatePodMac k js ord pd isNotDryRun p = Ret (e, pd', p')"
  shows "p' = p \<or> (\<exists>ns r. pod_loop ord isNotDryRun pd [] ns [] p = Ret (r, p'))"
proof (cases "pod_networks k js pd")
  case (Ret r)
  show ?thesis
  proof (cases r)
    case (Inr ns)
    with assms Ret show ?thesis
      by (cases "ns = []"; cases "pod_loop ord isNotDryRun pd [] ns [] p")
         (auto simp: AllocatePodMac_eq split: sum.splits prod.splits)
  qed (use assms Ret in \<open>simp add: AllocatePodMac_eq\<close>)
qed (use assms in \<open>simp_all add: AllocatePodMac_eq\<close>)

lemma AllocatePodMac_result:
  assumes "AllocatePodMac k js ord pd isNotDryRun p = Ret (e, pd', p')"
  shows "pd' = pd \<or> (\<exists>v w. pd' = set_pod_networks w pd \<and> lookup_nil (pod_Annotations pd) NetworkAttachmentAnnot = Some v)"
proof -
  have ann: "\<exists>v. lookup_nil (pod_Annotations pd) NetworkAttachmentAnnot = Some v"
    if "pod_networks k js pd = Ret (Inr ns)" "ns \<noteq> []" for ns
    using that by (auto simp: pod_networks_def split: option.splits)
  from assms obtain r where r: "pod_networks k js pd = Ret r"
    by (cases "pod_networks k js pd") (auto simp: AllocatePodMac_eq)
  show ?thesis
  proof (cases r)
    case (Inr ns)
    show ?thesis
    proof (cases "ns = []")
      case False
      with assms r Inr obtain x where "pod_loop ord isNotDryRun pd [] ns [] p = Ret (x, p')"
        by (cases "pod_loop ord isNotDryRun pd [] ns [] p")
           (auto simp: AllocatePodMac_eq split: sum.splits prod.splits)
      with assms r Inr False ann show ?thesis
        by (auto simp: AllocatePodMac_eq split: sum.splits prod.splits)
    qed (use assms r Inr in \<open>simp add: AllocatePodMac_eq\<close>)
  qed (use assms r in \<open>simp add: AllocatePodMac_eq\<close>)
qed

lemma default_namespaces_returns:
  "default_namespaces d ns = (if None \<in> set ns then Panics
     else Ret (map (\<lambda>n. if sel_Namespace n = [] then n\<lparr>sel_Namespace := d\<rparr> else n) (map the ns)))"
  by (induction d ns rule: default_namespaces.induct) auto

text \<open>The annotation makes the code dereference a nil pointer: it decodes to a list with a null.\<close>

definition null_network :: "codec \<Rightarrow> pod \<Rightarrow> bool" where
  "null_network js pd \<longleftrightarrow>
     (\<exists>v ns. lookup_nil (pod_Annotations pd) NetworkAttachmentAnnot = Some v \<and>
        lookup_nil (pod_Annotations pd) NetworkStatusAnnot = None \<and>
        set v \<inter> set (CHR 0x22 # ''[{'') \<noteq> {} \<and> unmarshal js v = Inr ns \<and> None \<in> set ns)"

lemma parsePodNetworkAnnotation_cases:
  "parsePodNetworkAnnotation js v d =
     (if set v \<inter> set (CHR 0x22 # ''[{'') \<noteq> {} \<and> (\<exists>ns. unmarshal js v = Inr ns \<and> None \<in> set ns) then Panics
      else Ret (if v = [] then Inl (ErrNetworkAnnotation v)
                else if set v \<inter> set (CHR 0x22 # ''[{'') \<noteq> {}
                then map_sum (ErrWrap ''failed to parse pod Network Attachment'')
                       (map (\<lambda>n. if sel_Namespace n = [] then n\<lparr>sel_Namespace := d\<rparr> else n) \<circ> map the)
                       (unmarshal js v)
                else Inr []))"
proof -
  have ex: "list_ex (\<lambda>c. c \<in> S) v \<longleftrightarrow> set v \<inter> S \<noteq> {}" for S by (auto simp: list_ex_iff)
  show ?thesis
    unfolding parsePodNetworkAnnotation_def ex default_namespaces_returns
    by (cases "unmarshal js v") (auto split: if_splits)
qed

lemma pod_networks_returns:
  "null_network js pd \<and> pod_networks k js pd = Panics \<or>
   \<not> null_network js pd \<and> (\<exists>r. pod_networks k js pd = Ret r)"
  unfolding pod_networks_def null_network_def parsePodNetworkAnnotation_cases
  by (auto split: option.split sum.splits)

subsection \<open>Properties\<close>

definition sample_codec :: codec where
  "sample_codec = \<lparr>
     unmarshal = (\<lambda>s. if s = ''[{}]'' then Inr [Some \<lparr>sel_Name = ''net1'', sel_Namespace = [], sel_MacRequest = [], sel_Other = []\<rparr>]
                      else if s = ''[null]'' then Inr [None] else Inl (ErrSyntax s)),
     marshal = (\<lambda>ns. Inr (concat (map sel_MacRequest ns)))\<rparr>"

definition sample_pod :: pod where
  "sample_pod = \<lparr>pod_Name = ''pod1'', pod_Namespace = ''default'', pod_UID = ''u1'', pod_Labels = None,
     pod_Annotations = Some [(NetworkAttachmentAnnot, ''[{}]'')], pod_OwnerReferences = [],
     pod_Phase = ''Pending'', pod_Other = []\<rparr>"

definition sample_kube :: kube where
  "sample_kube = \<lparr>get_webhook_config = (\<lambda>_. Inl NotFound), get_namespace = (\<lambda>_. Inl NotFound),
     list_namespaces = (\<lambda>_ _. Inr ([], [])), get_vm = (\<lambda>_ _. Inl NotFound),
     list_vms = (\<lambda>_ _. Inr ([], [])), list_pods = (\<lambda>_ _. Inr ([], [])),
     selector_matches = (\<lambda>_ _. Inr True)\<rparr>"

lemma sample_pod_networks:
  "pod_networks k sample_codec sample_pod =
     Ret (Inr [\<lparr>sel_Name = ''net1'', sel_Namespace = ''default'', sel_MacRequest = [], sel_Other = []\<rparr>])"
  by (simp add: pod_networks_def sample_pod_def lookup_nil_def NetworkAttachmentAnnot_def
        NetworkStatusAnnot_def parsePodNetworkAnnotation_def sample_codec_def isRelatedToKubevirt_def)

lemma sample_pod_named: "pod_Name sample_pod \<noteq> []"
  by (simp add: sample_pod_def)

lemma sample_pod_no_null: "\<not> null_network sample_codec sample_pod"
  using pod_networks_returns [of sample_codec sample_pod sample_kube]
  by (simp add: sample_pod_networks)

text \<open>For any pod, named or not.\<close>

lemma AllocatePodMac_ends:
  assumes "pool_ok p" "\<not> null_network js pd"
  shows "\<exists>e pd' p'. AllocatePodMac k js ord pd isNotDryRun p = Ret (e, pd', p') \<and> pool_ok p' \<and> same_config p p' \<and>
     others (podNamespaced pd) (others (pod_owner pd) (macPoolMap p')) =
       others (podNamespaced pd) (others (pod_owner pd) (macPoolMap p)) \<and>
     (\<not> isNotDryRun \<longrightarrow> macPoolMap p' = macPoolMap p) \<and> (e \<noteq> None \<longrightarrow> pd' = pd)"
proof -
  obtain r where r: "pod_networks k js pd = Ret r" using assms(2) pod_networks_returns [of js pd k] by auto
  show ?thesis
  proof (cases r)
    case (Inl err)
    with r assms(1) show ?thesis by (simp add: AllocatePodMac_eq)
  next
    case (Inr ns)
    obtain x p1 where "pod_loop ord isNotDryRun pd [] ns [] p = Ret (x, p1)" "pool_ok p1"
        "same_config p p1" "\<not> isNotDryRun \<longrightarrow> macPoolMap p1 = macPoolMap p"
        "others (podNamespaced pd) (others (pod_owner pd) (macPoolMap p1)) =
           others (podNamespaced pd) (others (pod_owner pd) (macPoolMap p))"
      using pod_steps.loop_ends [OF assms(1)] unfolding pod_steps.bystanders_def by blast
    with r Inr assms(1) show ?thesis
      by (simp add: AllocatePodMac_eq split: sum.split prod.split)
  qed
qed

lemma AllocatePodMac_stamps:
  assumes "AllocatePodMac k js ord pd isNotDryRun p = Ret (e, pd', p')" "pool_ok p"
  shows "stamped_entries (macPoolMap p') \<subseteq> stamped_entries (macPoolMap p)"
proof -
  have loop: "stamped_entries (macPoolMap p1) \<subseteq> stamped_entries (macPoolMap p)"
    if "pod_loop ord isNotDryRun pd [] ns [] p = Ret (r, p1)" for ns r p1
    using that assms(2)
    by (rule pod_steps.loop_keeps) (use stamped_createOrUpdateEntry stamped_removeInstanceFromMac in blast)+
  then show ?thesis using AllocatePodMac_loop [OF assms(1)] by blast
qed

lemma AllocatePodMac_framed:
  assumes "pod_Name pd \<noteq> []" "pool_ok p"
  shows "if null_network js pd then AllocatePodMac k js ord pd isNotDryRun p = Panics
     else \<exists>e pd' p'. AllocatePodMac k js ord pd isNotDryRun p = Ret (e, pd', p') \<and>
       framed (podNamespaced pd) isNotDryRun p p' \<and> (e \<noteq> None \<longrightarrow> pd' = pd)"
proof (cases "null_network js pd")
  case True
  then show ?thesis using pod_networks_returns [of js pd k] by (simp add: AllocatePodMac_eq)
next
  case False
  with AllocatePodMac_ends [OF assms(2) False, of k ord isNotDryRun] assms(1) show ?thesis
    by (simp add: framed_def pod_owner_def)
qed

text \<open>\<open>AllocatePodMac\<close> for a pod that has its name panics exactly when the network annotation
  decodes to a list with a null element; otherwise it always returns to a well-formed pool, having
  changed only the pool map and the current address, in the pool map no entry of another object, and
  in a dry run nothing of the pool map.\<close>

theorem AllocatePodMac_frame:
  assumes "pod_Name pd \<noteq> []" "pool_ok p"
  shows "if null_network js pd then AllocatePodMac k js ord pd isNotDryRun p = Panics
     else \<exists>e pd' p'. AllocatePodMac k js ord pd isNotDryRun p = Ret (e, pd', p') \<and>
       pool_ok p' \<and> same_config p p' \<and>
       others (podNamespaced pd) (macPoolMap p') = others (podNamespaced pd) (macPoolMap p) \<and>
       (\<not> isNotDryRun \<longrightarrow> macPoolMap p' = macPoolMap p) \<and> (e \<noteq> None \<longrightarrow> pd' = pd)"
  using AllocatePodMac_framed [OF assms, of js k ord isNotDryRun] by (auto simp: framed_def split: if_splits)

text \<open>C27: A failed allocation for a named pod that held no address, and whose networks have distinct
  names, leaves the pool map exactly as it was and the pod unchanged, in whatever order the new
  allocations are undone. (The JSON encoder is assumed not to fail on a list of selections.)\<close>

theorem AllocatePodMac_atomic:
  assumes "pod_Name pd \<noteq> []" "pool_ok p" "range_order ord" "\<not> null_network js pd"
    and "\<And>k j. (k, podNamespaced pd, j) \<notin> holders (macPoolMap p)"
    and "\<And>ns. pod_networks k js pd = Ret (Inr ns) \<Longrightarrow> distinct (map sel_Name ns)"
    and "\<And>ns. \<exists>v. marshal js ns = Inr v"
  shows "case AllocatePodMac k js ord pd isNotDryRun p of
     Ret (Some err, pd', p') \<Rightarrow> pd' = pd \<and> macPoolMap p' = macPoolMap p
   | Ret (None, pd', p') \<Rightarrow> True | Panics \<Rightarrow> False | Hangs \<Rightarrow> False"
proof -
  note alloc = pod_allocator [OF assms(1), of isNotDryRun ord]
  obtain r where r: "pod_networks k js pd = Ret r" using assms(4) pod_networks_returns [of js pd k] by auto
  show ?thesis
  proof (cases r)
    case (Inr ns)
    obtain x p1 where x: "pod_loop ord isNotDryRun pd [] ns [] p = Ret (x, p1)"
      using allocator.loop_returns [OF alloc assms(2)] by blast
    have "macPoolMap p1 = macPoolMap p" if "x = Inl err" for err
      using assms(6) [of ns] r Inr x that
      by (intro allocator.loop_failure_restores [OF alloc assms(2,3,5)]) auto
    with r Inr x assms(7) show ?thesis
      by (auto simp: AllocatePodMac_eq split: sum.split) (metis Inr_Inl_False)
  qed (simp add: AllocatePodMac_eq r)
qed

text \<open>A pod that asks for two addresses where there is one.\<close>

definition greedy_codec :: codec where
  "greedy_codec = sample_codec\<lparr>unmarshal := \<lambda>s. Inr
     [Some \<lparr>sel_Name = ''net1'', sel_Namespace = [], sel_MacRequest = [], sel_Other = []\<rparr>,
      Some \<lparr>sel_Name = ''net2'', sel_Namespace = [], sel_MacRequest = [], sel_Other = []\<rparr>]\<rparr>"

lemma greedy_pod_networks:
  "pod_networks k greedy_codec sample_pod =
     Ret (Inr [\<lparr>sel_Name = ''net1'', sel_Namespace = ''default'', sel_MacRequest = [], sel_Other = []\<rparr>,
       \<lparr>sel_Name = ''net2'', sel_Namespace = ''default'', sel_MacRequest = [], sel_Other = []\<rparr>])"
  by (simp add: pod_networks_def sample_pod_def lookup_nil_def NetworkAttachmentAnnot_def
        NetworkStatusAnnot_def parsePodNetworkAnnotation_def greedy_codec_def isRelatedToKubevirt_def)

theorem AllocatePodMac_atomic_witness:
  "\<exists>p'. AllocatePodMac sample_kube greedy_codec rev sample_pod True tight_pool = Ret (Some ErrFull, sample_pod, p') \<and>
     macPoolMap p' = macPoolMap tight_pool"
proof -
  have no_null: "\<not> null_network greedy_codec sample_pod"
    using pod_networks_returns [of greedy_codec sample_pod sample_kube] by (simp add: greedy_pod_networks)
  have held: "(k, podNamespaced sample_pod, j) \<notin> holders (macPoolMap tight_pool)" for k j
    using tight_pool_ok(2) by (auto simp: podNamespaced_def sample_pod_def)
  have names: "distinct (map sel_Name ns)" if "pod_networks sample_kube greedy_codec sample_pod = Ret (Inr ns)" for ns
    using that by (auto simp: greedy_pod_networks)
  have encodes: "\<exists>v. marshal greedy_codec ns = Inr v" for ns by (simp add: greedy_codec_def sample_codec_def)
  obtain p' where "AllocatePodMac sample_kube greedy_codec rev sample_pod True tight_pool = Ret (Some ErrFull, sample_pod, p')"
    using sample_pod_named
    by (simp add: AllocatePodMac_eq greedy_pod_networks allocatePodFromPool_def tight_getFreeMac hex2_def hexDigit_def Let_def)
  with AllocatePodMac_atomic [OF sample_pod_named tight_pool_ok(1) range_order_rev no_null held names encodes, where k = sample_kube and isNotDryRun = True] show ?thesis by simp
qed

lemma AllocatePodMac_allocates:
  assumes "pool_ok p" "pod_networks k js pd = Ret (Inr ns)" "ns \<noteq> []" "distinct (map sel_Name ns)"
    and "AllocatePodMac k js ord pd True p = Ret (None, pd', p')"
  shows "\<exists>ns' v. marshal js ns' = Inr v \<and> pd' = set_pod_networks v pd \<and>
     list_all2 (\<lambda>n n'. if sel_MacRequest n \<noteq> [] then n' = n
        else \<exists>x. n' = n\<lparr>sel_MacRequest := hw_String x\<rparr> \<and> in_range p x \<and> mac_free (macPoolMap p) x) ns ns' \<and>
     distinct (map (\<lambda>(n, n'). NewMacKey (sel_MacRequest n'))
        (filter (\<lambda>(n, n'). sel_MacRequest n = []) (zip ns ns'))) \<and>
     holders (macPoolMap p') = holders (macPoolMap p) \<union>
       {(NewMacKey (sel_MacRequest n'), pod_owner pd, sel_Name n') | n'. n' \<in> set ns'} \<and>
     (\<forall>n'\<in>set ns'. \<exists>a. ParseMAC (sel_MacRequest n') = Inr a)"
proof -
  note alloc = pod_owner_allocator [of True pd ord]
  obtain x p1 where x: "pod_loop ord True pd [] ns [] p = Ret (x, p1)"
    using assms(2,3,5) by (cases "pod_loop ord True pd [] ns [] p") (auto simp: AllocatePodMac_eq)
  with assms(2,3,5) obtain ns' al v where ok: "x = Inr (ns', al)" "marshal js ns' = Inr v"
      "pd' = set_pod_networks v pd" "p' = p1"
    by (auto simp: AllocatePodMac_eq split: sum.splits)
  have "distinct (map sel_Name (filter (\<lambda>i. \<not> False) ns))" using assms(4) by simp
  from allocator.loop_success(1) [OF alloc TrueI assms(1) this] alloc_loop_unreverted x ok(1)
  have s: "allocator.ok_result (pod_owner pd) (\<lambda>_. False) sel_Name sel_MacRequest
      (\<lambda>s n. n\<lparr>sel_MacRequest := s\<rparr>) p ns ns' p1"
    by metis
  note defs = allocator.ok_result_def [OF alloc] allocator.pairs_def [OF alloc]
    allocator.drawn_def [OF alloc] allocator.served_def [OF alloc]
  have served: "list_all2 (\<lambda>n n'. if sel_MacRequest n \<noteq> [] then n' = n
      else \<exists>x. n' = n\<lparr>sel_MacRequest := hw_String x\<rparr> \<and> in_range p x \<and> mac_free (macPoolMap p) x) ns ns'"
    using s [unfolded defs] by (auto elim!: list_all2_mono split: if_splits)
  moreover have valid: "\<forall>n\<in>set ns. sel_MacRequest n \<noteq> [] \<longrightarrow> (\<exists>a. ParseMAC (sel_MacRequest n) = Inr a)"
    using pod_steps.loop_valid [OF assms(1)] x ok(1) by blast
  have "\<exists>a. ParseMAC (sel_MacRequest n') = Inr a" if n': "n' \<in> set ns'" for n'
  proof -
    obtain i where i: "i < length ns'" "n' = ns' ! i" using n' by (auto simp: in_set_conv_nth)
    moreover have "i < length ns" using i(1) list_all2_lengthD [OF served] by simp
    ultimately show ?thesis
      using list_all2_nthD2 [OF served i(1)] valid in_range_ParseMAC by (cases "sel_MacRequest (ns ! i) = []") auto
  qed
  ultimately show ?thesis using s ok
    unfolding defs by (intro exI [of _ ns'] exI [of _ v]) (auto simp: pool_store.rel_reserve_all)
qed

text \<open>A pod all whose networks ask for a valid address gets these.\<close>

lemma AllocatePodMac_requests:
  assumes "pod_networks k js pd = Ret (Inr ns)" "ns \<noteq> []" "\<forall>n\<in>set ns. \<exists>a. ParseMAC (sel_MacRequest n) = Inr a"
    and "marshal js ns = Inr v"
  shows "AllocatePodMac k js ord pd True p =
     Ret (None, set_pod_networks v pd, fold (\<lambda>n. hold True (sel_MacRequest n) (pod_owner pd) (sel_Name n)) ns p)"
proof -
  have "\<nexists>a. ParseMAC [] = Inr a" by (simp add: ParseMAC_def)
  with assms(3) have "\<not> False \<and> sel_MacRequest n \<noteq> [] \<and> (\<exists>a. ParseMAC (sel_MacRequest n) = Inr a)" if "n \<in> set ns" for n
    using that by metis
  from pod_steps.loop_requests [where items = ns and isNotDryRun = True and pd = pd and ord = ord and visited = "[]" and allocs = "[]" and p = p, OF this] assms show ?thesis by (auto simp: AllocatePodMac_eq)
qed

text \<open>C26: A successful allocation for a pod whose networks have distinct names: the annotation
  becomes the encoding of the networks, each with the address it requested or with a free one of the
  range, no two drawn ones the same; the pool holds exactly these addresses for the pod, or under the
  common temporary name when the name of the pod is still to be generated, next to what it held before.\<close>

theorem AllocatePodMac_serves:
  assumes "pool_ok p" "pod_networks k js pd = Ret (Inr ns)" "ns \<noteq> []" "distinct (map sel_Name ns)"
    and "AllocatePodMac k js ord pd True p = Ret (None, pd', p')"
  shows "\<exists>ns' v. marshal js ns' = Inr v \<and> pd' = set_pod_networks v pd \<and>
     list_all2 (\<lambda>n n'. if sel_MacRequest n \<noteq> [] then n' = n
        else \<exists>x. n' = n\<lparr>sel_MacRequest := hw_String x\<rparr> \<and> in_range p x \<and> mac_free (macPoolMap p) x) ns ns' \<and>
     distinct (map (\<lambda>(n, n'). NewMacKey (sel_MacRequest n'))
        (filter (\<lambda>(n, n'). sel_MacRequest n = []) (zip ns ns'))) \<and>
     holders (macPoolMap p') = holders (macPoolMap p) \<union>
       {(NewMacKey (sel_MacRequest n'), if pod_Name pd = [] then tempPodName else podNamespaced pd, sel_Name n') | n'. n' \<in> set ns'}"
  using AllocatePodMac_allocates [OF assms] unfolding pod_owner_def by blast

theorem AllocatePodMac_serves_witness:
  "\<exists>pd' p'. AllocatePodMac sample_kube sample_codec rev sample_pod True sample_pool = Ret (None, pd', p') \<and>
     holders (macPoolMap p') \<noteq> {}"
proof -
  obtain pd' p' where r: "AllocatePodMac sample_kube sample_codec rev sample_pod True sample_pool =
      Ret (None, pd', p')"
    by (auto simp: AllocatePodMac_eq sample_pod_networks allocatePodFromPool_def sample_getFreeMac_own Let_def
          sample_codec_def [THEN arg_cong, of marshal])
  show ?thesis
    using AllocatePodMac_serves [OF sample_pool_pool_ok sample_pod_networks _ _ r] r
    by (auto simp: list_all2_Cons1)
qed

lemma ReleaseAllPodMacs_eq: "ReleaseAllPodMacs podFullName p = (None, p\<lparr>macPoolMap := released (macPoolMap p) podFullName\<rparr>)"
proof -
  obtain m' where m': "filterInByInstanceName (macPoolMap p) podFullName = Inr m'"
    using filterInByInstanceName_total by blast
  show ?thesis
    using filterInByInstanceName_released [OF m'] by (simp add: ReleaseAllPodMacs_def m')
qed

end
