(* ===== verification/Startup.thy ===== *)
theory Startup
  imports PodPool
begin

section \<open>Start-up: the rebuild of the pool from the cluster\<close>

text \<open>
  \<open>Start\<close> and \<open>InitMaps\<close> of \<open>pool.go\<close>, with the loops over the managed virtual machines
  (\<open>virtualmachine_pool.go\<close>) and pods (\<open>pod_pool.go\<close>) of the cluster, page by page.

  Shown: on a server that serves finitely many pages a start returns; the pool then holds what the
  managed machines and pods of the cluster use, unless an address of a managed machine cannot be
  parsed, in which case the start fails.
\<close>

subsection \<open>Start-up\<close>

text \<open>\<open>strings.Contains\<close>\<close>

fun contains_substring :: "string \<Rightarrow> string \<Rightarrow> bool" where
  "contains_substring [] needle \<longleftrightarrow> needle = []"
| "contains_substring (c # s) needle \<longleftrightarrow>
     take (length needle) (c # s) = needle \<or> contains_substring s needle"

definition failed_to_allocate :: string where
  "failed_to_allocate = ''failed to allocate requested mac address''"

text \<open>
  The messages of the two errors that \<open>checkRequestedVirtualMachineInterfaceMac\<close> returns; the one
  of \<open>ParseMAC\<close> quotes the address.
\<close>

fun error_message :: "go_error \<Rightarrow> string" where
  "error_message ErrMacAllocated = failed_to_allocate"
| "error_message (ErrInvalidMac s) =
     (if s = [] then ''invalid MAC address'' else ''address '' @ s @ '': invalid MAC address'')"
| "error_message _ = []"

definition IncDuplicateMacs :: "pool_manager \<Rightarrow> pool_manager" where
  "IncDuplicateMacs p =
     p\<lparr>pm_metrics := (pm_metrics p)\<lparr>duplicateMacsMetric := duplicateMacsMetric (pm_metrics p) + 1\<rparr>\<rparr>"

text \<open>The function that \<open>initMacMapFromCluster\<close> runs on every interface.\<close>

definition initMacFromInterface ::
    "string \<Rightarrow> (string \<Rightarrow> vm_network option) \<Rightarrow> vm_interface \<Rightarrow> pool_manager \<Rightarrow>
     (go_error option \<times> pool_manager) run" where
  "initMacFromInterface vmFullName networks iface p =
     (if \<not> IsInterfaceSupported iface networks then Ret (None, p)
      else if iface_MacAddress iface \<noteq> []
      then (let p1 = (case checkRequestedVirtualMachineInterfaceMac vmFullName iface p of
                        Some err \<Rightarrow>
                          if contains_substring (error_message err) failed_to_allocate
                          then IncDuplicateMacs p else p
                      | None \<Rightarrow> p)
            in Ret (allocateRequestedVirtualMachineInterfaceMac vmFullName iface True p1))
      else Ret (None, p))"

text \<open>The body of \<open>forEachManagedVmInterfaceInClusterRunFunction\<close> for one virtual machine.\<close>

definition forEachInterfaceOfVm ::
    "(string \<Rightarrow> (string \<Rightarrow> vm_network option) \<Rightarrow> vm_interface \<Rightarrow> 's \<Rightarrow> (go_error option \<times> 's) run) \<Rightarrow>
     virtual_machine \<Rightarrow> 's \<Rightarrow> (go_error option \<times> 's) run" where
  "forEachInterfaceOfVm vmInterfacesFunc vm s =
     bind_run (getVirtualMachineInterfaces vm) (\<lambda>vmInterfaces.
     bind_run (getVirtualMachineNetworks vm) (\<lambda>vmNetworks.
       if length vmInterfaces = 0 then Ret (None, s)
       else if length vmNetworks = 0 then Ret (None, s)
       else bind_run (for_each (vmInterfacesFunc (VmNamespaced vm) (networks_by_name vmNetworks))
                        vmInterfaces s) (\<lambda>(e, s'). case e of
              Some err \<Rightarrow> Ret (Some (ErrWrap ''failed vm interface loop on vm'' err), s')
            | None \<Rightarrow> Ret (None, s'))))"

definition paginateVmsInManagedNamespaces ::
    "kube \<Rightarrow> int \<Rightarrow> (virtual_machine list \<Rightarrow> 's \<Rightarrow> (go_error option \<times> 's) run) \<Rightarrow> 's \<Rightarrow>
     (go_error option \<times> 's) run" where
  "paginateVmsInManagedNamespaces k limit vmsFunc s =
     bind_run (getManagedNamespaces k virtualMachnesWebhookName) (\<lambda>r. case r of
       Inl err \<Rightarrow> Ret (Some (ErrWrap ''failed to get managed namespaces for VMs'' err), s)
     | Inr managedNamespaces \<Rightarrow>
         if managedNamespaces = {} then Ret (None, s)
         else run_loop (paginate (list_vms k limit) (\<lambda>items s.
                let filteredVMs = filter (\<lambda>vm. vm_Namespace vm \<in> managedNamespaces) items
                in if 0 < length filteredVMs then vmsFunc filteredVMs s else Ret (None, s)) [] s))"

definition forEachManagedVmInterfaceInClusterRunFunction ::
    "kube \<Rightarrow> (string \<Rightarrow> (string \<Rightarrow> vm_network option) \<Rightarrow> vm_interface \<Rightarrow> 's \<Rightarrow> (go_error option \<times> 's) run) \<Rightarrow>
     's \<Rightarrow> (go_error option \<times> 's) run" where
  "forEachManagedVmInterfaceInClusterRunFunction k vmInterfacesFunc s =
     bind_run (paginateVmsInManagedNamespaces k 500 (for_each (forEachInterfaceOfVm vmInterfacesFunc)) s)
       (\<lambda>(e, s'). Ret (map_option (ErrWrap ''failed iterating over VMs in managed namespaces'') e, s'))"

definition initMacMapFromCluster :: "kube \<Rightarrow> pool_manager \<Rightarrow> (go_error option \<times> pool_manager) run" where
  "initMacMapFromCluster k p =
     bind_run (forEachManagedVmInterfaceInClusterRunFunction k initMacFromInterface p)
       (\<lambda>(e, p'). Ret (map_option (ErrWrap ''failed to iterate the cluster vm interfaces'') e, p'))"

definition initVirtualMachineMap :: "kube \<Rightarrow> pool_manager \<Rightarrow> (go_error option \<times> pool_manager) run" where
  "initVirtualMachineMap k p =
     (if \<not> isKubevirt p then Ret (None, p)
      else bind_run (initMacMapFromCluster k p)
             (\<lambda>(e, p'). Ret (map_option (ErrWrap ''failed to init MacPoolMap From Cluster'') e, p')))"

text \<open>
  The body of \<open>initPodMap\<close> for one pod, with what it does for a network as an argument: an address that
  cannot be parsed is skipped.
\<close>

definition forEachNetworkOfPod ::
    "kube \<Rightarrow> codec \<Rightarrow> (pod \<Rightarrow> network_selection \<Rightarrow> 's \<Rightarrow> (go_error option \<times> 's) run) \<Rightarrow> pod \<Rightarrow> 's \<Rightarrow>
     (go_error option \<times> 's) run" where
  "forEachNetworkOfPod k js networkFunc pd s =
     (case pod_Annotations pd of
        None \<Rightarrow> Ret (None, s)
      | Some annotations \<Rightarrow>
     (case map_of annotations NetworkAttachmentAnnot of
        None \<Rightarrow> Ret (None, s)
      | Some networkValue \<Rightarrow>
     bind_run (parsePodNetworkAnnotation js networkValue (pod_Namespace pd)) (\<lambda>r. case r of
       Inl _ \<Rightarrow> Ret (None, s)
     | Inr networks \<Rightarrow>
     if length networks = 0 then Ret (None, s)
     else if isRelatedToKubevirt k pd then Ret (None, s)
     else for_each (networkFunc pd) networks s)))"

definition initMacFromNetwork ::
    "pod \<Rightarrow> network_selection \<Rightarrow> pool_manager \<Rightarrow> (go_error option \<times> pool_manager) run" where
  "initMacFromNetwork pd network p =
     (if sel_MacRequest network = [] then Ret (None, p)
      else Ret (None, snd (allocatePodRequestedMac network pd True p)))"

definition initMacsOfPod ::
    "kube \<Rightarrow> codec \<Rightarrow> pod \<Rightarrow> pool_manager \<Rightarrow> (go_error option \<times> pool_manager) run" where
  "initMacsOfPod k js = forEachNetworkOfPod k js initMacFromNetwork"

definition paginatePodsInManagedNamespaces ::
    "kube \<Rightarrow> int \<Rightarrow> (pod list \<Rightarrow> 's \<Rightarrow> (go_error option \<times> 's) run) \<Rightarrow> 's \<Rightarrow>
     (go_error option \<times> 's) run" where
  "paginatePodsInManagedNamespaces k limit f s =
     bind_run (getManagedNamespaces k podsWebhookName) (\<lambda>r. case r of
       Inl err \<Rightarrow> Ret (Some (ErrWrap ''failed to get managed namespaces for pods'' err), s)
     | Inr managedNamespaces \<Rightarrow>
         if managedNamespaces = {} then Ret (None, s)
         else run_loop (paginate (list_pods k limit) (\<lambda>items s.
                let filteredPods = filter (\<lambda>pd. pod_Namespace pd \<in> managedNamespaces) items
                in if 0 < length filteredPods then f filteredPods s else Ret (None, s)) [] s))"

definition initPodMap :: "kube \<Rightarrow> codec \<Rightarrow> pool_manager \<Rightarrow> (go_error option \<times> pool_manager) run" where
  "initPodMap k js p =
     bind_run (paginatePodsInManagedNamespaces k 500 (for_each (initMacsOfPod k js)) p)
       (\<lambda>(e, p'). Ret (map_option (ErrWrap ''failed iterating over pods in managed namespaces'') e, p'))"

definition InitMaps :: "kube \<Rightarrow> codec \<Rightarrow> pool_manager \<Rightarrow> (go_error option \<times> pool_manager) run" where
  "InitMaps k js p =
     bind_run (initPodMap k js p) (\<lambda>(e, p1). case e of
       Some err \<Rightarrow> Ret (Some err, p1)
     | None \<Rightarrow> initVirtualMachineMap k p1)"

text \<open>
  \<open>Start\<close> also starts the cleanup loop as a goroutine when KubeVirt is there: the bool is that
  request, the loop's steps are those of \<open>healStaleMacEntries\<close>.
\<close>

definition Start :: "kube \<Rightarrow> codec \<Rightarrow> pool_manager \<Rightarrow> (go_error option \<times> bool \<times> pool_manager) run" where
  "Start k js p =
     bind_run (InitMaps k js p) (\<lambda>(e, p1). case e of
       Some err \<Rightarrow> Ret (Some (ErrWrap ''failed Init pool manager maps'' err), False, p1)
     | None \<Rightarrow> Ret (None, isKubevirt p1, p1\<lparr>isPoolReady := True\<rparr>))"

subsection \<open>A loop over pages is a loop over the objects\<close>

lemma paginate_filtered:
  assumes "serves list_page pages []"
  shows "run_loop (paginate list_page (\<lambda>items s.
      let filtered = filter P items in if 0 < length filtered then for_each body filtered s else Ret (None, s)) [] s) =
     for_each body (filter P (concat pages)) s"
proof -
  have page: "(\<lambda>items s. let filtered = filter P items in if 0 < length filtered then for_each body filtered s else Ret (None, s)) =
      (\<lambda>items. for_each body (filter P items))"
    by (auto simp: fun_eq_iff Let_def)
  have "for_each (\<lambda>items. for_each body (filter P items)) pages s = for_each body (filter P (concat pages)) s"
    by (induction pages arbitrary: s) (simp_all add: for_each_append cong: option.case_cong)
  then show ?thesis unfolding page paginate_serves [OF assms] by simp
qed

lemma paginateVms_eq:
  assumes "getManagedNamespaces k virtualMachnesWebhookName = Ret (Inr S)" "serves (list_vms k 500) pages []"
  shows "paginateVmsInManagedNamespaces k 500 (for_each body) s =
     for_each body (filter (\<lambda>vm. vm_Namespace vm \<in> S) (concat pages)) s"
proof (cases "S = {}")
  case True
  with assms(1) show ?thesis by (simp add: paginateVmsInManagedNamespaces_def)
next
  case False
  with assms(1) paginate_filtered [OF assms(2)] show ?thesis
    by (simp add: paginateVmsInManagedNamespaces_def)
qed

lemma paginatePods_eq:
  assumes "getManagedNamespaces k podsWebhookName = Ret (Inr S)" "serves (list_pods k 500) pages []"
  shows "paginatePodsInManagedNamespaces k 500 (for_each body) s =
     for_each body (filter (\<lambda>pd. pod_Namespace pd \<in> S) (concat pages)) s"
proof (cases "S = {}")
  case True
  with assms(1) show ?thesis by (simp add: paginatePodsInManagedNamespaces_def)
next
  case False
  with assms(1) paginate_filtered [OF assms(2)] show ?thesis
    by (simp add: paginatePodsInManagedNamespaces_def)
qed

subsection \<open>What the objects of the cluster hold\<close>

definition vm_requests :: "virtual_machine \<Rightarrow> vm_interface list" where
  "vm_requests vm = (case vm_Template vm of
     None \<Rightarrow> []
   | Some t \<Rightarrow> if Networks t = [] then []
       else filter (\<lambda>i. IsInterfaceSupported i (networks_by_name (Networks t)) \<and> iface_MacAddress i \<noteq> []) (Interfaces t))"

definition vm_holdings :: "virtual_machine \<Rightarrow> (macKey \<times> string \<times> string) set" where
  "vm_holdings vm = (\<lambda>i. (NewMacKey (iface_MacAddress i), VmNamespaced vm, iface_Name i)) ` set (vm_requests vm)"

definition pod_requests :: "kube \<Rightarrow> codec \<Rightarrow> pod \<Rightarrow> network_selection list" where
  "pod_requests k js pd = (case lookup_nil (pod_Annotations pd) NetworkAttachmentAnnot of
     None \<Rightarrow> []
   | Some v \<Rightarrow> (case parsePodNetworkAnnotation js v (pod_Namespace pd) of
       Ret (Inr ns) \<Rightarrow> if isRelatedToKubevirt k pd then []
         else filter (\<lambda>n. \<exists>a. ParseMAC (sel_MacRequest n) = Inr a) ns
     | _ \<Rightarrow> []))"

definition pod_holdings :: "kube \<Rightarrow> codec \<Rightarrow> pod \<Rightarrow> (macKey \<times> string \<times> string) set" where
  "pod_holdings k js pd = (\<lambda>n. (NewMacKey (sel_MacRequest n), pod_owner pd, sel_Name n)) ` set (pod_requests k js pd)"

definition pod_readable :: "codec \<Rightarrow> pod \<Rightarrow> bool" where
  "pod_readable js pd \<longleftrightarrow> (\<forall>v. lookup_nil (pod_Annotations pd) NetworkAttachmentAnnot = Some v \<longrightarrow>
     (\<exists>r. parsePodNetworkAnnotation js v (pod_Namespace pd) = Ret r))"

text \<open>What start-up keeps: everything but the pool map and the counter of duplicates; it stamps no entry.\<close>

definition start_frame :: "pool_manager \<Rightarrow> pool_manager \<Rightarrow> bool" where
  "start_frame p p' \<longleftrightarrow> pool_ok p' \<and> p' = p\<lparr>macPoolMap := macPoolMap p', pm_metrics := pm_metrics p'\<rparr> \<and>
     macCollisionMetric (pm_metrics p') = macCollisionMetric (pm_metrics p) \<and>
     stamped_entries (macPoolMap p') \<subseteq> stamped_entries (macPoolMap p)"

lemma start_frame_refl: "pool_ok p \<Longrightarrow> start_frame p p"
  by (cases p) (simp add: start_frame_def)

lemma start_frame_hold: "start_frame p q \<Longrightarrow> ParseMAC mac = Inr a \<Longrightarrow> start_frame p (hold True mac owner j q)"
  unfolding start_frame_def by (cases p; cases q) (auto simp: hold_def pool_ok_def range_ok_def in_range_def intro: pool_intros dest: subsetD [OF stamped_createOrUpdateEntry])

lemma start_frame_IncDuplicateMacs: "start_frame p q \<Longrightarrow> start_frame p (IncDuplicateMacs q)"
  unfolding start_frame_def by (cases p; cases q) (simp add: IncDuplicateMacs_def pool_ok_def range_ok_def in_range_def)

lemma start_frame_ok: "start_frame p q \<Longrightarrow> pool_ok (q\<lparr>isPoolReady := b\<rparr>)" "start_frame p q \<Longrightarrow> pool_ok q"
  by (simp_all add: start_frame_def pool_ok_def range_ok_def in_range_def)

lemma start_frameD:
  assumes "start_frame p q"
  shows "pool_ok q" "macCollisionMetric (pm_metrics q) = macCollisionMetric (pm_metrics p)"
    "stamped_entries (macPoolMap q) \<subseteq> stamped_entries (macPoolMap p)"
    "collidingObjectsPerMAC q = collidingObjectsPerMAC p" "waitTime q = waitTime p"
proof -
  show "pool_ok q" "macCollisionMetric (pm_metrics q) = macCollisionMetric (pm_metrics p)"
    "stamped_entries (macPoolMap q) \<subseteq> stamped_entries (macPoolMap p)"
    using assms unfolding start_frame_def by blast+
  have eq: "q = p\<lparr>macPoolMap := macPoolMap q, pm_metrics := pm_metrics q\<rparr>" using assms unfolding start_frame_def by blast
  show "collidingObjectsPerMAC q = collidingObjectsPerMAC p" "waitTime q = waitTime p" by (subst eq, simp)+
qed

lemma start_frame_flags [simp]:
  "start_frame p q \<Longrightarrow> isKubevirt q = isKubevirt p" "start_frame p q \<Longrightarrow> isPoolReady q = isPoolReady p"
  unfolding start_frame_def by (cases p; cases q; simp)+

lemma holders_hold: "holders (macPoolMap (hold True mac owner j p)) = insert (NewMacKey mac, owner, j) (holders (macPoolMap p))"
  by (simp add: hold_def holders_createOrUpdateEntry)

subsection \<open>Virtual machines at start-up\<close>

text \<open>A requested address is taken over, also when another holder has it; one that is no address fails.\<close>

lemma initMacFromInterface_cases:
  assumes "start_frame p q"
  shows "if IsInterfaceSupported i networks \<and> iface_MacAddress i \<noteq> []
     then if \<exists>a. ParseMAC (iface_MacAddress i) = Inr a
       then \<exists>q'. initMacFromInterface n networks i q = Ret (None, q') \<and> start_frame p q' \<and>
              holders (macPoolMap q') = insert (NewMacKey (iface_MacAddress i), n, iface_Name i) (holders (macPoolMap q))
       else \<exists>err q'. initMacFromInterface n networks i q = Ret (Some err, q') \<and> start_frame p q' \<and> macPoolMap q' = macPoolMap q
     else initMacFromInterface n networks i q = Ret (None, q)"
proof -
  define q1 where "q1 = (case checkRequestedVirtualMachineInterfaceMac n i q of
      Some err \<Rightarrow> if contains_substring (error_message err) failed_to_allocate then IncDuplicateMacs q else q
    | None \<Rightarrow> q)"
  have q1: "start_frame p q1" "macPoolMap q1 = macPoolMap q"
    using assms start_frame_IncDuplicateMacs
    by (auto simp: q1_def IncDuplicateMacs_def split: option.split)
  have step: "initMacFromInterface n networks i q = Ret (case ParseMAC (iface_MacAddress i) of
      Inl err \<Rightarrow> (Some err, q1) | Inr _ \<Rightarrow> (None, hold True (iface_MacAddress i) n (iface_Name i) q1))"
    if "IsInterfaceSupported i networks" "iface_MacAddress i \<noteq> []"
    using that by (simp add: initMacFromInterface_def q1_def [symmetric] hold_def
        allocateRequestedVirtualMachineInterfaceMac_def split: sum.split)
  have "initMacFromInterface n networks i q = Ret (None, q)"
    if "\<not> (IsInterfaceSupported i networks \<and> iface_MacAddress i \<noteq> [])"
    using that by (auto simp: initMacFromInterface_def)
  with q1 step start_frame_hold [OF q1(1)] show ?thesis
    by (cases "ParseMAC (iface_MacAddress i)") (auto simp: holders_hold)
qed

definition vm_valid :: "virtual_machine \<Rightarrow> bool" where
  "vm_valid vm \<longleftrightarrow> (\<forall>i\<in>set (vm_requests vm). \<exists>a. ParseMAC (iface_MacAddress i) = Inr a)"

lemma forEachInterfaceOfVm_takes:
  assumes "vm_Template vm \<noteq> None" "vm_valid vm" "start_frame p q"
  shows "\<exists>q'. forEachInterfaceOfVm initMacFromInterface vm q = Ret (None, q') \<and> start_frame p q' \<and>
     holders (macPoolMap q') = holders (macPoolMap q) \<union> vm_holdings vm"
proof -
  obtain t where t: "vm_Template vm = Some t" using assms(1) by auto
  let ?nets = "networks_by_name (Networks t)" and ?n = "VmNamespaced vm"
  let ?held = "\<lambda>i. if IsInterfaceSupported i ?nets \<and> iface_MacAddress i \<noteq> []
    then {(NewMacKey (iface_MacAddress i), ?n, iface_Name i)} else {}"
  show ?thesis
  proof (cases "Networks t = []")
    case True
    with t assms(3) show ?thesis
      by (simp add: forEachInterfaceOfVm_def getVirtualMachineInterfaces_def getVirtualMachineNetworks_def
          vm_holdings_def vm_requests_def)
  next
    case False
    have "\<exists>q'. initMacFromInterface ?n ?nets i s = Ret (None, q') \<and> start_frame p q' \<and>
        holders (macPoolMap q') = holders (macPoolMap s) \<union> ?held i"
      if "i \<in> set (Interfaces t)" "start_frame p s" for i s
      using initMacFromInterface_cases [OF that(2), of i ?nets ?n] that assms(2) False
      by (auto simp: vm_valid_def vm_requests_def t split: if_splits)
    then have "\<exists>q'. for_each (initMacFromInterface ?n ?nets) (Interfaces t) q = Ret (None, q') \<and> start_frame p q' \<and>
        holders (macPoolMap q') = holders (macPoolMap q) \<union> (\<Union>i\<in>set (Interfaces t). ?held i)"
      using assms(3) by (intro for_each_accumulates) auto
    moreover have "(\<Union>i\<in>set (Interfaces t). ?held i) = vm_holdings vm"
      using False t by (auto simp: vm_holdings_def vm_requests_def split: if_splits)
    ultimately show ?thesis using False t
      by (auto simp: forEachInterfaceOfVm_def getVirtualMachineInterfaces_def getVirtualMachineNetworks_def)
  qed
qed

lemma forEachInterfaceOfVm_fails:
  assumes "vm_Template vm \<noteq> None" "\<not> vm_valid vm" "start_frame p q"
  shows "\<exists>err q'. forEachInterfaceOfVm initMacFromInterface vm q = Ret (Some err, q') \<and> start_frame p q'"
proof -
  obtain t where t: "vm_Template vm = Some t" using assms(1) by auto
  let ?body = "initMacFromInterface (VmNamespaced vm) (networks_by_name (Networks t))"
  obtain i where i: "Networks t \<noteq> []" "i \<in> set (Interfaces t)" "iface_MacAddress i \<noteq> []"
      "IsInterfaceSupported i (networks_by_name (Networks t))" "\<nexists>a. ParseMAC (iface_MacAddress i) = Inr a"
    using assms(2) t by (auto simp: vm_valid_def vm_requests_def split: if_splits)
  have keeps: "\<exists>e s'. ?body j s = Ret (e, s') \<and> start_frame p s'" if "start_frame p s" for j s
    using initMacFromInterface_cases [OF that, of j "networks_by_name (Networks t)" "VmNamespaced vm"] that
    by (auto split: if_splits)
  have "\<exists>err q'. for_each ?body (Interfaces t) q = Ret (Some err, q')"
    using assms(3) i(2)
  proof (rule for_each_fails)
    show "\<exists>err s'. ?body i s = Ret (Some err, s')" if "start_frame p s" for s
      using initMacFromInterface_cases [OF that, of i "networks_by_name (Networks t)" "VmNamespaced vm"] i by auto
  qed (rule keeps)
  moreover have "\<exists>e s'. for_each ?body (Interfaces t) q = Ret (e, s') \<and> start_frame p s'"
    using assms(3) by (rule for_each_invariant) (rule keeps)
  ultimately show ?thesis using i(1,2) t
    by (auto simp: forEachInterfaceOfVm_def getVirtualMachineInterfaces_def getVirtualMachineNetworks_def)
qed

subsection \<open>Pods at start-up\<close>

lemma initMacFromNetwork_eq:
  "initMacFromNetwork pd n q = Ret (None, if \<exists>a. ParseMAC (sel_MacRequest n) = Inr a
     then hold True (sel_MacRequest n) (pod_owner pd) (sel_Name n) q else q)"
proof -
  have "\<nexists>a. ParseMAC [] = Inr a" by (simp add: ParseMAC_def)
  then show ?thesis
    by (auto simp: initMacFromNetwork_def allocatePodRequestedMac_def Let_def hold_def pod_owner_def split: sum.split)
qed

text \<open>A pod whose annotation can be read is a loop over the networks it lists, which are none for a pod of KubeVirt.\<close>

lemma forEachNetworkOfPod_eq:
  assumes "pod_readable js pd"
  obtains ns where "\<And>f s. forEachNetworkOfPod k js f pd s = for_each (f pd) ns s"
    "pod_requests k js pd = filter (\<lambda>n. \<exists>a. ParseMAC (sel_MacRequest n) = Inr a) ns"
proof (cases "\<exists>v ns. lookup_nil (pod_Annotations pd) NetworkAttachmentAnnot = Some v \<and>
    parsePodNetworkAnnotation js v (pod_Namespace pd) = Ret (Inr ns) \<and> \<not> isRelatedToKubevirt k pd")
  case False
  with assms show thesis
    by (intro that [of "[]"]; cases "pod_Annotations pd"; cases "map_of (the (pod_Annotations pd)) NetworkAttachmentAnnot";
        cases "parsePodNetworkAnnotation js (the (lookup_nil (pod_Annotations pd) NetworkAttachmentAnnot)) (pod_Namespace pd)")
       (auto simp: forEachNetworkOfPod_def pod_requests_def pod_readable_def lookup_nil_def split: sum.splits)
next
  case True
  then obtain v ns where "lookup_nil (pod_Annotations pd) NetworkAttachmentAnnot = Some v"
    "parsePodNetworkAnnotation js v (pod_Namespace pd) = Ret (Inr ns)" "\<not> isRelatedToKubevirt k pd" by auto
  then show thesis
    by (intro that [of ns]) (auto simp: forEachNetworkOfPod_def pod_requests_def lookup_nil_def split: option.splits)
qed

lemma initMacsOfPod_takes:
  assumes "pod_readable js pd" "start_frame p q"
  shows "\<exists>q'. initMacsOfPod k js pd q = Ret (None, q') \<and> start_frame p q' \<and>
     holders (macPoolMap q') = holders (macPoolMap q) \<union> pod_holdings k js pd"
proof -
  obtain ns where ns: "\<And>(f :: pod \<Rightarrow> network_selection \<Rightarrow> pool_manager \<Rightarrow> _) s. forEachNetworkOfPod k js f pd s = for_each (f pd) ns s"
      "pod_requests k js pd = filter (\<lambda>n. \<exists>a. ParseMAC (sel_MacRequest n) = Inr a) ns"
    using assms(1) by (rule forEachNetworkOfPod_eq) blast
  let ?held = "\<lambda>n. if \<exists>a. ParseMAC (sel_MacRequest n) = Inr a
    then {(NewMacKey (sel_MacRequest n), pod_owner pd, sel_Name n)} else {}"
  have "\<exists>q'. for_each (initMacFromNetwork pd) ns q = Ret (None, q') \<and> start_frame p q' \<and>
      holders (macPoolMap q') = holders (macPoolMap q) \<union> (\<Union>n\<in>set ns. ?held n)"
    using assms(2) by (intro for_each_accumulates) (auto simp: initMacFromNetwork_eq holders_hold start_frame_hold)
  moreover have "(\<Union>n\<in>set ns. ?held n) = pod_holdings k js pd"
    by (auto simp: pod_holdings_def ns(2) split: if_splits)
  ultimately show ?thesis by (simp add: initMacsOfPod_def ns(1))
qed

subsection \<open>Whatever the cluster answers\<close>

lemma keeps_paginateVms: "(\<And>items. keeps_run I (f items)) \<Longrightarrow> keeps_run I (paginateVmsInManagedNamespaces k limit f)"
  unfolding paginateVmsInManagedNamespaces_def Let_def
  by (intro keeps_intros keeps_paginate)

lemma keeps_paginatePods: "(\<And>items. keeps_run I (f items)) \<Longrightarrow> keeps_run I (paginatePodsInManagedNamespaces k limit f)"
  unfolding paginatePodsInManagedNamespaces_def Let_def
  by (intro keeps_intros keeps_paginate)

lemma keeps_initMacFromInterface: "keeps_run (start_frame p) (initMacFromInterface n networks i)"
proof (rule keeps_runI)
  fix s e s' assume s: "start_frame p s" and "initMacFromInterface n networks i s = Ret (e, s')"
  with initMacFromInterface_cases [OF s, of i networks n] show "start_frame p s'" by (auto split: if_splits)
qed

lemma keeps_forEachNetworkOfPod:
  "(\<And>n. keeps_run I (f pd n)) \<Longrightarrow> keeps_run I (forEachNetworkOfPod k js f pd)"
  unfolding forEachNetworkOfPod_def by (intro keeps_intros)

lemma keeps_forEachInterfaceOfVm:
  "(\<And>n nets i. keeps_run I (f n nets i)) \<Longrightarrow> keeps_run I (forEachInterfaceOfVm f vm)"
  unfolding forEachInterfaceOfVm_def by (intro keeps_intros keeps_then)

lemma keeps_initMacsOfPod: "keeps_run (start_frame p) (initMacsOfPod k js pd)"
  unfolding initMacsOfPod_def
  by (rule keeps_forEachNetworkOfPod, rule keeps_runI) (auto simp: initMacFromNetwork_eq intro: start_frame_hold split: if_splits)

lemma keeps_InitMaps: "keeps_run (start_frame p) (InitMaps k js)"
proof -
  have "keeps_run (start_frame p) (initPodMap k js)" "keeps_run (start_frame p) (initVirtualMachineMap k)"
    unfolding initPodMap_def initVirtualMachineMap_def initMacMapFromCluster_def forEachManagedVmInterfaceInClusterRunFunction_def
    by (intro keeps_intros keeps_paginatePods keeps_paginateVms keeps_initMacsOfPod keeps_forEachInterfaceOfVm
        keeps_initMacFromInterface)+
  then show ?thesis unfolding InitMaps_def by (intro keeps_then keeps_intros)
qed

lemma Start_keeps:
  assumes "pool_ok p" "Start k js p = Ret (e, b, q)"
  obtains q1 where "start_frame p q1" "q = q1\<lparr>isPoolReady := e = None \<or> isPoolReady p\<rparr>"
proof -
  obtain e1 q1 where q1: "InitMaps k js p = Ret (e1, q1)" using assms(2) by (auto simp: Start_def bind_run_eq_Ret)
  have f: "start_frame p q1" using keeps_InitMaps start_frame_refl [OF assms(1)] q1 by (rule keeps_runD)
  with assms(2) q1 show thesis by (intro that [of q1]) (auto simp: Start_def split: option.splits)
qed

text \<open>
  What start-up relies on in the objects the API server lists: every machine has a template, and no annotation of a pod
  lists a null element. The first is promised by the schema of the resource, the second is not.
\<close>

definition stored_ok :: "kube \<Rightarrow> codec \<Rightarrow> bool" where
  "stored_ok k js \<longleftrightarrow>
     (\<forall>token items token'. list_vms k 500 token = Inr (items, token') \<longrightarrow> (\<forall>vm\<in>set items. vm_Template vm \<noteq> None)) \<and>
     (\<forall>token items token'. list_pods k 500 token = Inr (items, token') \<longrightarrow> (\<forall>pd\<in>set items. pod_readable js pd))"

lemma stored_okD:
  "stored_ok k js \<Longrightarrow> list_vms k 500 token = Inr (items, token') \<Longrightarrow> vm \<in> set items \<Longrightarrow> vm_Template vm \<noteq> None"
  "stored_ok k js \<Longrightarrow> list_pods k 500 token = Inr (pods, token') \<Longrightarrow> pd \<in> set pods \<Longrightarrow> pod_readable js pd"
  unfolding stored_ok_def by blast+

lemma getManagedNamespaces_no_panic: "getManagedNamespaces k w \<noteq> Panics"
proof -
  have "safe_run (\<lambda>_. True) (collectManaged k sel mode items)" for sel mode items
    by (rule safe_runI) (simp add: collectManaged_def)
  then have "safe_run (\<lambda>_. True) (\<lambda>s. run_loop (paginate (list_namespaces k 500) (collectManaged k sel mode) [] s))" for sel mode
    by (intro safe_paginate safe_runD(2))
  then have "run_loop (paginate (list_namespaces k 500) (collectManaged k sel mode) [] {}) \<noteq> Panics" for sel mode
    by (rule safe_runD(1)) simp
  then show ?thesis
    by (auto simp: getManagedNamespaces_def split: sum.split option.split bind_run_split)
qed

lemma safe_paginateVms:
  assumes "\<And>token items token'. list_vms k limit token = Inr (items, token') \<Longrightarrow> \<forall>vm\<in>set items. safe_run I (f vm)"
    and "\<And>vm. keeps_run I (f vm)"
  shows "safe_run I (paginateVmsInManagedNamespaces k limit (for_each f))"
  unfolding paginateVmsInManagedNamespaces_def Let_def
  by (intro safe_intros safe_paginate keeps_intros getManagedNamespaces_no_panic assms(2)) (auto dest: assms(1))

lemma safe_paginatePods:
  assumes "\<And>token items token'. list_pods k limit token = Inr (items, token') \<Longrightarrow> \<forall>pd\<in>set items. safe_run I (f pd)"
    and "\<And>pd. keeps_run I (f pd)"
  shows "safe_run I (paginatePodsInManagedNamespaces k limit (for_each f))"
  unfolding paginatePodsInManagedNamespaces_def Let_def
  by (intro safe_intros safe_paginate keeps_intros getManagedNamespaces_no_panic assms(2)) (auto dest: assms(1))

lemma safe_forEachNetworkOfPod:
  fixes f :: "pod \<Rightarrow> network_selection \<Rightarrow> 's \<Rightarrow> (go_error option \<times> 's) run"
  assumes "pod_readable js pd" "\<And>n. safe_run I (f pd n)"
  shows "safe_run I (forEachNetworkOfPod k js f pd)"
proof -
  obtain ns where "\<And>(f :: pod \<Rightarrow> network_selection \<Rightarrow> 's \<Rightarrow> _) s. forEachNetworkOfPod k js f pd s = for_each (f pd) ns s"
      "pod_requests k js pd = filter (\<lambda>n. \<exists>a. ParseMAC (sel_MacRequest n) = Inr a) ns"
    using assms(1) by (rule forEachNetworkOfPod_eq) blast
  then have "forEachNetworkOfPod k js f pd = for_each (f pd) ns" by (intro ext)
  then show ?thesis using assms(2) by (simp add: safe_for_each)
qed

lemma safe_forEachInterfaceOfVm:
  assumes "vm_Template vm \<noteq> None" "\<And>n nets i. safe_run I (f n nets i)"
  shows "safe_run I (forEachInterfaceOfVm f vm)"
proof -
  have "getVirtualMachineInterfaces vm \<noteq> Panics" "getVirtualMachineNetworks vm \<noteq> Panics"
    using assms(1) by (auto simp: getVirtualMachineInterfaces_def getVirtualMachineNetworks_def)
  then show ?thesis unfolding forEachInterfaceOfVm_def
    by (intro safe_intros safe_then assms(2))
qed

text \<open>The rebuild, with any accesses to its state in place of the two of \<open>InitMaps\<close>, panics on no such cluster.\<close>

lemma safe_rebuild:
  assumes "stored_ok k js" "\<And>pd n. safe_run I (f pd n)" "\<And>x networks i. safe_run I (g x networks i)"
  shows "safe_run I (paginatePodsInManagedNamespaces k 500 (for_each (forEachNetworkOfPod k js f)))"
    "safe_run I (forEachManagedVmInterfaceInClusterRunFunction k g)"
proof -
  show "safe_run I (paginatePodsInManagedNamespaces k 500 (for_each (forEachNetworkOfPod k js f)))"
    using assms(2) stored_okD(2) [OF assms(1)]
    by (intro safe_paginatePods keeps_forEachNetworkOfPod safe_runD(2)) (auto intro: safe_forEachNetworkOfPod)
  have "safe_run I (paginateVmsInManagedNamespaces k 500 (for_each (forEachInterfaceOfVm g)))"
    using assms(3) stored_okD(1) [OF assms(1)]
    by (intro safe_paginateVms keeps_forEachInterfaceOfVm safe_runD(2)) (blast intro: safe_forEachInterfaceOfVm)+
  then show "safe_run I (forEachManagedVmInterfaceInClusterRunFunction k g)"
    unfolding forEachManagedVmInterfaceInClusterRunFunction_def by (intro safe_then safe_Ret)
qed

lemma Start_no_panic:
  assumes "stored_ok k js" "pool_ok p"
  shows "Start k js p \<noteq> Panics"
proof -
  have net: "safe_run (start_frame p) (initMacFromNetwork pd n)" for pd n
    by (rule safe_runI) (auto simp: initMacFromNetwork_eq intro: start_frame_hold)
  have iface: "safe_run (start_frame p) (initMacFromInterface x networks i)" for x networks i
  proof (rule safe_runI)
    fix s assume "start_frame p s"
    with initMacFromInterface_cases [OF this, of i networks x] show "\<exists>e s'. initMacFromInterface x networks i s = Ret (e, s') \<and> start_frame p s'"
      by (auto split: if_splits)
  qed
  note safe = safe_rebuild [OF assms(1) net iface]
  have "safe_run (start_frame p) (initPodMap k js)" "safe_run (start_frame p) (initVirtualMachineMap k)"
    unfolding initPodMap_def initMacsOfPod_def initVirtualMachineMap_def initMacMapFromCluster_def
    by (intro safe_then safe_intros safe)+
  then have "safe_run (start_frame p) (InitMaps k js)"
    unfolding InitMaps_def by (intro safe_then safe_intros)
  from safe_runD(1) [OF this start_frame_refl [OF assms(2)]] show ?thesis
    by (auto simp: Start_def split: bind_run_split prod.split option.split)
qed

subsection \<open>The rebuilt pool\<close>

text \<open>
  The cluster as start-up sees it: for both webhooks the managed namespaces can be told, and the API
  server serves the virtual machines and the pods on finitely many pages; the machines have a template
  and no annotation of a pod lists a null element.
\<close>

definition cluster_view :: "kube \<Rightarrow> codec \<Rightarrow> virtual_machine list \<Rightarrow> pod list \<Rightarrow> bool" where
  "cluster_view k js vms pods \<longleftrightarrow>
     (\<exists>vm_ns pod_ns vm_pages pod_pages.
        getManagedNamespaces k virtualMachnesWebhookName = Ret (Inr vm_ns) \<and>
        getManagedNamespaces k podsWebhookName = Ret (Inr pod_ns) \<and>
        serves (list_vms k 500) vm_pages [] \<and> vms = filter (\<lambda>vm. vm_Namespace vm \<in> vm_ns) (concat vm_pages) \<and>
        serves (list_pods k 500) pod_pages [] \<and> pods = filter (\<lambda>pd. pod_Namespace pd \<in> pod_ns) (concat pod_pages)) \<and>
     (\<forall>vm\<in>set vms. vm_Template vm \<noteq> None) \<and> (\<forall>pd\<in>set pods. pod_readable js pd)"

lemma initPodMap_takes:
  assumes "cluster_view k js vms pods" "pool_ok p"
  shows "\<exists>q. initPodMap k js p = Ret (None, q) \<and> start_frame p q \<and>
     holders (macPoolMap q) = holders (macPoolMap p) \<union> (\<Union>pd\<in>set pods. pod_holdings k js pd)"
proof -
  have "\<exists>q. for_each (initMacsOfPod k js) pods p = Ret (None, q) \<and> start_frame p q \<and>
      holders (macPoolMap q) = holders (macPoolMap p) \<union> (\<Union>pd\<in>set pods. pod_holdings k js pd)"
    using assms by (intro for_each_accumulates initMacsOfPod_takes) (auto simp: cluster_view_def start_frame_refl)
  moreover have "initPodMap k js p = for_each (initMacsOfPod k js) pods p" if "\<exists>q. for_each (initMacsOfPod k js) pods p = Ret (None, q)"
    using assms(1) that by (auto simp: cluster_view_def initPodMap_def paginatePods_eq)
  ultimately show ?thesis by auto
qed

lemma initVirtualMachineMap_eq:
  assumes "cluster_view k js vms pods" "isKubevirt p" "for_each (forEachInterfaceOfVm initMacFromInterface) vms p = Ret (e, q)"
  shows "\<exists>e'. initVirtualMachineMap k p = Ret (e', q) \<and> (e' = None \<longleftrightarrow> e = None)"
  using assms
  by (auto simp: cluster_view_def initVirtualMachineMap_def initMacMapFromCluster_def
      forEachManagedVmInterfaceInClusterRunFunction_def paginateVms_eq)

lemma Start_takes:
  assumes "cluster_view k js vms pods" "pool_ok p" "isKubevirt p" "\<not> isPoolReady p"
  shows "if \<forall>vm\<in>set vms. vm_valid vm
     then \<exists>p'. Start k js p = Ret (None, True, p'\<lparr>isPoolReady := True\<rparr>) \<and> start_frame p p' \<and>
       holders (macPoolMap p') = holders (macPoolMap p) \<union> (\<Union>vm\<in>set vms. vm_holdings vm) \<union>
         (\<Union>pd\<in>set pods. pod_holdings k js pd)
     else \<exists>err p'. Start k js p = Ret (Some err, False, p') \<and> \<not> isPoolReady p' \<and> pool_ok p'"
proof -
  let ?vm = "forEachInterfaceOfVm initMacFromInterface"
  obtain q where q: "initPodMap k js p = Ret (None, q)" "start_frame p q"
      "holders (macPoolMap q) = holders (macPoolMap p) \<union> (\<Union>pd\<in>set pods. pod_holdings k js pd)"
    using initPodMap_takes [OF assms(1,2)] by auto
  have start: "\<exists>e'. Start k js p = Ret (e', e = None, if e = None then p'\<lparr>isPoolReady := True\<rparr> else p') \<and> (e' = None \<longleftrightarrow> e = None)"
    if vms: "for_each ?vm vms q = Ret (e, p')" "start_frame p p'" for e p'
  proof -
    obtain e' where "initVirtualMachineMap k q = Ret (e', p')" "e' = None \<longleftrightarrow> e = None"
      using initVirtualMachineMap_eq [OF assms(1) _ vms(1)] q(2) assms(3) by auto
    then show ?thesis using q(1) vms(2) assms(3) by (cases e) (auto simp: Start_def InitMaps_def)
  qed
  have templates: "vm_Template vm \<noteq> None" if "vm \<in> set vms" for vm
    using assms(1) that by (auto simp: cluster_view_def)
  show ?thesis
  proof (cases "\<forall>vm\<in>set vms. vm_valid vm")
    case True
    then have "\<exists>p'. for_each ?vm vms q = Ret (None, p') \<and> start_frame p p' \<and>
        holders (macPoolMap p') = holders (macPoolMap q) \<union> (\<Union>vm\<in>set vms. vm_holdings vm)"
      using q(2) templates by (intro for_each_accumulates forEachInterfaceOfVm_takes) auto
    then obtain p' where p': "for_each ?vm vms q = Ret (None, p')" "start_frame p p'"
        "holders (macPoolMap p') = holders (macPoolMap q) \<union> (\<Union>vm\<in>set vms. vm_holdings vm)" by auto
    then show ?thesis using True start [OF p'(1,2)] q(3)
      by auto
  next
    case False
    then obtain vm where vm: "vm \<in> set vms" "\<not> vm_valid vm" by auto
    have keeps: "\<exists>e s'. ?vm y s = Ret (e, s') \<and> start_frame p s'" if "y \<in> set vms" "start_frame p s" for y s
      using forEachInterfaceOfVm_takes [OF templates [OF that(1)] _ that(2)]
        forEachInterfaceOfVm_fails [OF templates [OF that(1)] _ that(2)] by (cases "vm_valid y") auto
    obtain err p' where p': "for_each ?vm vms q = Ret (Some err, p')"
      using for_each_fails [of "start_frame p" q vm vms ?vm] q(2) vm(1) keeps forEachInterfaceOfVm_fails [OF templates [OF vm(1)] vm(2)] by blast
    moreover have "start_frame p p'"
      using for_each_invariant [of "start_frame p" q vms ?vm] q(2) keeps p' by auto
    ultimately show ?thesis using False start [of "Some err" p'] assms(4) by (auto simp: start_frame_ok)
  qed
qed

text \<open>Start-up rebuilds the pool from the cluster: when every address that a managed virtual machine
  asks for can be parsed, start-up succeeds, starts the cleanup loop, and the pool then holds, next to
  what it held before, exactly the addresses of the managed virtual machines and pods, each for its
  owner and interface; one managed virtual machine with an address that cannot be parsed makes
  start-up fail, and the pool is not marked ready.\<close>

lemma Start_rebuilds:
  assumes "cluster_view k js vms pods" "pool_ok p" "isKubevirt p" "\<not> isPoolReady p"
  shows "if \<forall>vm\<in>set vms. vm_valid vm
     then \<exists>p'. Start k js p = Ret (None, True, p') \<and> isPoolReady p' \<and> pool_ok p' \<and>
       holders (macPoolMap p') = holders (macPoolMap p) \<union> (\<Union>vm\<in>set vms. vm_holdings vm) \<union>
         (\<Union>pd\<in>set pods. pod_holdings k js pd)
     else \<exists>err p'. Start k js p = Ret (Some err, False, p') \<and> \<not> isPoolReady p' \<and> pool_ok p'"
  using Start_takes [OF assms] start_frame_ok by (auto split: if_splits)

text \<open>Whatever the cluster has, start-up returns within the frame.\<close>

lemma Start_ends:
  assumes "cluster_view k js vms pods" "pool_ok p"
  shows "\<exists>e b r q. Start k js p = Ret (e, b, q\<lparr>isPoolReady := r\<rparr>) \<and> start_frame p q"
proof -
  let ?vm = "forEachInterfaceOfVm initMacFromInterface"
  obtain q where q: "initPodMap k js p = Ret (None, q)" "start_frame p q"
    using initPodMap_takes [OF assms] by auto
  have "\<exists>e q'. initVirtualMachineMap k q = Ret (e, q') \<and> start_frame p q'"
  proof (cases "isKubevirt q")
    case True
    have "\<exists>e s'. for_each ?vm vms q = Ret (e, s') \<and> start_frame p s'"
    proof (rule for_each_invariant [of "start_frame p", OF q(2)])
      fix vm s assume "vm \<in> set vms" "start_frame p s"
      moreover from this(1) have "vm_Template vm \<noteq> None" using assms(1) by (auto simp: cluster_view_def)
      ultimately show "\<exists>e s'. ?vm vm s = Ret (e, s') \<and> start_frame p s'"
        using forEachInterfaceOfVm_takes [of vm p s] forEachInterfaceOfVm_fails [of vm p s]
        by (cases "vm_valid vm") auto
    qed
    then show ?thesis using initVirtualMachineMap_eq [OF assms(1) True] by blast
  qed (use q in \<open>simp add: initVirtualMachineMap_def\<close>)
  then obtain e q' where q': "initVirtualMachineMap k q = Ret (e, q')" "start_frame p q'" by blast
  have "\<exists>e b r. Start k js p = Ret (e, b, q'\<lparr>isPoolReady := r\<rparr>)"
  proof (cases e)
    case (Some err)
    with q q' show ?thesis
      by (intro exI [of _ "Some (ErrWrap ''failed Init pool manager maps'' err)"] exI [of _ False] exI [of _ "isPoolReady q'"])
         (simp add: Start_def InitMaps_def)
  qed (use q q' in \<open>auto simp: Start_def InitMaps_def\<close>)
  with q'(2) show ?thesis by blast
qed

text \<open>A virtual machine that has its address, and clusters that serve their objects on one page.\<close>

definition stored_vm :: virtual_machine where
  "stored_vm = set_interfaces [sample_iface\<lparr>iface_MacAddress := ''02:00:00:00:00:07''\<rparr>] sample_vm"

lemma managed_kube_namespaces:
  assumes "w \<in> {virtualMachnesWebhookName, podsWebhookName}"
  shows "getManagedNamespaces (managed_kube\<lparr>list_vms := a, list_pods := b\<rparr>) w = Ret (Inr {''default''})"
proof -
  let ?k = "managed_kube\<lparr>list_vms := a, list_pods := b\<rparr>"
  have "webhook_mode ?k w (opt_out_selector w) OptOutMode"
    using managed_kube_mode [OF assms] by (simp add: webhook_mode_def lookupWebhookInMutatingWebhookConfig_def)
  then have "getManagedNamespaces ?k w = Ret (Inr {ns_Name ns | ns.
      ns \<in> set (concat [[\<lparr>ns_Name = ''default'', ns_Labels = None\<rparr>]]) \<and>
      isNamespaceManagedFromObject ?k ns (opt_out_selector w) OptOutMode = Inr True})"
    by (rule getManagedNamespaces_returns) (simp add: managed_kube_def)
  then show ?thesis by (simp add: isNamespaceManagedFromObject_True cong: conj_cong)
qed

lemma managed_kube_view:
  assumes "\<forall>vm\<in>set vms. vm_Namespace vm = ''default'' \<and> vm_Template vm \<noteq> None"
    and "\<forall>pd\<in>set pods. pod_Namespace pd = ''default'' \<and> pod_readable js pd"
  shows "cluster_view (managed_kube\<lparr>list_vms := \<lambda>_ _. Inr (vms, []), list_pods := \<lambda>_ _. Inr (pods, [])\<rparr>) js vms pods"
  unfolding cluster_view_def using assms managed_kube_namespaces
  by (intro conjI exI [of _ "{''default''}"] exI [of _ "[vms]"] exI [of _ "[pods]"]) (auto simp: filter_id_conv)

text \<open>An empty cluster: start-up changes nothing but the flag.\<close>

lemma Start_empty:
  "Start managed_kube js p = Ret (None, isKubevirt p, p\<lparr>isPoolReady := True\<rparr>)" "cluster_view managed_kube js [] []"
proof -
  have k: "managed_kube = managed_kube\<lparr>list_vms := \<lambda>_ _. Inr ([], []), list_pods := \<lambda>_ _. Inr ([], [])\<rparr>"
    by (simp add: managed_kube_def)
  then show "cluster_view managed_kube js [] []" using managed_kube_view [of "[]" "[]" js] by simp
  have "getManagedNamespaces managed_kube w = Ret (Inr {''default''})" if "w \<in> {virtualMachnesWebhookName, podsWebhookName}" for w
    using managed_kube_namespaces [OF that] k by metis
  moreover have "serves (list_vms managed_kube 500) [[]] []" "serves (list_pods managed_kube 500) [[]] []"
    by (simp_all add: managed_kube_def)
  ultimately show "Start managed_kube js p = Ret (None, isKubevirt p, p\<lparr>isPoolReady := True\<rparr>)"
    by (simp add: Start_def InitMaps_def initPodMap_def initVirtualMachineMap_def initMacMapFromCluster_def
        forEachManagedVmInterfaceInClusterRunFunction_def paginatePods_eq [where pages = "[[]]"]
        paginateVms_eq [where pages = "[[]]"])
qed

end
