(* ===== verification/VmTransactions.thy ===== *)
theory VmTransactions
  imports VmPool
begin

section \<open>Transactions of virtual machines: \<open>transaction.go\<close>, \<open>virtualmachine_pool.go\<close>\<close>

text \<open>
  The webhook allocates before the API server has persisted the object, so each entry it makes
  carries the time of its transaction. \<open>MarkVMAsReady\<close>, run by the controller on the persisted
  object, settles the entries whose transaction is known to have persisted. (\<open>Heal\<close> has the
  periodic \<open>healStaleMacEntries\<close>, which settles the ones that waited too long.) The order in which
  the keys of the pool map are visited is the argument \<open>kord\<close>.

  Shown: what becomes of each entry of the machine when a transaction is settled, address by
  address, and that nothing else changes.
\<close>

definition key_order :: "(macKey set \<Rightarrow> macKey list) \<Rightarrow> bool" where
  "key_order kord \<longleftrightarrow> (\<forall>S. finite S \<longrightarrow> set (kord S) = S \<and> distinct (kord S))"

lemma key_order_sorted: "key_order sorted_list_of_set"
  by (simp add: key_order_def)

subsection \<open>Commit of a persisted transaction\<close>

definition commitChangesToMacPoolMap ::
    "(macKey set \<Rightarrow> macKey list) \<Rightarrow> macMap \<Rightarrow> virtual_machine \<Rightarrow> pool_manager \<Rightarrow> pool_manager run" where
  "commitChangesToMacPoolMap kord macsMapToCommit vm p =
     bind_run (getVirtualMachineInterfaces vm) (\<lambda>vmPersistedInterfaceList.
       Ret (p\<lparr>macPoolMap :=
              fold (\<lambda>macAddress m. alignMacEntryAccordingToVmInterface m (macKey_String macAddress)
                                     (VmNamespaced vm) vmPersistedInterfaceList)
                (kord (dom macsMapToCommit)) (macPoolMap p)\<rparr>))"

definition MarkVMAsReady ::
    "(macKey set \<Rightarrow> macKey list) \<Rightarrow> virtual_machine \<Rightarrow> time \<Rightarrow> pool_manager \<Rightarrow>
     (go_error option \<times> pool_manager) run" where
  "MarkVMAsReady kord vm latestPersistedTransactionTimeStamp p =
     (let vmFullName = VmNamespaced vm
      in case filterInByInstanceName (macPoolMap p) vmFullName of
           Inl err \<Rightarrow> Ret (Some (ErrWrap ''Failed to get VmMacMap for vm'' err), p)
         | Inr vmMacMap \<Rightarrow>
             (let vmMacMap' = filterMacsThatRequireCommit vmMacMap latestPersistedTransactionTimeStamp
              in if vmMacMap' \<noteq> Map.empty
                 then bind_run (commitChangesToMacPoolMap kord vmMacMap' vm p) (\<lambda>p1. Ret (None, p1))
                 else Ret (None, p)))"

text \<open>
  Times are printed and parsed by the \<open>time\<close> package in the layout \<open>RFC3339Nano\<close>; the two
  functions are arguments.
\<close>

definition TransactionTimestampAnnotation :: string where
  "TransactionTimestampAnnotation = ''kubemacpool.io/transaction-timestamp''"

definition SetTransactionTimestampAnnotationToVm ::
    "(time \<Rightarrow> string) \<Rightarrow> virtual_machine \<Rightarrow> time \<Rightarrow> virtual_machine run" where
  "SetTransactionTimestampAnnotationToVm format vm ts =
     (case vm_Annotations vm of
        None \<Rightarrow> Panics
      | Some annotations \<Rightarrow>
          Ret (vm\<lparr>vm_Annotations :=
                 Some (AList.update TransactionTimestampAnnotation (format ts) annotations)\<rparr>))"

definition GetTransactionTimestampAnnotationFromVm ::
    "(string \<Rightarrow> go_error + time) \<Rightarrow> virtual_machine \<Rightarrow> go_error + time" where
  "GetTransactionTimestampAnnotationFromVm parse vm =
     (case lookup_nil (vm_Annotations vm) TransactionTimestampAnnotation of
        None \<Rightarrow> Inl (ErrApi NotFound)
      | Some v \<Rightarrow> parse v)"

subsection \<open>Settling one address\<close>

text \<open>The machine's interface \<open>j\<close> uses the address \<open>k\<close>.\<close>

definition uses_mac :: "vm_interface list \<Rightarrow> macKey \<Rightarrow> string \<Rightarrow> bool" where
  "uses_mac ifaces k j \<longleftrightarrow> (\<exists>i\<in>set ifaces. NewMacKey (iface_MacAddress i) = k \<and> iface_Name i = j)"

text \<open>The object holds every address with at most one interface.\<close>

definition single_holder :: "macMap \<Rightarrow> string \<Rightarrow> bool" where
  "single_holder m inst \<longleftrightarrow>
     (\<forall>k j j'. (k, inst, j) \<in> holders m \<longrightarrow> (k, inst, j') \<in> holders m \<longrightarrow> j = j')"

definition settled :: "macMap \<Rightarrow> string \<Rightarrow> macKey \<Rightarrow> bool" where
  "settled m inst k \<longleftrightarrow>
     (\<forall>es e. m k = Some es \<longrightarrow> e \<in> set es \<longrightarrow> instanceName e = inst \<longrightarrow> transactionTimestamp e = None)"

lemma macKey_String_inject [simp]: "macKey_String k = macKey_String k' \<longleftrightarrow> k = k'"
  by (cases k; cases k') simp

lemma NewMacKey_normal: "normal_key k \<Longrightarrow> NewMacKey (macKey_String k) = k"
  by (auto simp: normal_key_def)

lemma holders_key: "m k = m' k \<Longrightarrow> (k, h) \<in> holders m \<longleftrightarrow> (k, h) \<in> holders m'"
  by (simp add: holders_def)

lemma align_other_key:
  assumes "normal_key k" "x \<noteq> k"
  shows "alignMacEntryAccordingToVmInterface m (macKey_String k) inst ifaces x = m x"
  using assms NewMacKey_normal [OF assms(1)]
  by (auto simp: alignMacEntryAccordingToVmInterface_def clearMacTransactionFromMacEntry_def
        removeInstanceFromMac_def store_entry_def Let_def split: sum.splits prod.splits)

lemma single_entry:
  assumes "macMap_ok m" "single_holder m inst" "m k = Some es" "e \<in> set es" "e' \<in> set es"
    "instanceName e = inst" "instanceName e' = inst"
  shows "e = e'"
proof -
  have "(k, inst, macInstanceKey e) \<in> holders m" "(k, inst, macInstanceKey e') \<in> holders m"
    using assms(3-7) by (auto simp: mem_holders)
  then have "holder e = holder e'"
    using assms(2,6,7) unfolding single_holder_def holder_def by auto
  moreover have "distinct (map holder es)" using macMap_okD [OF assms(1,3)] by (simp add: entries_ok_def)
  ultimately show ?thesis using assms(4,5) by (auto simp: distinct_map inj_on_def)
qed

lemma align_used:
  assumes "macMap_ok m" "normal_key k" "single_holder m inst" "(k, inst, j) \<in> holders m" "uses_mac ifaces k j"
  shows "holders (alignMacEntryAccordingToVmInterface m (macKey_String k) inst ifaces) = holders m"
    and "settled (alignMacEntryAccordingToVmInterface m (macKey_String k) inst ifaces) inst k"
proof -
  note k = NewMacKey_normal [OF assms(2)]
  obtain r where "findByMacAddressAndInstanceName m (macKey_String k) inst = Inr r"
    using find_instance_Inr_iff [of m "macKey_String k" inst] assms(4) k by auto
  then obtain e i where f: "findByMacAddressAndInstanceName m (macKey_String k) inst = Inr (e, i)"
    by (cases r) auto
  then obtain es where es: "m k = Some es" "entries_at m (macKey_String k) = es" "i < length es" "es ! i = e"
      "instanceName e = inst"
    by (rule find_instance_InrD) (simp add: k)
  have "e \<in> set es" using es(3,4) by auto
  with es(1,5) have "(k, inst, macInstanceKey e) \<in> holders m" by (auto simp: mem_holders)
  then have "macInstanceKey e = j" using assms(3,4) by (auto simp: single_holder_def)
  then have c: "alignMacEntryAccordingToVmInterface m (macKey_String k) inst ifaces =
      clearMacTransactionFromMacEntry m (macKey_String k) inst"
    using f assms(5) by (auto simp: alignMacEntryAccordingToVmInterface_def uses_mac_def list_ex_iff)
  then show "holders (alignMacEntryAccordingToVmInterface m (macKey_String k) inst ifaces) = holders m"
    by (simp add: pool_simps)
  have upd: "clearMacTransactionFromMacEntry m (macKey_String k) inst = m(k \<mapsto> es[i := resetTransaction e])"
    using f es(2) by (simp add: clearMacTransactionFromMacEntry_def store_entry_def k)
  have "transactionTimestamp e' = None" if e': "e' \<in> set (es[i := resetTransaction e])"
      "instanceName e' = inst" for e'
  proof -
    from e'(1) obtain l where l: "l < length es" "e' = (es[i := resetTransaction e]) ! l"
      by (auto simp: in_set_conv_nth)
    have "es ! l = es ! i" if "l \<noteq> i"
      using that l e'(2) es by (intro single_entry [OF assms(1,3) es(1)]) auto
    moreover have "distinct es" using macMap_okD [OF assms(1) es(1)] by (auto simp: entries_ok_def distinct_map)
    ultimately have "l = i" using l(1) es(3) by (metis nth_eq_iff_index_eq)
    with l es(3) show ?thesis by simp
  qed
  then show "settled (alignMacEntryAccordingToVmInterface m (macKey_String k) inst ifaces) inst k"
    by (simp add: c upd settled_def)
qed

lemma align_unused:
  assumes "macMap_ok m" "normal_key k" "single_holder m inst" "(k, inst, j) \<in> holders m" "\<not> uses_mac ifaces k j"
  shows "holders (alignMacEntryAccordingToVmInterface m (macKey_String k) inst ifaces) = holders m - {(k, inst, j)}"
proof -
  note k = NewMacKey_normal [OF assms(2)]
  obtain r where "findByMacAddressAndInstanceName m (macKey_String k) inst = Inr r"
    using find_instance_Inr_iff [of m "macKey_String k" inst] assms(4) k by auto
  then obtain e i where f: "findByMacAddressAndInstanceName m (macKey_String k) inst = Inr (e, i)"
    by (cases r) auto
  then obtain es where es: "m k = Some es" "i < length es" "es ! i = e" "instanceName e = inst"
    by (rule find_instance_InrD) (simp add: k)
  then have "e \<in> set es" by auto
  with es have "(k, inst, macInstanceKey e) \<in> holders m" by (auto simp: mem_holders)
  then have "macInstanceKey e = j" using assms(3,4) by (auto simp: single_holder_def)
  then have "alignMacEntryAccordingToVmInterface m (macKey_String k) inst ifaces =
      removeInstanceFromMac m (macKey_String k) inst"
    using f assms(5) by (auto simp: alignMacEntryAccordingToVmInterface_def uses_mac_def list_ex_iff)
  with holders_removeInstanceFromMac [OF assms(1), of "macKey_String k" inst] assms(3,4)
  show ?thesis unfolding k single_holder_def by metis
qed

lemma align_absent:
  assumes "normal_key k" "\<And>j. (k, inst, j) \<notin> holders m"
  shows "alignMacEntryAccordingToVmInterface m (macKey_String k) inst ifaces = m"
  using assms find_instance_Inr_iff [of m "macKey_String k" inst] NewMacKey_normal [OF assms(1)]
  by (auto simp: alignMacEntryAccordingToVmInterface_def split: sum.splits)

text \<open>One step: the address stays with the interface that uses it, and is settled.\<close>

lemma align_key:
  assumes "macMap_ok m" "normal_key k" "single_holder m inst"
    and m1_def: "m1 = alignMacEntryAccordingToVmInterface m (macKey_String k) inst ifaces"
  shows "(k, inst, j) \<in> holders m1 \<longleftrightarrow> (k, inst, j) \<in> holders m \<and> uses_mac ifaces k j"
    and "settled m1 inst k" and "holders m1 \<subseteq> holders m"
proof -
  consider (absent) "\<And>j. (k, inst, j) \<notin> holders m"
    | (used) j' where "(k, inst, j') \<in> holders m" "uses_mac ifaces k j'"
    | (unused) j' where "(k, inst, j') \<in> holders m" "\<not> uses_mac ifaces k j'"
    by blast
  then have "((k, inst, j) \<in> holders m1 \<longleftrightarrow> (k, inst, j) \<in> holders m \<and> uses_mac ifaces k j) \<and>
      settled m1 inst k \<and> holders m1 \<subseteq> holders m"
  proof cases
    case absent
    with align_absent [OF assms(2) absent, of ifaces] show ?thesis
      by (auto simp: m1_def settled_def mem_holders)
  next
    case (used j')
    with align_used [OF assms(1-3) used] assms(3) show ?thesis
      by (auto simp: m1_def single_holder_def)
  next
    case (unused j')
    have h: "holders m1 = holders m - {(k, inst, j')}" using align_unused [OF assms(1-3) unused] by (simp add: m1_def)
    then have none: "(k, inst, i) \<notin> holders m1" for i using unused(1) assms(3) by (auto simp: single_holder_def)
    have "\<not> ((k, inst, j) \<in> holders m \<and> uses_mac ifaces k j)"
      using unused assms(3) by (auto simp: single_holder_def)
    with h none none [unfolded mem_holders] show ?thesis unfolding settled_def by blast
  qed
  then show "(k, inst, j) \<in> holders m1 \<longleftrightarrow> (k, inst, j) \<in> holders m \<and> uses_mac ifaces k j"
    "settled m1 inst k" "holders m1 \<subseteq> holders m" by simp_all
qed

subsection \<open>Settling a list of addresses\<close>

abbreviation align_all where
  "align_all inst ifaces ks m \<equiv>
     fold (\<lambda>k m. alignMacEntryAccordingToVmInterface m (macKey_String k) inst ifaces) ks m"

lemma align_all_ok: "macMap_ok m \<Longrightarrow> macMap_ok (align_all inst ifaces ks m)"
  by (induction ks arbitrary: m) (auto intro: pool_intros)

lemma align_all_others: "others inst (align_all inst ifaces ks m) = others inst m"
  by (induction ks arbitrary: m) (auto simp: pool_simps)

lemma align_all_stamps: "stamped_entries (align_all inst ifaces ks m) \<subseteq> stamped_entries m"
proof (induction ks arbitrary: m)
  case (Cons k ks)
  from Cons [of "alignMacEntryAccordingToVmInterface m (macKey_String k) inst ifaces"]
    stamped_alignMacEntryAccordingToVmInterface [of m "macKey_String k" inst ifaces]
  show ?case by simp
qed simp

lemma align_all_other_key:
  "\<forall>k\<in>set ks. normal_key k \<Longrightarrow> x \<notin> set ks \<Longrightarrow> align_all inst ifaces ks m x = m x"
  by (induction ks arbitrary: m) (auto simp: align_other_key)

lemma single_holder_subset: "single_holder m inst \<Longrightarrow> holders m' \<subseteq> holders m \<Longrightarrow> single_holder m' inst"
  unfolding single_holder_def by blast

lemma align_all_key:
  assumes "macMap_ok m" "single_holder m inst" "distinct ks" "\<forall>k\<in>set ks. normal_key k" "k \<in> set ks"
  shows "((k, inst, j) \<in> holders (align_all inst ifaces ks m) \<longleftrightarrow>
      (k, inst, j) \<in> holders m \<and> uses_mac ifaces k j) \<and> settled (align_all inst ifaces ks m) inst k"
  using assms
proof (induction ks arbitrary: m)
  case (Cons x ks)
  let ?m = "alignMacEntryAccordingToVmInterface m (macKey_String x) inst ifaces"
  have x: "normal_key x" using Cons.prems(4) by simp
  have m: "macMap_ok ?m" "single_holder ?m inst"
    using Cons.prems(1) single_holder_subset [OF Cons.prems(2) align_key(3) [OF Cons.prems(1) x Cons.prems(2) refl]]
    by (auto intro: pool_intros)
  show ?case
  proof (cases "k = x")
    case True
    then have same: "align_all inst ifaces ks ?m k = ?m k"
      using Cons.prems(3,4) by (intro align_all_other_key) auto
    then have h: "(k, inst, j) \<in> holders (align_all inst ifaces ks ?m) \<longleftrightarrow> (k, inst, j) \<in> holders ?m"
      by (rule holders_key)
    show ?thesis
      using h same align_key [OF Cons.prems(1) x Cons.prems(2) refl, where ifaces = ifaces] True
      by (simp add: settled_def)
  next
    case False
    then have "?m k = m k" using x by (simp add: align_other_key)
    with Cons.IH [OF m] Cons.prems(3-5) False show ?thesis by (simp add: holders_key [of ?m k m])
  qed
qed simp

subsection \<open>The commit\<close>

text \<open>The machine has an entry at the address whose transaction has persisted.\<close>

definition ready_at :: "macMap \<Rightarrow> string \<Rightarrow> time \<Rightarrow> macKey \<Rightarrow> bool" where
  "ready_at m inst t k \<longleftrightarrow>
     (\<exists>es e. m k = Some es \<and> e \<in> set es \<and> instanceName e = inst \<and> hasReadyTransaction e t)"

lemma dom_commit:
  assumes "filterInByInstanceName m inst = Inr vmMacMap"
  shows "dom (filterMacsThatRequireCommit vmMacMap t) = {k. ready_at m inst t k}"
proof -
  have "filterMacsThatRequireCommit vmMacMap t k \<noteq> None \<longleftrightarrow> ready_at m inst t k" for k
  proof (cases "vmMacMap k")
    case None
    then have "\<not> (\<exists>es. m k = Some es \<and> filter (\<lambda>e. instanceName e = inst) es \<noteq> [])"
      using filterInByInstanceName_apply [OF assms, of k] by auto
    with None show ?thesis
      by (auto simp: filterMacsThatRequireCommit_def ready_at_def filter_empty_conv)
  next
    case (Some fs)
    then obtain es where "m k = Some es" "fs = filter (\<lambda>e. instanceName e = inst) es"
      using filterInByInstanceName_apply [OF assms, of k fs] by auto
    with Some show ?thesis
      by (auto simp: filterMacsThatRequireCommit_def ready_at_def hasReadyTransaction_def
            filter_empty_conv Let_def)
  qed
  then show ?thesis by (auto simp: dom_def)
qed

lemma MarkVMAsReady_eq:
  assumes "vm_Template vm = Some t" "macMap_ok (macPoolMap p)" "key_order kord"
  obtains ks where "MarkVMAsReady kord vm ts p =
      Ret (None, p\<lparr>macPoolMap := align_all (VmNamespaced vm) (Interfaces t) ks (macPoolMap p)\<rparr>)"
    "distinct ks" "set ks = {k. ready_at (macPoolMap p) (VmNamespaced vm) ts k}" "\<forall>k\<in>set ks. normal_key k"
proof -
  let ?S = "{k. ready_at (macPoolMap p) (VmNamespaced vm) ts k}"
  obtain m' where m': "filterInByInstanceName (macPoolMap p) (VmNamespaced vm) = Inr m'"
    using filterInByInstanceName_total by blast
  note d = dom_commit [OF m', of ts]
  have sub: "?S \<subseteq> dom (macPoolMap p)" by (auto simp: ready_at_def)
  then have "finite ?S" using assms(2) finite_subset unfolding macMap_ok_def by blast
  then have ks: "distinct (kord ?S)" "set (kord ?S) = ?S" using assms(3) by (auto simp: key_order_def)
  have n: "\<forall>k\<in>?S. normal_key k" using sub assms(2) by (auto simp: macMap_ok_def)
  show thesis
  proof (cases "?S = {}")
    case True
    then have "filterMacsThatRequireCommit m' ts = Map.empty" using d by auto
    then show ?thesis using True by (intro that [of "[]"]) (auto simp: MarkVMAsReady_def m')
  next
    case False
    then have "filterMacsThatRequireCommit m' ts \<noteq> Map.empty" using d by auto
    then show ?thesis
      using assms(1) d ks n
      by (intro that [of "kord ?S"])
         (simp_all add: MarkVMAsReady_def m' commitChangesToMacPoolMap_def getVirtualMachineInterfaces_def)
  qed
qed

subsection \<open>The entries of one object at one address\<close>

definition entries_of :: "macMap \<Rightarrow> macKey \<Rightarrow> string \<Rightarrow> macEntry list" where
  "entries_of m k inst = filter (\<lambda>e. instanceName e = inst) (case m k of None \<Rightarrow> [] | Some es \<Rightarrow> es)"

definition settle :: "vm_interface list \<Rightarrow> macKey \<Rightarrow> macEntry list \<Rightarrow> macEntry list" where
  "settle ifaces k es = (case es of
     [] \<Rightarrow> []
   | e # rest \<Rightarrow> if uses_mac ifaces k (macInstanceKey e) then resetTransaction e # rest else rest)"

lemma entries_of_Nil: "entries_of m k inst = [] \<longleftrightarrow> (\<forall>j. (k, inst, j) \<notin> holders m)"
  by (cases "m k") (auto simp: entries_of_def mem_holders filter_empty_conv)

lemma entries_of_others:
  assumes "others i m' = others i m" "inst \<noteq> i"
  shows "entries_of m' k inst = entries_of m k inst"
proof -
  have "entries_of m k inst =
      filter (\<lambda>e. instanceName e = inst) (case others i m k of None \<Rightarrow> [] | Some es \<Rightarrow> es)" for m
    using assms(2)
    by (auto simp: entries_of_def others_def Let_def filter_empty_conv intro!: filter_cong
          split: option.split)
  then show ?thesis using assms(1) by metis
qed

lemma filter_split_nth:
  "i < length xs \<Longrightarrow> P (xs ! i) \<Longrightarrow> \<forall>x\<in>set (take i xs). \<not> P x \<Longrightarrow>
     filter P xs = xs ! i # filter P (drop (Suc i) xs)"
  by (subst (1) id_take_nth_drop [of i xs]) (auto simp: filter_empty_conv)

lemma entries_of_find:
  assumes "findByMacAddressAndInstanceName m mac inst = Inr (e, i)" "m (NewMacKey mac) = Some es"
  shows "entries_of m (NewMacKey mac) inst = e # filter (\<lambda>e. instanceName e = inst) (drop (Suc i) es)"
  using assms filter_split_nth [of i es "\<lambda>e. instanceName e = inst"]
  by (auto simp: entries_of_def elim!: find_instance_InrD)

lemma entries_of_remove:
  "entries_of (removeInstanceFromMac m mac inst) (NewMacKey mac) inst = tl (entries_of m (NewMacKey mac) inst)"
proof (cases "findByMacAddressAndInstanceName m mac inst")
  case (Inl err)
  then have "entries_of m (NewMacKey mac) inst = []"
    using find_instance_InlD [OF Inl] by (simp add: entries_of_Nil)
  with Inl show ?thesis by (simp add: removeInstanceFromMac_def)
next
  case (Inr r)
  obtain e i where r: "r = (e, i)" by (cases r)
  with Inr obtain es where es: "m (NewMacKey mac) = Some es" "entries_at m mac = es" "i < length es"
      "\<forall>x\<in>set (take i es). instanceName x \<noteq> inst"
    by (auto elim: find_instance_InrD)
  have "entries_of (removeInstanceFromMac m mac inst) (NewMacKey mac) inst =
      filter (\<lambda>e. instanceName e = inst) (drop (Suc i) es)"
    using Inr r es by (auto simp: removeInstanceFromMac_def entries_of_def Let_def filter_empty_conv)
  with entries_of_find [OF Inr [unfolded r] es(1)] show ?thesis by simp
qed

lemma entries_of_clear:
  assumes "findByMacAddressAndInstanceName m mac inst = Inr (e, i)"
  shows "entries_of (clearMacTransactionFromMacEntry m mac inst) (NewMacKey mac) inst =
     resetTransaction e # tl (entries_of m (NewMacKey mac) inst)"
  using assms
proof (rule find_instance_InrD)
  fix es
  assume es: "m (NewMacKey mac) = Some es" "entries_at m mac = es" "i < length es" "es ! i = e"
    "instanceName e = inst" "\<forall>x\<in>set (take i es). instanceName x \<noteq> inst"
  have "entries_of (clearMacTransactionFromMacEntry m mac inst) (NewMacKey mac) inst =
      filter (\<lambda>e. instanceName e = inst) (es[i := resetTransaction e])"
    using assms es by (simp add: clearMacTransactionFromMacEntry_def store_entry_def entries_of_def)
  also have "\<dots> = resetTransaction e # filter (\<lambda>e. instanceName e = inst) (drop (Suc i) es)"
    using es by (subst filter_split_nth [of i]) auto
  finally show ?thesis using entries_of_find [OF assms es(1)] by simp
qed

lemma entries_of_align:
  assumes "normal_key k"
  shows "entries_of (alignMacEntryAccordingToVmInterface m (macKey_String k) inst ifaces) k inst =
     settle ifaces k (entries_of m k inst)"
proof (cases "findByMacAddressAndInstanceName m (macKey_String k) inst")
  case (Inl err)
  then have "entries_of m k inst = []"
    using find_instance_InlD [OF Inl] NewMacKey_normal [OF assms] by (simp add: entries_of_Nil)
  with Inl show ?thesis by (simp add: alignMacEntryAccordingToVmInterface_def settle_def)
next
  case (Inr r)
  obtain e i where f: "findByMacAddressAndInstanceName m (macKey_String k) inst = Inr (e, i)"
    using Inr by (cases r) auto
  note k = NewMacKey_normal [OF assms]
  obtain es where "m k = Some es" using f by (rule find_instance_InrD) (simp add: k)
  then have en: "entries_of m k inst = e # filter (\<lambda>e. instanceName e = inst) (drop (Suc i) es)"
    using entries_of_find [OF f] k by simp
  have "uses_mac ifaces k (macInstanceKey e) \<longleftrightarrow>
      list_ex (\<lambda>iface. macKey_String (NewMacKey (iface_MacAddress iface)) = macKey_String k \<and>
        iface_Name iface = macInstanceKey e) ifaces"
    by (auto simp: uses_mac_def list_ex_iff)
  then show ?thesis
    using f entries_of_clear [OF f] entries_of_remove [of m "macKey_String k" inst]
    by (simp add: alignMacEntryAccordingToVmInterface_def settle_def en k)
qed

text \<open>An operation on one object at one address leaves every other pair of them alone.\<close>

lemma entries_of_align_other:
  assumes "normal_key k" "(x, inst) \<noteq> (k, i)"
  shows "entries_of (alignMacEntryAccordingToVmInterface m (macKey_String k) i ifaces) x inst = entries_of m x inst"
proof (cases "x = k")
  case True
  then show ?thesis using assms(2) by (intro entries_of_others [of i]) (auto simp: pool_simps)
next
  case False
  then show ?thesis using assms(1) by (simp add: entries_of_def align_other_key)
qed

lemma entries_of_remove_other:
  assumes "(x, inst) \<noteq> (NewMacKey mac, i)"
  shows "entries_of (removeInstanceFromMac m mac i) x inst = entries_of m x inst"
proof (cases "x = NewMacKey mac")
  case True
  then show ?thesis using assms by (intro entries_of_others [of i]) (auto simp: pool_simps)
next
  case False
  then have "removeInstanceFromMac m mac i x = m x"
    by (auto simp: removeInstanceFromMac_def Let_def split: sum.splits)
  then show ?thesis by (simp add: entries_of_def)
qed

subsection \<open>Properties of a commit\<close>

definition sample_key :: macKey where
  "sample_key = MacKey (hw_String [2, 0, 0, 0, 0, 7])"

definition sample_map :: macMap where
  "sample_map = [sample_key \<mapsto> [\<lparr>instanceName = ''vm/default/vm1'', macInstanceKey = ''br1'',
     transactionTimestamp = Some 5\<rparr>]]"

lemma sample_map_facts:
  "macMap_ok sample_map" "single_holder sample_map ''vm/default/vm1''"
  "ready_at sample_map ''vm/default/vm1'' 7 sample_key"
proof -
  have n: "normal_key sample_key"
    unfolding normal_key_def sample_key_def by (intro exI [of _ "[2, 0, 0, 0, 0, 7]"]) (simp add: hw_length_ok_iff)
  show "macMap_ok sample_map"
    using n by (auto simp: macMap_ok_def sample_map_def entries_ok_def split: if_splits)
  show "single_holder sample_map ''vm/default/vm1''"
    by (auto simp: single_holder_def mem_holders sample_map_def split: if_splits)
  show "ready_at sample_map ''vm/default/vm1'' 7 sample_key"
    by (simp add: ready_at_def sample_map_def hasReadyTransaction_iff)
qed

text \<open>
  What a commit with the timestamp \<open>ts\<close> makes of the map \<open>m\<close> for the object \<open>owner\<close> with the
  interfaces \<open>ifaces\<close>: only the object's ready addresses change, and each is settled by whether the
  interface that holds it uses it.
\<close>

definition committed :: "string \<Rightarrow> vm_interface list \<Rightarrow> time \<Rightarrow> macMap \<Rightarrow> macMap \<Rightarrow> bool" where
  "committed owner ifaces ts m m' \<longleftrightarrow> macMap_ok m' \<and> others owner m' = others owner m \<and>
     (\<forall>k. if ready_at m owner ts k
          then settled m' owner k \<and>
            (\<forall>j. (k, owner, j) \<in> holders m' \<longleftrightarrow> (k, owner, j) \<in> holders m \<and> uses_mac ifaces k j)
          else m' k = m k)"

lemma MarkVMAsReady_commits:
  assumes "vm_Template vm = Some t" "macMap_ok (macPoolMap p)" "key_order kord"
    and "single_holder (macPoolMap p) (VmNamespaced vm)"
  shows "\<exists>m. MarkVMAsReady kord vm ts p = Ret (None, p\<lparr>macPoolMap := m\<rparr>) \<and>
     committed (VmNamespaced vm) (Interfaces t) ts (macPoolMap p) m"
proof -
  obtain ks where ks: "MarkVMAsReady kord vm ts p =
      Ret (None, p\<lparr>macPoolMap := align_all (VmNamespaced vm) (Interfaces t) ks (macPoolMap p)\<rparr>)"
    "distinct ks" "set ks = {k. ready_at (macPoolMap p) (VmNamespaced vm) ts k}" "\<forall>k\<in>set ks. normal_key k"
    using assms(1-3) by (rule MarkVMAsReady_eq)
  let ?m = "align_all (VmNamespaced vm) (Interfaces t) ks (macPoolMap p)"
  have "macMap_ok ?m" "others (VmNamespaced vm) ?m = others (VmNamespaced vm) (macPoolMap p)"
    using assms(2) by (simp_all add: align_all_ok align_all_others)
  moreover have "?m k = macPoolMap p k" if "\<not> ready_at (macPoolMap p) (VmNamespaced vm) ts k" for k
    using that ks(3) by (intro align_all_other_key [OF ks(4)]) simp
  ultimately show ?thesis
    using ks(1,3) align_all_key [OF assms(2,4) ks(2,4)] by (intro exI [of _ ?m]) (auto simp: committed_def)
qed

text \<open>C14: \<open>MarkVMAsReady\<close> on a machine with a template always succeeds, in whatever order it visits
  the addresses. It touches only the addresses at which the machine has an entry whose transaction is
  not later than the persisted one, and there only the machine's own entries. Where the machine holds
  each address with one interface, such an address stays held exactly by the interface of the
  persisted machine that uses it, with no pending transaction, and is freed otherwise.\<close>

theorem MarkVMAsReady_settles:
  assumes "vm_Template vm = Some t" "macMap_ok (macPoolMap p)" "key_order kord"
    and "single_holder (macPoolMap p) (VmNamespaced vm)"
  shows "\<exists>m. MarkVMAsReady kord vm ts p = Ret (None, p\<lparr>macPoolMap := m\<rparr>) \<and> macMap_ok m \<and>
     others (VmNamespaced vm) m = others (VmNamespaced vm) (macPoolMap p) \<and>
     (\<forall>k. if ready_at (macPoolMap p) (VmNamespaced vm) ts k
          then settled m (VmNamespaced vm) k \<and>
            (\<forall>j. (k, VmNamespaced vm, j) \<in> holders m \<longleftrightarrow>
               (k, VmNamespaced vm, j) \<in> holders (macPoolMap p) \<and> uses_mac (Interfaces t) k j)
          else m k = macPoolMap p k)"
  using MarkVMAsReady_commits [OF assms] unfolding committed_def .

theorem MarkVMAsReady_settles_witness:
  "\<exists>m. MarkVMAsReady sorted_list_of_set sample_vm 7 (sample_pool\<lparr>macPoolMap := sample_map\<rparr>) =
       Ret (None, sample_pool\<lparr>macPoolMap := m\<rparr>) \<and> (\<forall>j. (sample_key, ''vm/default/vm1'', j) \<notin> holders m)"
proof -
  have "VmNamespaced sample_vm = ''vm/default/vm1''" by (simp add: VmNamespaced_def sample_vm_def)
  moreover have unused: "\<not> uses_mac (Interfaces sample_template) sample_key j" for j
    using NewMacKey_eq_Nil_iff [of "[]"]
    by (auto simp: uses_mac_def sample_template_def sample_iface_def sample_key_def NewMacKey_def
          ParseMAC_def)
  moreover note MarkVMAsReady_settles [OF sample_vm_Template _ key_order_sorted, of
        "sample_pool\<lparr>macPoolMap := sample_map\<rparr>" 7]
  ultimately obtain m where m: "MarkVMAsReady sorted_list_of_set sample_vm 7
      (sample_pool\<lparr>macPoolMap := sample_map\<rparr>) = Ret (None, sample_pool\<lparr>macPoolMap := m\<rparr>)"
    and all: "\<forall>k. ready_at sample_map ''vm/default/vm1'' 7 k \<longrightarrow>
      (\<forall>j. (k, ''vm/default/vm1'', j) \<in> holders m \<longrightarrow> uses_mac (Interfaces sample_template) k j)"
    using sample_map_facts by (fastforce split: if_splits)
  have "(sample_key, ''vm/default/vm1'', j) \<notin> holders m" for j
    using all unused sample_map_facts(3) by blast
  with m show ?thesis by blast
qed

end
