(* ===== verification/Heal.thy ===== *)
theory Heal
  imports VmTransactions
begin

section \<open>Healing: \<open>healStaleMacEntries\<close> of \<open>virtualmachine_pool.go\<close>\<close>

text \<open>
  Every three seconds a loop looks for entries whose transaction has waited longer than the
  configured time, that is, the webhook answered but the object was never seen to persist. It asks
  the cluster for the machine of each stale entry and aligns the pool with the answer. The scan
  collects what to do in two maps, \<open>macsToRemove\<close> and \<open>macsToAlign\<close>, and an error other than
  \<open>not found\<close> ends the call before anything is changed.

  The orders in which Go visits the pool map and the two local maps are the arguments \<open>kord\<close>,
  \<open>ordR\<close> and \<open>ordA\<close>. The source reads the clock and asks the API server anew for every entry of a scan; here a scan has one
  time \<open>now\<close> and one cluster, as if it took no time.

  Shown: the call always returns (the entry names never make \<open>getvmInstance\<close> index out of range);
  only objects with a stale entry at an address lose or change their entries there; a stale entry of
  an existing machine is settled by what the machine uses.
\<close>

subsection \<open>Healing of stale entries\<close>

definition getvmInstance :: "kube \<Rightarrow> string \<Rightarrow> (go_error + virtual_machine) run" where
  "getvmInstance k vmFullName =
     (let vmFullNameSplit = split_on (CHR ''/'') vmFullName
      in if length vmFullNameSplit \<le> 2 then Panics
         else let vmNamespace = vmFullNameSplit ! 1; vmName = vmFullNameSplit ! 2
              in if vmNamespace = [] \<or> vmName = [] then Ret (Inl ErrVmName)
                 else case get_vm k vmNamespace vmName of
                        Inl e \<Rightarrow> Ret (Inl (ErrApi e))
                      | Inr vm \<Rightarrow> Ret (Inr vm))"

record heal_maps =
  macsToRemove :: "(string, string) gomap"
  macsToAlign :: "(string, virtual_machine list) gomap"

text \<open>The body of the scan for one entry of one key; an error ends the whole call.\<close>

definition scan_entry ::
    "kube \<Rightarrow> time \<Rightarrow> int \<Rightarrow> macKey \<times> macEntry \<Rightarrow> heal_maps \<Rightarrow> (go_error option \<times> heal_maps) run" where
  "scan_entry k now wait = (\<lambda>(macAddress, entry) h.
     if hasExpiredTransaction now entry wait
     then bind_run (getvmInstance k (instanceName entry)) (\<lambda>r. case r of
            Inl err \<Rightarrow>
              if IsNotFound err
              then Ret (None, h\<lparr>macsToRemove := AList.update (macKey_String macAddress)
                                   (instanceName entry) (macsToRemove h)\<rparr>)
              else Ret (Some err, h)
          | Inr vm \<Rightarrow>
              Ret (None, h\<lparr>macsToAlign := AList.update (macKey_String macAddress)
                 ((case map_of (macsToAlign h) (macKey_String macAddress) of
                     None \<Rightarrow> [] | Some vms \<Rightarrow> vms) @ [vm]) (macsToAlign h)\<rparr>))
     else Ret (None, h))"

definition entries_in_order :: "macKey list \<Rightarrow> macMap \<Rightarrow> (macKey \<times> macEntry) list" where
  "entries_in_order ks m =
     concat (map (\<lambda>k. map (\<lambda>e. (k, e)) (case m k of None \<Rightarrow> [] | Some es \<Rightarrow> es)) ks)"

definition align_vm :: "string \<times> virtual_machine \<Rightarrow> macMap \<Rightarrow> (go_error option \<times> macMap) run" where
  "align_vm = (\<lambda>(macAddress, vm) m.
     bind_run (getVirtualMachineInterfaces vm) (\<lambda>ifaces.
       Ret (None, alignMacEntryAccordingToVmInterface m macAddress (VmNamespaced vm) ifaces)))"

definition healStaleMacEntries ::
    "kube \<Rightarrow> (macKey set \<Rightarrow> macKey list) \<Rightarrow> ((string \<times> string) list \<Rightarrow> (string \<times> string) list) \<Rightarrow>
     ((string \<times> virtual_machine list) list \<Rightarrow> (string \<times> virtual_machine list) list) \<Rightarrow> time \<Rightarrow>
     pool_manager \<Rightarrow> (go_error option \<times> pool_manager) run" where
  "healStaleMacEntries k kord ordR ordA now p =
     bind_run (for_each (scan_entry k now (waitTime p))
                 (entries_in_order (kord (dom (macPoolMap p))) (macPoolMap p))
                 \<lparr>macsToRemove = [], macsToAlign = []\<rparr>) (\<lambda>(e, h). case e of
       Some err \<Rightarrow> Ret (Some err, p)
     | None \<Rightarrow>
         if macsToRemove h = [] \<and> macsToAlign h = [] then Ret (None, p)
         else (let m1 = fold (\<lambda>(macAddress, inst) m. removeInstanceFromMac m macAddress inst)
                          (ordR (macsToRemove h)) (macPoolMap p)
               in bind_run (for_each align_vm
                     (concat (map (\<lambda>(macAddress, vms). map (\<lambda>vm. (macAddress, vm)) vms)
                        (ordA (macsToAlign h)))) m1)
                    (\<lambda>(_, m2). Ret (None, p\<lparr>macPoolMap := m2\<rparr>))))"

subsection \<open>The machine behind an entry\<close>

text \<open>Kubernetes names have no slash; the name of a machine that the API server has still to generate is
  empty when the webhook sees it.\<close>

definition vm_name :: "string \<Rightarrow> bool" where
  "vm_name inst \<longleftrightarrow> (\<exists>ns n. inst = ''vm/'' @ ns @ ''/'' @ n \<and> CHR ''/'' \<notin> set ns \<and> CHR ''/'' \<notin> set n)"

text \<open>What the API promises: an object read has the name asked for, and a template (it is required).\<close>

definition kube_vm_ok :: "kube \<Rightarrow> bool" where
  "kube_vm_ok k \<longleftrightarrow> (\<forall>ns n vm. get_vm k ns n = Inr vm \<longrightarrow>
     vm_Namespace vm = ns \<and> vm_Name vm = n \<and> vm_Template vm \<noteq> None)"

lemma split_vm_name:
  "CHR ''/'' \<notin> set ns \<Longrightarrow> CHR ''/'' \<notin> set n \<Longrightarrow>
     split_on (CHR ''/'') (''vm/'' @ ns @ ''/'' @ n) = [''vm'', ns, n]"
  using split_on_sep [of "CHR ''/''" "''vm''" "ns @ CHR ''/'' # n"]
    split_on_sep [of "CHR ''/''" ns n] split_on_no_sep [of "CHR ''/''" n] by simp

lemma getvmInstance_vm_name:
  assumes "CHR ''/'' \<notin> set ns" "CHR ''/'' \<notin> set n"
  shows "getvmInstance k (''vm/'' @ ns @ ''/'' @ n) =
     Ret (if ns = [] \<or> n = [] then Inl ErrVmName
          else case get_vm k ns n of Inl e \<Rightarrow> Inl (ErrApi e) | Inr vm \<Rightarrow> Inr vm)"
  unfolding getvmInstance_def split_vm_name [OF assms] by (simp split: sum.split)

lemma getvmInstance_returns:
  assumes "vm_name inst" "kube_vm_ok k"
  shows "\<exists>r. getvmInstance k inst = Ret r \<and>
     (\<forall>vm. r = Inr vm \<longrightarrow> VmNamespaced vm = inst \<and> vm_Template vm \<noteq> None)"
proof -
  from assms(1) obtain ns n where n: "inst = ''vm/'' @ ns @ ''/'' @ n"
      "CHR ''/'' \<notin> set ns" "CHR ''/'' \<notin> set n"
    by (auto simp: vm_name_def)
  show ?thesis
    unfolding n(1) getvmInstance_vm_name [OF n(2,3)]
    using assms(2) by (auto simp: kube_vm_ok_def VmNamespaced_def split: sum.splits)
qed

subsection \<open>The scan\<close>

definition stale_at :: "macMap \<Rightarrow> time \<Rightarrow> int \<Rightarrow> macKey \<Rightarrow> string \<Rightarrow> bool" where
  "stale_at m now wait k inst \<longleftrightarrow> (\<exists>e\<in>set (entries_of m k inst). hasExpiredTransaction now e wait)"

text \<open>Every entry the healing may look up is a virtual machine's.\<close>

definition stale_names_ok :: "macMap \<Rightarrow> time \<Rightarrow> int \<Rightarrow> bool" where
  "stale_names_ok m now wait \<longleftrightarrow> (\<forall>k inst. stale_at m now wait k inst \<longrightarrow> vm_name inst)"

definition heal_inv :: "kube \<Rightarrow> macMap \<Rightarrow> time \<Rightarrow> int \<Rightarrow> heal_maps \<Rightarrow> bool" where
  "heal_inv k m now wait h \<longleftrightarrow>
     (\<forall>s inst. (s, inst) \<in> set (macsToRemove h) \<longrightarrow>
        (\<exists>key. s = macKey_String key \<and> stale_at m now wait key inst \<and>
           (\<exists>err. getvmInstance k inst = Ret (Inl err)))) \<and>
     (\<forall>s vms. (s, vms) \<in> set (macsToAlign h) \<longrightarrow> (\<forall>vm\<in>set vms.
        (\<exists>key. s = macKey_String key \<and> stale_at m now wait key (VmNamespaced vm)) \<and>
        getvmInstance k (VmNamespaced vm) = Ret (Inr vm) \<and> vm_Template vm \<noteq> None))"

lemma entries_in_order_iff:
  "(key, e) \<in> set (entries_in_order ks m) \<longleftrightarrow> key \<in> set ks \<and> (\<exists>es. m key = Some es \<and> e \<in> set es)"
proof (induction ks)
  case (Cons a ks)
  then show ?case by (cases "m a") (auto simp: entries_in_order_def)
qed (simp add: entries_in_order_def)

lemma mem_entries_of:
  "e \<in> set (entries_of m key inst) \<longleftrightarrow> instanceName e = inst \<and> (\<exists>es. m key = Some es \<and> e \<in> set es)"
  by (cases "m key") (auto simp: entries_of_def)

lemma scan_entry_inv:
  assumes "kube_vm_ok k" "stale_names_ok m now wait" "heal_inv k m now wait h"
    and "e \<in> set (entries_of m key (instanceName e))"
  shows "\<exists>r h'. scan_entry k now wait (key, e) h = Ret (r, h') \<and> heal_inv k m now wait h'"
proof (cases "hasExpiredTransaction now e wait")
  case True
  then have st: "stale_at m now wait key (instanceName e)" using assms(4) by (auto simp: stale_at_def)
  then have "vm_name (instanceName e)" using assms(2) by (auto simp: stale_names_ok_def)
  then obtain r where r: "getvmInstance k (instanceName e) = Ret r"
      "\<forall>vm. r = Inr vm \<longrightarrow> VmNamespaced vm = instanceName e \<and> vm_Template vm \<noteq> None"
    using getvmInstance_returns [OF _ assms(1)] by blast
  show ?thesis
  proof (cases r)
    case (Inl err)
    then show ?thesis
      using True r(1) st assms(3) set_update_subset [of "macKey_String key" "instanceName e" "macsToRemove h"]
      by (fastforce simp: scan_entry_def heal_inv_def)
  next
    case (Inr vm)
    let ?vms = "(case map_of (macsToAlign h) (macKey_String key) of None \<Rightarrow> [] | Some vms \<Rightarrow> vms) @ [vm]"
    have old: "(macKey_String key, vms) \<in> set (macsToAlign h)"
      if "map_of (macsToAlign h) (macKey_String key) = Some vms" for vms
      using that by (rule map_of_SomeD)
    have v: "(\<exists>key'. macKey_String key = macKey_String key' \<and> stale_at m now wait key' (VmNamespaced x)) \<and>
        getvmInstance k (VmNamespaced x) = Ret (Inr x) \<and> vm_Template x \<noteq> None" if "x \<in> set ?vms" for x
      using that r Inr st assms(3) old
      by (cases "map_of (macsToAlign h) (macKey_String key)") (fastforce simp: heal_inv_def)+
    have "heal_inv k m now wait (h\<lparr>macsToAlign := AList.update (macKey_String key) ?vms (macsToAlign h)\<rparr>)"
      using assms(3) v set_update_subset [of "macKey_String key" ?vms "macsToAlign h"]
      unfolding heal_inv_def by (simp, blast)
    then show ?thesis using True r(1) Inr by (simp add: scan_entry_def)
  qed
qed (use assms in \<open>simp add: scan_entry_def\<close>)

text \<open>A stale entry of an existing machine is scheduled for alignment.\<close>

lemma scan_aligns:
  assumes "for_each (scan_entry k now wait) xs h = Ret (None, h')" "(key, e) \<in> set xs"
    and "hasExpiredTransaction now e wait" "getvmInstance k (instanceName e) = Ret (Inr vm)"
  shows "\<exists>vms. map_of (macsToAlign h') (macKey_String key) = Some vms \<and> vm \<in> set vms"
  using assms(1,2)
proof (rule for_each_establishes)
  show "\<And>s s'. scan_entry k now wait (key, e) s = Ret (None, s') \<Longrightarrow>
      \<exists>vms. map_of (macsToAlign s') (macKey_String key) = Some vms \<and> vm \<in> set vms"
    using assms(3,4) by (auto simp: scan_entry_def update_conv')
next
  fix y s s'
  assume y: "scan_entry k now wait y s = Ret (None, s')"
    and "\<exists>vms. map_of (macsToAlign s) (macKey_String key) = Some vms \<and> vm \<in> set vms"
  then obtain vms where vms: "map_of (macsToAlign s) (macKey_String key) = Some vms" "vm \<in> set vms" by blast
  obtain key' e' where y': "y = (key', e')" by (cases y)
  show "\<exists>vms. map_of (macsToAlign s') (macKey_String key) = Some vms \<and> vm \<in> set vms"
  proof (cases "hasExpiredTransaction now e' wait")
    case True
    with y obtain r where "getvmInstance k (instanceName e') = Ret r"
      by (auto simp: y' scan_entry_def bind_run_eq_Ret)
    with y vms True show ?thesis
      by (cases r; cases "key' = key") (auto simp: y' scan_entry_def update_conv' split: if_splits)
  qed (use y vms in \<open>simp add: y' scan_entry_def\<close>)
qed

subsection \<open>The changes\<close>

definition ifaces_of :: "virtual_machine \<Rightarrow> vm_interface list" where
  "ifaces_of vm = (case vm_Template vm of None \<Rightarrow> [] | Some t \<Rightarrow> Interfaces t)"

abbreviation remove_listed where
  "remove_listed L m \<equiv> fold (\<lambda>(macAddress, inst) m. removeInstanceFromMac m macAddress inst) L m"

abbreviation align_listed where
  "align_listed L m \<equiv> fold (\<lambda>(macAddress, vm) m.
     alignMacEntryAccordingToVmInterface m macAddress (VmNamespaced vm) (ifaces_of vm)) L m"

lemma for_each_align_vm:
  assumes "\<And>s vm. (s, vm) \<in> set L \<Longrightarrow> vm_Template vm \<noteq> None"
  shows "for_each align_vm L m = Ret (None, align_listed L m)"
proof (rule for_each_fold)
  fix x :: "string \<times> virtual_machine" and m
  assume x: "x \<in> set L"
  obtain s vm where sv: "x = (s, vm)" by (cases x)
  then obtain t where "vm_Template vm = Some t" using assms x by blast
  then show "align_vm x m = Ret (None, (case x of (macAddress, vm) \<Rightarrow> \<lambda>m.
      alignMacEntryAccordingToVmInterface m macAddress (VmNamespaced vm) (ifaces_of vm)) m)"
    by (simp add: sv align_vm_def getVirtualMachineInterfaces_def ifaces_of_def)
qed

lemma remove_listed_ok: "macMap_ok m \<Longrightarrow> macMap_ok (remove_listed L m)"
  by (induction L arbitrary: m) (auto intro: pool_intros)

lemma remove_listed_stamps: "stamped_entries (remove_listed L m) \<subseteq> stamped_entries m"
proof (induction L arbitrary: m)
  case (Cons x L)
  obtain s inst where x: "x = (s, inst)" by (cases x)
  from Cons [of "removeInstanceFromMac m s inst"] stamped_removeInstanceFromMac [of m s inst]
  show ?case by (simp add: x)
qed simp

lemma align_listed_stamps: "stamped_entries (align_listed L m) \<subseteq> stamped_entries m"
proof (induction L arbitrary: m)
  case (Cons x L)
  obtain s vm where x: "x = (s, vm)" by (cases x)
  from Cons [of "alignMacEntryAccordingToVmInterface m s (VmNamespaced vm) (ifaces_of vm)"]
    stamped_alignMacEntryAccordingToVmInterface [of m s "VmNamespaced vm" "ifaces_of vm"]
  show ?case by (simp add: x)
qed simp

lemma align_listed_ok: "macMap_ok m \<Longrightarrow> macMap_ok (align_listed L m)"
  by (induction L arbitrary: m) (auto intro: pool_intros)

lemma remove_listed_frame:
  "(\<And>s i. (s, i) \<in> set L \<Longrightarrow> (x, inst) \<noteq> (NewMacKey s, i)) \<Longrightarrow>
     entries_of (remove_listed L m) x inst = entries_of m x inst"
proof (induction L arbitrary: m)
  case (Cons l L)
  obtain s i where l: "l = (s, i)" by (cases l)
  have "(x, inst) \<noteq> (NewMacKey s, i)" using Cons.prems [of s i] l by simp
  then have "entries_of (removeInstanceFromMac m s i) x inst = entries_of m x inst"
    by (rule entries_of_remove_other)
  moreover have "entries_of (remove_listed L (removeInstanceFromMac m s i)) x inst =
      entries_of (removeInstanceFromMac m s i) x inst"
    using Cons.prems by (intro Cons.IH) auto
  ultimately show ?case by (simp add: l)
qed simp

text \<open>The list names normal addresses and machines that are the same for the same name.\<close>

definition align_list_ok :: "(string \<times> virtual_machine) list \<Rightarrow> bool" where
  "align_list_ok L \<longleftrightarrow> (\<forall>s vm. (s, vm) \<in> set L \<longrightarrow> (\<exists>key. normal_key key \<and> s = macKey_String key)) \<and>
     (\<forall>s vm s' vm'. (s, vm) \<in> set L \<longrightarrow> (s', vm') \<in> set L \<longrightarrow>
        VmNamespaced vm = VmNamespaced vm' \<longrightarrow> vm = vm')"

lemma align_list_ok_Cons:
  "align_list_ok ((s, vm) # L) \<Longrightarrow> align_list_ok L \<and> (\<exists>key. normal_key key \<and> s = macKey_String key)"
  unfolding align_list_ok_def by (meson list.set_intros)

lemma align_listed_frame:
  assumes "align_list_ok L"
    and "\<And>vm. (macKey_String x, vm) \<in> set L \<Longrightarrow> VmNamespaced vm \<noteq> inst"
  shows "entries_of (align_listed L m) x inst = entries_of m x inst"
  using assms
proof (induction L arbitrary: m)
  case (Cons l L)
  obtain s vm where l: "l = (s, vm)" by (cases l)
  obtain key where key: "normal_key key" "s = macKey_String key" and L: "align_list_ok L"
    using align_list_ok_Cons Cons.prems(1) l by blast
  have "(x, inst) \<noteq> (key, VmNamespaced vm)" using Cons.prems(2) [of vm] l key(2) by auto
  then have "entries_of (alignMacEntryAccordingToVmInterface m s (VmNamespaced vm) (ifaces_of vm)) x inst =
      entries_of m x inst"
    using key by (simp add: entries_of_align_other)
  with Cons.IH [OF L] Cons.prems(2) show ?case by (simp add: l)
qed simp

lemma settle_idem: "length es \<le> 1 \<Longrightarrow> settle ifs k (settle ifs k es) = settle ifs k es"
  by (cases es) (auto simp: settle_def)

lemma settle_length: "length (settle ifs k es) \<le> length es"
  by (cases es) (auto simp: settle_def)

lemma align_listed_effect:
  assumes "align_list_ok L" "(macKey_String x, vm) \<in> set L" "length (entries_of m x (VmNamespaced vm)) \<le> 1"
  shows "entries_of (align_listed L m) x (VmNamespaced vm) =
     settle (ifaces_of vm) x (entries_of m x (VmNamespaced vm))"
  using assms
proof (induction L arbitrary: m)
  case (Cons l L)
  obtain s v where l: "l = (s, v)" by (cases l)
  obtain key where key: "normal_key key" "s = macKey_String key" and L: "align_list_ok L"
    using align_list_ok_Cons Cons.prems(1) l by blast
  let ?m = "alignMacEntryAccordingToVmInterface m s (VmNamespaced v) (ifaces_of v)"
  show ?case
  proof (cases "key = x \<and> VmNamespaced v = VmNamespaced vm")
    case True
    then have "v = vm" using Cons.prems(1,2) unfolding align_list_ok_def l by (meson list.set_intros(1))
    then have one: "entries_of ?m x (VmNamespaced vm) =
        settle (ifaces_of vm) x (entries_of m x (VmNamespaced vm))"
      using True key entries_of_align [OF key(1)] by simp
    show ?thesis
    proof (cases "(macKey_String x, vm) \<in> set L")
      case True
      have "length (entries_of ?m x (VmNamespaced vm)) \<le> 1"
        using settle_length Cons.prems(3) unfolding one by (rule order_trans)
      from Cons.IH [OF L True this] one settle_idem [OF Cons.prems(3)] show ?thesis by (simp add: l)
    next
      case False
      have "VmNamespaced v' \<noteq> VmNamespaced vm" if "(macKey_String x, v') \<in> set L" for v'
      proof
        assume "VmNamespaced v' = VmNamespaced vm"
        then have "v' = vm" using that Cons.prems(1,2) unfolding align_list_ok_def
          by (meson list.set_intros(2))
        with that False show False by simp
      qed
      from align_listed_frame [OF L this] one show ?thesis by (simp add: l)
    qed
  next
    case False
    then have "entries_of ?m x (VmNamespaced vm) = entries_of m x (VmNamespaced vm)"
      using key by (auto intro: entries_of_align_other)
    moreover have "(macKey_String x, vm) \<in> set L" using False Cons.prems(2) l key(2) by auto
    ultimately show ?thesis using Cons.IH [OF L, of ?m] Cons.prems(3) by (simp add: l)
  qed
qed simp

subsection \<open>The whole call\<close>

definition align_list :: "((string \<times> virtual_machine list) list \<Rightarrow> (string \<times> virtual_machine list) list) \<Rightarrow>
    heal_maps \<Rightarrow> (string \<times> virtual_machine) list" where
  "align_list ordA h = concat (map (\<lambda>(s, vms). map (\<lambda>vm. (s, vm)) vms) (ordA (macsToAlign h)))"

lemma mem_align_list:
  "range_order ordA \<Longrightarrow>
     (s, vm) \<in> set (align_list ordA h) \<longleftrightarrow> (\<exists>vms. (s, vms) \<in> set (macsToAlign h) \<and> vm \<in> set vms)"
  by (auto simp: align_list_def range_order_set)

definition heal_ready ::
    "kube \<Rightarrow> (macKey set \<Rightarrow> macKey list) \<Rightarrow> ((string \<times> string) list \<Rightarrow> (string \<times> string) list) \<Rightarrow>
     ((string \<times> virtual_machine list) list \<Rightarrow> (string \<times> virtual_machine list) list) \<Rightarrow> time \<Rightarrow>
     pool_manager \<Rightarrow> bool" where
  "heal_ready k kord ordR ordA now p \<longleftrightarrow> kube_vm_ok k \<and> key_order kord \<and> range_order ordR \<and>
     range_order ordA \<and> macMap_ok (macPoolMap p) \<and> stale_names_ok (macPoolMap p) now (waitTime p)"

abbreviation heal_scan where
  "heal_scan k kord now p \<equiv> for_each (scan_entry k now (waitTime p))
     (entries_in_order (kord (dom (macPoolMap p))) (macPoolMap p)) \<lparr>macsToRemove = [], macsToAlign = []\<rparr>"

lemma heal_inv_start: "heal_inv k m now wait \<lparr>macsToRemove = [], macsToAlign = []\<rparr>"
  by (simp add: heal_inv_def)

lemma heal_scan_step:
  assumes "heal_ready k kord ordR ordA now p" "x \<in> set (entries_in_order (kord (dom (macPoolMap p))) (macPoolMap p))"
    and "heal_inv k (macPoolMap p) now (waitTime p) h"
  shows "\<exists>r h'. scan_entry k now (waitTime p) x h = Ret (r, h') \<and> heal_inv k (macPoolMap p) now (waitTime p) h'"
proof -
  obtain key e where ke: "x = (key, e)" by (cases x)
  have "e \<in> set (entries_of (macPoolMap p) key (instanceName e))"
    using assms(2) by (simp add: ke entries_in_order_iff mem_entries_of)
  with assms(1,3) show ?thesis unfolding ke heal_ready_def by (intro scan_entry_inv) auto
qed

lemma heal_scans:
  assumes "heal_ready k kord ordR ordA now p" "e \<in> set (entries_of (macPoolMap p) key inst)"
  shows "(key, e) \<in> set (entries_in_order (kord (dom (macPoolMap p))) (macPoolMap p))"
proof -
  have "set (kord (dom (macPoolMap p))) = dom (macPoolMap p)"
    using assms(1) by (simp add: heal_ready_def key_order_def macMap_ok_def)
  then show ?thesis using assms(2) by (auto simp: entries_in_order_iff mem_entries_of)
qed

lemma healStaleMacEntries_cases [consumes 1, case_names gave_up healed]:
  assumes "heal_ready k kord ordR ordA now p"
  obtains err where "healStaleMacEntries k kord ordR ordA now p = Ret (Some err, p)"
  | h where "heal_scan k kord now p = Ret (None, h)" "heal_inv k (macPoolMap p) now (waitTime p) h"
      "healStaleMacEntries k kord ordR ordA now p = Ret (None, p\<lparr>macPoolMap :=
         align_listed (align_list ordA h) (remove_listed (ordR (macsToRemove h)) (macPoolMap p))\<rparr>)"
proof -
  let ?m = "macPoolMap p" and ?w = "waitTime p"
  have "\<exists>r h. heal_scan k kord now p = Ret (r, h) \<and> heal_inv k ?m now ?w h"
    by (rule for_each_invariant) (auto simp: heal_inv_start intro: heal_scan_step [OF assms])
  then obtain r h where r: "heal_scan k kord now p = Ret (r, h)" "heal_inv k ?m now ?w h" by blast
  show thesis
  proof (cases r)
    case (Some err)
    with r(1) that(1) show ?thesis by (simp add: healStaleMacEntries_def)
  next
    case None
    have ord: "range_order ordR" "range_order ordA" using assms by (auto simp: heal_ready_def)
    have al: "for_each align_vm (align_list ordA h) m = Ret (None, align_listed (align_list ordA h) m)" for m
    proof (rule for_each_align_vm)
      show "\<And>s vm. (s, vm) \<in> set (align_list ordA h) \<Longrightarrow> vm_Template vm \<noteq> None"
        using r(2) unfolding mem_align_list [OF ord(2)] heal_inv_def by blast
    qed
    have nil: "ordR [] = []" "ordA [] = []" using ord by (simp_all add: range_order_Nil)
    have "healStaleMacEntries k kord ordR ordA now p = Ret (None, p\<lparr>macPoolMap :=
         align_listed (align_list ordA h) (remove_listed (ordR (macsToRemove h)) (macPoolMap p))\<rparr>)"
    proof (cases "macsToRemove h = [] \<and> macsToAlign h = []")
      case True
      with r(1) None nil show ?thesis by (simp add: healStaleMacEntries_def align_list_def)
    next
      case False
      with r(1) None al show ?thesis
        unfolding healStaleMacEntries_def align_list_def [symmetric] Let_def by auto
    qed
    with r None show ?thesis by (intro that(2)) simp_all
  qed
qed

lemma heal_list_ok:
  assumes "heal_ready k kord ordR ordA now p" "heal_inv k (macPoolMap p) now (waitTime p) h"
  shows "align_list_ok (align_list ordA h)"
    and "(s, i) \<in> set (ordR (macsToRemove h)) \<Longrightarrow>
      \<exists>key. normal_key key \<and> s = macKey_String key \<and> stale_at (macPoolMap p) now (waitTime p) key i \<and>
        (\<exists>err. getvmInstance k i = Ret (Inl err))"
    and "(s, vm) \<in> set (align_list ordA h) \<Longrightarrow>
      (\<exists>key. normal_key key \<and> s = macKey_String key \<and>
         stale_at (macPoolMap p) now (waitTime p) key (VmNamespaced vm)) \<and>
      getvmInstance k (VmNamespaced vm) = Ret (Inr vm)"
proof -
  have ord: "range_order ordR" "range_order ordA" and ok: "macMap_ok (macPoolMap p)"
    using assms(1) by (auto simp: heal_ready_def)
  have normal: "normal_key key" if "stale_at (macPoolMap p) now (waitTime p) key i" for key i
    using that ok by (auto simp: stale_at_def mem_entries_of macMap_ok_def)
  show R: "\<exists>key. normal_key key \<and> s = macKey_String key \<and> stale_at (macPoolMap p) now (waitTime p) key i \<and>
      (\<exists>err. getvmInstance k i = Ret (Inl err))" if "(s, i) \<in> set (ordR (macsToRemove h))" for s i
    using that assms(2) normal unfolding range_order_set [OF ord(1)] heal_inv_def by blast
  have A: "(\<exists>key. normal_key key \<and> s = macKey_String key \<and>
         stale_at (macPoolMap p) now (waitTime p) key (VmNamespaced vm)) \<and>
      getvmInstance k (VmNamespaced vm) = Ret (Inr vm)" if "(s, vm) \<in> set (align_list ordA h)" for s vm
    using that assms(2) normal unfolding mem_align_list [OF ord(2)] heal_inv_def by blast
  then show "(s, vm) \<in> set (align_list ordA h) \<Longrightarrow>
      (\<exists>key. normal_key key \<and> s = macKey_String key \<and>
         stale_at (macPoolMap p) now (waitTime p) key (VmNamespaced vm)) \<and>
      getvmInstance k (VmNamespaced vm) = Ret (Inr vm)" .
  show "align_list_ok (align_list ordA h)"
    unfolding align_list_ok_def using A by (metis run.inject sum.inject(2))
qed

subsection \<open>Properties\<close>

definition heal_kube :: kube where
  "heal_kube = \<lparr>get_webhook_config = (\<lambda>_. Inl NotFound), get_namespace = (\<lambda>_. Inl NotFound),
     list_namespaces = (\<lambda>_ _. Inr ([], [])),
     get_vm = (\<lambda>ns n. if ns = ''default'' \<and> n = ''vm1'' then Inr sample_vm else Inl NotFound),
     list_vms = (\<lambda>_ _. Inr ([], [])), list_pods = (\<lambda>_ _. Inr ([], [])),
     selector_matches = (\<lambda>_ _. Inr True)\<rparr>"

definition heal_pool :: pool_manager where
  "heal_pool = sample_pool\<lparr>macPoolMap := sample_map\<rparr>"

lemma VmNamespaced_sample: "VmNamespaced sample_vm = ''vm/default/vm1''"
  by (simp add: VmNamespaced_def sample_vm_def)

lemma sample_vm_name: "vm_name ''vm/default/vm1''"
  unfolding vm_name_def by (intro exI [of _ "''default''"] exI [of _ "''vm1''"]) simp

lemma heal_sample_ready:
  "heal_ready heal_kube sorted_list_of_set (\<lambda>xs. xs) (\<lambda>xs. xs) 1000000000000 heal_pool"
proof -
  have "stale_names_ok sample_map 1000000000000 600"
    using sample_vm_name by (auto simp: stale_names_ok_def stale_at_def mem_entries_of sample_map_def split: if_splits)
  moreover have "kube_vm_ok heal_kube" by (auto simp: kube_vm_ok_def heal_kube_def sample_vm_def)
  moreover have "waitTime sample_pool = 600" by (simp add: sample_pool_def)
  ultimately show ?thesis
    using sample_map_facts(1) by (simp add: heal_ready_def heal_pool_def key_order_sorted)
qed

lemma healStaleMacEntries_ends:
  assumes "heal_ready k kord ordR ordA now p"
  shows "\<exists>e m. healStaleMacEntries k kord ordR ordA now p = Ret (e, p\<lparr>macPoolMap := m\<rparr>) \<and> macMap_ok m \<and>
     stamped_entries m \<subseteq> stamped_entries (macPoolMap p) \<and>
     (e \<noteq> None \<longrightarrow> m = macPoolMap p) \<and>
     (\<forall>key inst. \<not> stale_at (macPoolMap p) now (waitTime p) key inst \<longrightarrow>
        entries_of m key inst = entries_of (macPoolMap p) key inst)"
  using assms
proof (cases rule: healStaleMacEntries_cases)
  case (gave_up err)
  moreover have "macMap_ok (macPoolMap p)" using assms by (simp add: heal_ready_def)
  ultimately show ?thesis by (intro exI [of _ "Some err"] exI [of _ "macPoolMap p"]) simp
next
  case (healed h)
  let ?L = "align_list ordA h" and ?R = "ordR (macsToRemove h)"
  note L = heal_list_ok [OF assms healed(2)]
  have ok: "macMap_ok (align_listed ?L (remove_listed ?R (macPoolMap p)))"
    using assms by (simp add: heal_ready_def align_listed_ok remove_listed_ok)
  have "entries_of (align_listed ?L (remove_listed ?R (macPoolMap p))) key inst =
      entries_of (macPoolMap p) key inst" if ns: "\<not> stale_at (macPoolMap p) now (waitTime p) key inst" for key inst
  proof -
    have "entries_of (remove_listed ?R (macPoolMap p)) key inst = entries_of (macPoolMap p) key inst"
      using L(2) ns by (intro remove_listed_frame) (metis NewMacKey_normal Pair_inject)
    moreover have "entries_of (align_listed ?L m) key inst = entries_of m key inst" for m
    proof (rule align_listed_frame [OF L(1)])
      fix vm
      assume "(macKey_String key, vm) \<in> set ?L"
      from L(3) [OF this] ns show "VmNamespaced vm \<noteq> inst" by auto
    qed
    ultimately show ?thesis by simp
  qed
  moreover have "stamped_entries (align_listed ?L (remove_listed ?R (macPoolMap p))) \<subseteq> stamped_entries (macPoolMap p)"
    using remove_listed_stamps align_listed_stamps by blast
  ultimately show ?thesis using healed(3) ok by blast
qed

text \<open>C21: Healing is safe. When every stale entry carries the name of a virtual machine, the call
  always returns, whatever the orders of its map iterations; if it gives up on an error of the API it
  has changed nothing; and if it succeeds, the pool map is well-formed and the entries of an object at
  an address are as before, timestamps included, unless that object had a stale entry at that very
  address.\<close>

theorem healStaleMacEntries_safe:
  assumes "heal_ready k kord ordR ordA now p"
  shows "\<exists>e m. healStaleMacEntries k kord ordR ordA now p = Ret (e, p\<lparr>macPoolMap := m\<rparr>) \<and> macMap_ok m \<and>
     (e \<noteq> None \<longrightarrow> m = macPoolMap p) \<and>
     (\<forall>key inst. \<not> stale_at (macPoolMap p) now (waitTime p) key inst \<longrightarrow>
        entries_of m key inst = entries_of (macPoolMap p) key inst)"
  using healStaleMacEntries_ends [OF assms] by blast

theorem healStaleMacEntries_safe_witness:
  "\<exists>e m. healStaleMacEntries heal_kube sorted_list_of_set (\<lambda>xs. xs) (\<lambda>xs. xs) 1000000000000 heal_pool =
     Ret (e, heal_pool\<lparr>macPoolMap := m\<rparr>) \<and> macMap_ok m"
  using healStaleMacEntries_safe [OF heal_sample_ready] by blast

lemma healed_settles:
  assumes "heal_ready k kord ordR ordA now p" "heal_scan k kord now p = Ret (None, h)"
    and "heal_inv k (macPoolMap p) now (waitTime p) h" "stale_at (macPoolMap p) now (waitTime p) key (VmNamespaced vm)"
    and "getvmInstance k (VmNamespaced vm) = Ret (Inr vm)" "length (entries_of (macPoolMap p) key (VmNamespaced vm)) \<le> 1"
  shows "entries_of (align_listed (align_list ordA h) (remove_listed (ordR (macsToRemove h)) (macPoolMap p))) key (VmNamespaced vm) =
     settle (ifaces_of vm) key (entries_of (macPoolMap p) key (VmNamespaced vm))"
proof -
  let ?inst = "VmNamespaced vm" and ?m = "macPoolMap p"
  note L = heal_list_ok [OF assms(1,3)]
  obtain e where e: "e \<in> set (entries_of ?m key ?inst)" "hasExpiredTransaction now e (waitTime p)"
    using assms(4) by (auto simp: stale_at_def)
  have "(key, e) \<in> set (entries_in_order (kord (dom ?m)) ?m)" using assms(1) e(1) by (rule heal_scans)
  from scan_aligns [OF assms(2) this e(2), of vm] obtain vms where
      "map_of (macsToAlign h) (macKey_String key) = Some vms" "vm \<in> set vms"
    using e(1) assms(5) by (auto simp: mem_entries_of)
  then have mem: "(macKey_String key, vm) \<in> set (align_list ordA h)"
    using assms(1) by (auto simp: heal_ready_def mem_align_list dest: map_of_SomeD)
  have "entries_of (remove_listed (ordR (macsToRemove h)) ?m) key ?inst = entries_of ?m key ?inst"
    using L(2) assms(5) by (intro remove_listed_frame) fastforce
  with align_listed_effect [OF L(1) mem] assms(6) show ?thesis by simp
qed

text \<open>Healing settles what is stale. After a call that succeeds, a stale entry of a virtual
  machine that exists, and holds that address once, stays with its timestamp cleared when an interface
  of the machine of that name uses the address, and is removed otherwise.\<close>

lemma healStaleMacEntries_settles:
  assumes "heal_ready k kord ordR ordA now p"
    and "stale_at (macPoolMap p) now (waitTime p) key (VmNamespaced vm)"
    and "getvmInstance k (VmNamespaced vm) = Ret (Inr vm)"
    and "length (entries_of (macPoolMap p) key (VmNamespaced vm)) = 1"
  shows "case healStaleMacEntries k kord ordR ordA now p of
     Ret (None, p') \<Rightarrow> entries_of (macPoolMap p') key (VmNamespaced vm) =
       settle (ifaces_of vm) key (entries_of (macPoolMap p) key (VmNamespaced vm))
   | Ret (Some err, p') \<Rightarrow> p' = p | Panics \<Rightarrow> False | Hangs \<Rightarrow> False"
  using assms(1)
proof (cases rule: healStaleMacEntries_cases)
  case (healed h)
  from healed_settles [OF assms(1) healed(1,2) assms(2,3)] assms(4) healed(3) show ?thesis by simp
qed simp

text \<open>C23: One entry blocks healing. While the pool holds a stale entry whose machine cannot be looked up, for any
  reason but that it does not exist, every healing round returns an error and leaves the whole pool as it is. The
  entry of a machine that was admitted before the API server generated its name is such an entry.\<close>

theorem healStaleMacEntries_blocked:
  assumes "heal_ready k kord ordR ordA now p" "stale_at (macPoolMap p) now (waitTime p) key inst"
    and "getvmInstance k inst = Ret (Inl cause)" "\<not> IsNotFound cause"
  shows "\<exists>err. healStaleMacEntries k kord ordR ordA now p = Ret (Some err, p)"
proof -
  let ?m = "macPoolMap p"
  obtain e where e: "e \<in> set (entries_of ?m key inst)" "hasExpiredTransaction now e (waitTime p)"
    using assms(2) by (auto simp: stale_at_def)
  have "\<exists>err h. heal_scan k kord now p = Ret (Some err, h)"
  proof (rule for_each_fails [where I = "heal_inv k ?m now (waitTime p)" and x = "(key, e)"])
    show "(key, e) \<in> set (entries_in_order (kord (dom ?m)) ?m)" using assms(1) e(1) by (rule heal_scans)
    show "\<exists>err h'. scan_entry k now (waitTime p) (key, e) h = Ret (Some err, h')" for h
      using e assms(3,4) by (simp add: scan_entry_def mem_entries_of)
  qed (auto simp: heal_inv_start intro: heal_scan_step [OF assms(1)])
  then show ?thesis by (auto simp: healStaleMacEntries_def)
qed

definition nameless_pool :: pool_manager where
  "nameless_pool = sample_pool\<lparr>macPoolMap := [sample_key \<mapsto> [\<lparr>instanceName = ''vm/default/'',
     macInstanceKey = ''br1'', transactionTimestamp = Some 5\<rparr>]]\<rparr>"

theorem healStaleMacEntries_blocked_witness:
  "\<exists>err. healStaleMacEntries heal_kube sorted_list_of_set (\<lambda>xs. xs) (\<lambda>xs. xs) 1000000000000 nameless_pool =
     Ret (Some err, nameless_pool)"
proof (rule healStaleMacEntries_blocked)
  let ?now = "1000000000000"
  have name: "vm_name ''vm/default/''"
    unfolding vm_name_def by (intro exI [of _ "''default''"] exI [of _ "[]"]) simp
  have wait: "waitTime nameless_pool = 600" by (simp add: nameless_pool_def sample_pool_def)
  have "stale_names_ok (macPoolMap nameless_pool) ?now 600"
    using name by (auto simp: stale_names_ok_def stale_at_def mem_entries_of nameless_pool_def split: if_splits)
  moreover have "macMap_ok (macPoolMap nameless_pool)"
    using sample_map_facts(1) by (auto simp: macMap_ok_def nameless_pool_def sample_map_def entries_ok_def split: if_splits)
  ultimately show "heal_ready heal_kube sorted_list_of_set (\<lambda>xs. xs) (\<lambda>xs. xs) ?now nameless_pool"
    using heal_sample_ready wait by (simp add: heal_ready_def)
  show "stale_at (macPoolMap nameless_pool) ?now (waitTime nameless_pool) sample_key ''vm/default/''"
    unfolding wait using wait_duration_exact [of 600]
    by (simp add: stale_at_def mem_entries_of nameless_pool_def hasExpiredTransaction_iff)
  show "getvmInstance heal_kube ''vm/default/'' = Ret (Inl ErrVmName)"
    using getvmInstance_vm_name [of "''default''" "[]" heal_kube] by simp
qed simp

end
