(* ===== verification/Collision.thy ===== *)
theory Collision
  imports PoolManager
begin

section \<open>Collision tracking: \<open>vmi_collision.go\<close>, \<open>collision_gauge.go\<close>, \<open>pkg/monitoring/metrics\<close>\<close>

text \<open>
  The pool manager keeps, for every address that several running objects use, the list of these
  objects, and exports its length as a gauge. The gauge is an interface of the source
  (\<open>CollisionGauge\<close>: \<open>Set\<close> and \<open>Delete\<close>), so it is the interface \<open>collision_gauge\<close> here: what the
  update loop does to any gauge with the two laws is proved once, and the Prometheus gauge of
  \<open>collision_gauge.go\<close> is shown to be one.

  Shown: the gauge always reports exactly the tracked addresses with the number of their objects, at
  least two; an update with a new set of collisions leaves the object listed exactly at these
  addresses, and every other list as it was without the object.
\<close>

subsection \<open>The gauge\<close>

definition SetMacCollision :: "string \<Rightarrow> nat \<Rightarrow> metrics \<Rightarrow> metrics" where
  "SetMacCollision mac n g = g\<lparr>macCollisionMetric := (macCollisionMetric g)(mac \<mapsto> n)\<rparr>"

definition DeleteMacCollision :: "string \<Rightarrow> metrics \<Rightarrow> metrics" where
  "DeleteMacCollision mac g = g\<lparr>macCollisionMetric := (macCollisionMetric g)(mac := None)\<rparr>"

text \<open>The methods of \<open>prometheusCollisionGauge\<close>.\<close>

definition gauge_Set :: "string \<Rightarrow> nat \<Rightarrow> metrics \<Rightarrow> metrics" where
  "gauge_Set mac n = SetMacCollision mac n"

definition gauge_Delete :: "string \<Rightarrow> metrics \<Rightarrow> metrics" where
  "gauge_Delete mac = DeleteMacCollision mac"

subsection \<open>Objects and their lists\<close>

type_synonym collision_map = "string \<Rightarrow> ObjectReference list option"

definition type_String :: "ObjectType \<Rightarrow> string" where
  "type_String t = (case t of ObjectTypeVMI \<Rightarrow> ''vmi'' | ObjectTypePod \<Rightarrow> ''pod'')"

definition ref_Key :: "ObjectReference \<Rightarrow> string" where
  "ref_Key obj = type_String (ref_Type obj) @ ''/'' @ ref_Namespace obj @ ''/'' @ ref_Name obj"

text \<open>
  The loops over the maps visit their keys in the orders \<open>sord\<close> gives. This one deletes and overwrites keys of the map it
  goes over, each in its own round.
\<close>

definition removeObjectFromAllMACs :: "(string set \<Rightarrow> string list) \<Rightarrow> collision_map \<Rightarrow> string \<Rightarrow> collision_map" where
  "removeObjectFromAllMACs sord collidingObjects objectKey =
     fold (\<lambda>mac m. case m mac of
         None \<Rightarrow> m
       | Some objects \<Rightarrow>
           (let newObjects = fold (\<lambda>obj newObjects. if ref_Key obj \<noteq> objectKey then newObjects @ [obj] else newObjects) objects []
            in if length newObjects \<le> 1 then m(mac := None) else m(mac \<mapsto> newObjects)))
       (sord (dom collidingObjects)) collidingObjects"

definition copyMACSet :: "collision_map \<Rightarrow> string set" where
  "copyMACSet collidingObjects = dom collidingObjects"

text \<open>
  The gauge is the pair of operations of the interface.
\<close>

definition updateCollisionGauge ::
    "(string \<Rightarrow> nat \<Rightarrow> 'g \<Rightarrow> 'g) \<Rightarrow> (string \<Rightarrow> 'g \<Rightarrow> 'g) \<Rightarrow> (string set \<Rightarrow> string list) \<Rightarrow> string set \<Rightarrow>
     collision_map \<Rightarrow> 'g \<Rightarrow> 'g" where
  "updateCollisionGauge set_gauge delete_gauge sord macsBefore collidingObjects g =
     fold (\<lambda>mac g. if collidingObjects mac = None then delete_gauge mac g else g) (sord macsBefore)
       (fold (\<lambda>mac g. case collidingObjects mac of
                Some objects \<Rightarrow> set_gauge mac (length objects) g | None \<Rightarrow> g)
          (sord (dom collidingObjects)) g)"

text \<open>A nil map of collisions is an empty one.\<close>

definition UpdateCollisionsMap ::
    "(string set \<Rightarrow> string list) \<Rightarrow> ObjectReference \<Rightarrow> collision_map \<Rightarrow> pool_manager \<Rightarrow> pool_manager" where
  "UpdateCollisionsMap sord objectRef collisions p =
     (let m0 = (case collidingObjectsPerMAC p of None \<Rightarrow> Map.empty | Some m \<Rightarrow> m);
          objectKey = ref_Key objectRef;
          macsBefore = copyMACSet m0;
          m1 = removeObjectFromAllMACs sord m0 objectKey;
          m2 = fold (\<lambda>mac m. case collisions mac of
                  Some collidingObjects \<Rightarrow> m(mac \<mapsto> objectRef # collidingObjects) | None \<Rightarrow> m)
                 (sord (dom collisions)) m1
      in p\<lparr>collidingObjectsPerMAC := Some m2,
           pm_metrics := updateCollisionGauge gauge_Set gauge_Delete sord macsBefore m2
                           (pm_metrics p)\<rparr>)"

subsection \<open>What the loops do to any gauge\<close>

definition set_order :: "(string set \<Rightarrow> string list) \<Rightarrow> bool" where
  "set_order sord \<longleftrightarrow> (\<forall>S. finite S \<longrightarrow> set (sord S) = S)"

locale collision_gauge =
  fixes set_gauge :: "string \<Rightarrow> nat \<Rightarrow> 'g \<Rightarrow> 'g" and delete_gauge :: "string \<Rightarrow> 'g \<Rightarrow> 'g"
    and read_gauge :: "'g \<Rightarrow> string \<Rightarrow> nat option"
  assumes read_set: "read_gauge (set_gauge mac n g) = (read_gauge g)(mac \<mapsto> n)"
    and read_delete: "read_gauge (delete_gauge mac g) = (read_gauge g)(mac := None)"
begin

lemma read_set_loop:
  "read_gauge (fold (\<lambda>mac g. case m mac of Some objects \<Rightarrow> set_gauge mac (length objects) g | None \<Rightarrow> g) macs g) mac =
     (if mac \<in> set macs \<and> m mac \<noteq> None then map_option length (m mac) else read_gauge g mac)"
  by (induction macs arbitrary: g) (auto simp: read_set split: option.splits)

lemma read_delete_loop:
  "read_gauge (fold (\<lambda>mac g. if m mac = None then delete_gauge mac g else g) macs g) mac =
     (if mac \<in> set macs \<and> m mac = None then None else read_gauge g mac)"
  by (induction macs arbitrary: g) (auto simp: read_delete)

lemma read_update:
  assumes "set_order sord" "finite (dom m)" "finite before"
  shows "read_gauge (updateCollisionGauge set_gauge delete_gauge sord before m g) mac =
     (case m mac of Some objects \<Rightarrow> Some (length objects)
      | None \<Rightarrow> if mac \<in> before then None else read_gauge g mac)"
proof -
  have "set (sord (dom m)) = dom m" "set (sord before) = before"
    using assms by (simp_all add: set_order_def)
  then show ?thesis
    by (cases "m mac") (auto simp: updateCollisionGauge_def read_delete_loop read_set_loop)
qed

end

interpretation prometheus: collision_gauge gauge_Set gauge_Delete macCollisionMetric
  by unfold_locales (simp_all add: gauge_Set_def gauge_Delete_def SetMacCollision_def DeleteMacCollision_def)

subsection \<open>The map\<close>

text \<open>The loop over the objects of an address is a filter, and the loops over the addresses work on each key alone.\<close>

definition without :: "string \<Rightarrow> ObjectReference list \<Rightarrow> ObjectReference list" where
  "without key objs = filter (\<lambda>obj. ref_Key obj \<noteq> key) objs"

lemma without_loop: "fold (\<lambda>obj os. if ref_Key obj \<noteq> key then os @ [obj] else os) objs acc = acc @ without key objs"
  by (induction objs arbitrary: acc) (simp_all add: without_def)

lemma without_idem [simp]: "without key (without key objs) = without key objs"
  by (simp add: without_def)

lemma remove_loop:
  "fold (\<lambda>mac m. case m mac of
       None \<Rightarrow> m
     | Some objects \<Rightarrow>
         (let newObjects = fold (\<lambda>obj newObjects. if ref_Key obj \<noteq> key then newObjects @ [obj] else newObjects) objects []
          in if length newObjects \<le> 1 then m(mac := None) else m(mac \<mapsto> newObjects))) macs m mac =
     (if mac \<in> set macs then case m mac of
        None \<Rightarrow> None | Some objs \<Rightarrow> if 2 \<le> length (without key objs) then Some (without key objs) else None
      else m mac)"
proof (induction macs arbitrary: m)
  case (Cons x macs)
  show ?case by (simp only: fold_Cons comp_apply Cons) (auto simp: without_loop Let_def split: option.split)
qed simp

lemma collisions_loop:
  "fold (\<lambda>mac m. case c mac of Some objs \<Rightarrow> m(mac \<mapsto> ref # objs) | None \<Rightarrow> m) macs m mac =
     (if mac \<in> set macs then case c mac of None \<Rightarrow> m mac | Some objs \<Rightarrow> Some (ref # objs) else m mac)"
  by (induction macs arbitrary: m) (auto split: option.split)

lemma removeObjectFromAllMACs_eq:
  assumes "set_order sord" "finite (dom m)"
  shows "removeObjectFromAllMACs sord m key mac = (case m mac of
     None \<Rightarrow> None | Some objs \<Rightarrow> if 2 \<le> length (without key objs) then Some (without key objs) else None)"
proof -
  have "set (sord (dom m)) = dom m" using assms by (simp add: set_order_def)
  then show ?thesis unfolding removeObjectFromAllMACs_def remove_loop by (simp add: domIff split: option.split)
qed

definition tracked :: "pool_manager \<Rightarrow> collision_map" where
  "tracked p = (case collidingObjectsPerMAC p of None \<Rightarrow> Map.empty | Some m \<Rightarrow> m)"

text \<open>The invariant: finitely many addresses, at least two objects each, and the gauge says so.\<close>

definition collisions_ok :: "pool_manager \<Rightarrow> bool" where
  "collisions_ok p \<longleftrightarrow> finite (dom (tracked p)) \<and>
     (\<forall>mac objs. tracked p mac = Some objs \<longrightarrow> 2 \<le> length objs) \<and>
     (\<forall>mac. macCollisionMetric (pm_metrics p) mac = map_option length (tracked p mac))"

definition collisions_given :: "collision_map \<Rightarrow> bool" where
  "collisions_given c \<longleftrightarrow> finite (dom c) \<and> (\<forall>mac objs. c mac = Some objs \<longrightarrow> objs \<noteq> [])"

lemma tracked_UpdateCollisionsMap:
  assumes "set_order sord" "finite (dom c)"
  shows "tracked (UpdateCollisionsMap sord ref c p) = (\<lambda>mac. case c mac of
     Some objs \<Rightarrow> Some (ref # objs) | None \<Rightarrow> removeObjectFromAllMACs sord (tracked p) (ref_Key ref) mac)"
proof
  fix mac
  have "set (sord (dom c)) = dom c" using assms by (simp add: set_order_def)
  then show "tracked (UpdateCollisionsMap sord ref c p) mac = (case c mac of
      Some objs \<Rightarrow> Some (ref # objs) | None \<Rightarrow> removeObjectFromAllMACs sord (tracked p) (ref_Key ref) mac)"
    unfolding tracked_def [of p]
    by (simp add: tracked_def UpdateCollisionsMap_def Let_def collisions_loop domIff split: option.split)
qed

text \<open>What is listed at an address after an update.\<close>

lemma tracked_Update_at:
  assumes "set_order sord" "finite (dom (tracked p))" "finite (dom c)"
  shows "tracked (UpdateCollisionsMap sord ref c p) mac = (case c mac of
     Some objs \<Rightarrow> Some (ref # objs)
   | None \<Rightarrow> (case tracked p mac of
       None \<Rightarrow> None
     | Some objs \<Rightarrow> if 2 \<le> length (without (ref_Key ref) objs) then Some (without (ref_Key ref) objs) else None))"
  by (cases "c mac") (simp_all add: tracked_UpdateCollisionsMap [OF assms(1,3)] removeObjectFromAllMACs_eq [OF assms(1,2)])

lemma finite_tracked_Update:
  assumes "set_order sord" "finite (dom (tracked p))" "finite (dom c)"
  shows "finite (dom (tracked (UpdateCollisionsMap sord ref c p)))"
proof (rule finite_subset)
  show "dom (tracked (UpdateCollisionsMap sord ref c p)) \<subseteq> dom c \<union> dom (tracked p)"
    by (auto simp: tracked_Update_at [OF assms] split: option.splits)
  show "finite (dom c \<union> dom (tracked p))" using assms by simp
qed

lemma metrics_UpdateCollisionsMap:
  assumes "set_order sord" "finite (dom (tracked p))" "finite (dom c)"
  shows "macCollisionMetric (pm_metrics (UpdateCollisionsMap sord ref c p)) mac =
     (case tracked (UpdateCollisionsMap sord ref c p) mac of
        Some objs \<Rightarrow> Some (length objs)
      | None \<Rightarrow> if mac \<in> dom (tracked p) then None else macCollisionMetric (pm_metrics p) mac)"
proof -
  have "finite (dom (tracked (UpdateCollisionsMap sord ref c p)))"
    using assms by (rule finite_tracked_Update)
  then show ?thesis
    using prometheus.read_update [OF assms(1) _ assms(2), of "tracked (UpdateCollisionsMap sord ref c p)"
        "pm_metrics p" mac]
    unfolding tracked_def [of p] by (simp add: tracked_def UpdateCollisionsMap_def Let_def copyMACSet_def)
qed

lemma UpdateCollisionsMap_gauge_keeps:
  assumes "collisions_ok p" "set_order sord" "collisions_given c"
  shows "collisions_ok (UpdateCollisionsMap sord ref c p)"
proof -
  let ?p = "UpdateCollisionsMap sord ref c p"
  have f: "finite (dom (tracked p))" "finite (dom c)"
    using assms(1,3) by (auto simp: collisions_ok_def collisions_given_def)
  have "finite (dom (tracked ?p))" using assms(2) f by (rule finite_tracked_Update)
  moreover have "2 \<le> length objs" if "tracked ?p mac = Some objs" for mac objs
    using that assms(3)
    by (cases "c mac"; cases "tracked p mac")
       (auto simp: tracked_Update_at [OF assms(2) f] collisions_given_def Suc_le_eq split: if_splits)
  moreover have "macCollisionMetric (pm_metrics ?p) mac = map_option length (tracked ?p mac)" for mac
  proof -
    have "macCollisionMetric (pm_metrics p) mac = None" if "mac \<notin> dom (tracked p)"
      using that assms(1) by (auto simp: collisions_ok_def domIff)
    then show ?thesis
      by (auto simp: metrics_UpdateCollisionsMap [OF assms(2) f] split: option.splits)
  qed
  ultimately show ?thesis by (simp add: collisions_ok_def)
qed

subsection \<open>Properties\<close>

lemma set_order_sorted: "set_order sorted_list_of_set"
  by (simp add: set_order_def)

definition sample_ref :: "string \<Rightarrow> ObjectReference" where
  "sample_ref n = \<lparr>ref_Type = ObjectTypeVMI, ref_Namespace = ''default'', ref_Name = n\<rparr>"

text \<open>C29: In whatever order the loops of an update visit the maps: afterwards the object is listed first at every address of
  the given map, followed by the objects given there; an address not in that map lists exactly the other objects it listed
  before, in their order, and is dropped when fewer than two of them are left; the gauge reports exactly the listed addresses,
  each with the number of its objects; and repeating the update changes no list. (The gauge was exact before, and no
  list of the given map is empty.)\<close>

theorem UpdateCollisionsMap_correct:
  assumes "collisions_ok p" "set_order sord" "set_order sord'" "collisions_given c"
  shows "let p' = UpdateCollisionsMap sord ref c p in
     tracked p' mac =
     (case c mac of
        Some objs \<Rightarrow> Some (ref # objs)
      | None \<Rightarrow>
          (let rest = filter (\<lambda>obj. ref_Key obj \<noteq> ref_Key ref)
                        (case tracked p mac of None \<Rightarrow> [] | Some objs \<Rightarrow> objs)
           in if 2 \<le> length rest then Some rest else None)) \<and>
     macCollisionMetric (pm_metrics p') mac = map_option length (tracked p' mac) \<and>
     tracked (UpdateCollisionsMap sord' ref c p') mac = tracked p' mac"
proof -
  define p' where "p' = UpdateCollisionsMap sord ref c p"
  have f: "finite (dom (tracked p))" "finite (dom c)"
    using assms(1,4) by (auto simp: collisions_ok_def collisions_given_def)
  then have f': "finite (dom (tracked p'))" unfolding p'_def using assms(2) by (intro finite_tracked_Update)
  have "collisions_ok p'" unfolding p'_def using assms(1,2,4) by (intro UpdateCollisionsMap_gauge_keeps)
  moreover have "tracked (UpdateCollisionsMap sord' ref c p') mac = tracked p' mac"
    unfolding tracked_Update_at [OF assms(3) f' f(2)] unfolding p'_def tracked_Update_at [OF assms(2) f]
    by (simp split: option.split)
  moreover have "tracked p' mac = (case c mac of
      Some objs \<Rightarrow> Some (ref # objs)
    | None \<Rightarrow> (let rest = filter (\<lambda>obj. ref_Key obj \<noteq> ref_Key ref) (case tracked p mac of None \<Rightarrow> [] | Some objs \<Rightarrow> objs)
        in if 2 \<le> length rest then Some rest else None))"
    unfolding p'_def tracked_Update_at [OF assms(2) f] without_def by (simp split: option.split)
  ultimately show ?thesis by (simp add: p'_def [symmetric] Let_def collisions_ok_def)
qed

text \<open>Three objects share an address; one of them moves to another one, where it meets a fourth.\<close>

definition sample_colliding :: pool_manager where
  "sample_colliding = sample_pool\<lparr>collidingObjectsPerMAC := Some [''m1'' \<mapsto> [sample_ref ''a'', sample_ref ''b'', sample_ref ''c'']],
     pm_metrics := (pm_metrics sample_pool)\<lparr>macCollisionMetric := [''m1'' \<mapsto> 3]\<rparr>\<rparr>"

theorem UpdateCollisionsMap_correct_witness:
  "tracked (UpdateCollisionsMap sorted_list_of_set (sample_ref ''b'') [''m2'' \<mapsto> [sample_ref ''d'']] sample_colliding) ''m1'' =
     Some [sample_ref ''a'', sample_ref ''c''] \<and>
   tracked (UpdateCollisionsMap sorted_list_of_set (sample_ref ''b'') [''m2'' \<mapsto> [sample_ref ''d'']] sample_colliding) ''m2'' =
     Some [sample_ref ''b'', sample_ref ''d'']"
proof -
  have ok: "collisions_ok sample_colliding" by (simp add: collisions_ok_def tracked_def sample_colliding_def)
  have given: "collisions_given [''m2'' \<mapsto> [sample_ref ''d'']]" by (simp add: collisions_given_def)
  note update = UpdateCollisionsMap_correct [OF ok set_order_sorted set_order_sorted given, of "sample_ref ''b''"]
  have lists: "tracked sample_colliding ''m1'' = Some [sample_ref ''a'', sample_ref ''b'', sample_ref ''c'']"
    by (simp add: tracked_def sample_colliding_def)
  have keys: "ref_Key (sample_ref x) = ref_Key (sample_ref y) \<longleftrightarrow> x = y" for x y by (simp add: ref_Key_def sample_ref_def)
  show ?thesis using update [of "''m1''"] update [of "''m2''"] by (simp add: lists keys Let_def)
qed

end
