(* ===== verification/MacCollision.thy ===== *)
theory MacCollision
  imports VmPool PodPool Collision
begin

section \<open>Candidates of a collision: \<open>pkg/controller/maccollision\<close>\<close>

text \<open>
  The parts the two collision controllers share: which addresses an object counts with (the cache
  indexes of \<open>cache.go\<close>), which other running objects share one (\<open>vmi_candidates.go\<close>,
  \<open>pod_candidates.go\<close>), which of these are the two sides of one migration (\<open>migration.go\<close>), and which
  events make a controller look again (\<open>predicates.go\<close>).

  The indexed lists of the client and the annotation parser of the network-attachment-definition
  client library are parameters (record \<open>collision_client\<close>).

  Shown: an index lists normalised addresses of supported interfaces only; the filters by namespace,
  which remember the namespaces they have asked for, keep exactly what a filter without memory would;
  sharing a migration is symmetric; the stripped copies in the cache lose nothing the collision
  detection reads, but the pods lose their owners.
\<close>

subsection \<open>Objects\<close>

record status_interface =
  sif_Name :: string
  sif_MAC :: string

record migration_state =
  SourceState :: "string option"
  TargetState :: "string option"

record vmi =
  vmi_Name :: string
  vmi_Namespace :: string
  vmi_UID :: string
  vmi_DeletionTimestamp :: bool
  vmi_Networks :: "vm_network list"
  vmi_Interfaces :: "vm_interface list"
  vmi_StatusInterfaces :: "status_interface list"
  vmi_Phase :: string
  vmi_MigrationState :: "migration_state option"
  vmi_Other :: string

datatype cached_object = CachedVMI vmi | CachedPod pod | CachedOther string

record collision_client =
  get_vmi :: "string \<Rightarrow> string \<Rightarrow> api_error + vmi"
  get_pod :: "string \<Rightarrow> string \<Rightarrow> api_error + pod"
  vmis_by_mac :: "string \<Rightarrow> api_error + vmi list"
  pods_by_mac :: "string \<Rightarrow> api_error + pod list"
  parse_networks :: "pod \<Rightarrow> go_error + network_selection list"

subsection \<open>\<open>mac.go\<close>\<close>

definition NormalizeMacAddress :: "string \<Rightarrow> go_error + string" where
  "NormalizeMacAddress macAddress =
     (case ParseMAC macAddress of Inl err \<Rightarrow> Inl err | Inr mac \<Rightarrow> Inr (hw_String mac))"

subsection \<open>\<open>cache.go\<close>\<close>

definition StripVMIForCollisionDetection :: "cached_object \<Rightarrow> cached_object" where
  "StripVMIForCollisionDetection obj = (case obj of
     CachedVMI v \<Rightarrow> CachedVMI \<lparr>vmi_Name = vmi_Name v, vmi_Namespace = vmi_Namespace v, vmi_UID = vmi_UID v,
        vmi_DeletionTimestamp = vmi_DeletionTimestamp v, vmi_Networks = vmi_Networks v,
        vmi_Interfaces = vmi_Interfaces v, vmi_StatusInterfaces = vmi_StatusInterfaces v,
        vmi_Phase = vmi_Phase v, vmi_MigrationState = vmi_MigrationState v, vmi_Other = []\<rparr>
   | _ \<Rightarrow> obj)"

definition StripPodForCollisionDetection :: "cached_object \<Rightarrow> cached_object" where
  "StripPodForCollisionDetection obj = (case obj of
     CachedPod pd \<Rightarrow> CachedPod \<lparr>pod_Name = pod_Name pd, pod_Namespace = pod_Namespace pd,
        pod_UID = pod_UID pd, pod_Labels = pod_Labels pd, pod_Annotations = pod_Annotations pd,
        pod_OwnerReferences = [], pod_Phase = pod_Phase pd, pod_Other = []\<rparr>
   | _ \<Rightarrow> obj)"

fun statusMACs :: "string set \<Rightarrow> status_interface list \<Rightarrow> string list" where
  "statusMACs managedInterfaces [] = []"
| "statusMACs managedInterfaces (statusIface # ifaces) =
     (if sif_Name statusIface \<notin> managedInterfaces \<or> sif_MAC statusIface = []
      then statusMACs managedInterfaces ifaces
      else case NormalizeMacAddress (sif_MAC statusIface) of
             Inl _ \<Rightarrow> statusMACs managedInterfaces ifaces
           | Inr normalizedMAC \<Rightarrow> normalizedMAC # statusMACs managedInterfaces ifaces)"

definition supportedMACsFromVMI :: "vmi \<Rightarrow> string list" where
  "supportedMACsFromVMI v =
     (let networks = networks_by_name (vmi_Networks v);
          managedInterfaces = iface_Name ` set (filter (\<lambda>iface. IsInterfaceSupported iface networks)
                                                  (vmi_Interfaces v))
      in statusMACs managedInterfaces (vmi_StatusInterfaces v))"

definition IndexVMIByMAC :: "cached_object \<Rightarrow> string list" where
  "IndexVMIByMAC obj = (case obj of CachedVMI v \<Rightarrow> supportedMACsFromVMI v | _ \<Rightarrow> [])"

fun requestedMACs :: "string set \<Rightarrow> network_selection list \<Rightarrow> string list" where
  "requestedMACs seen [] = []"
| "requestedMACs seen (network # networks) =
     (if sel_MacRequest network = [] then requestedMACs seen networks
      else case NormalizeMacAddress (sel_MacRequest network) of
             Inl _ \<Rightarrow> requestedMACs seen networks
           | Inr normalizedMAC \<Rightarrow>
               if normalizedMAC \<in> seen then requestedMACs seen networks
               else normalizedMAC # requestedMACs (insert normalizedMAC seen) networks)"

definition IndexPodByMAC :: "collision_client \<Rightarrow> cached_object \<Rightarrow> string list" where
  "IndexPodByMAC c obj = (case obj of
     CachedPod pd \<Rightarrow>
       (case lookup_nil (pod_Annotations pd) NetworkStatusAnnot of
          None \<Rightarrow> []
        | Some _ \<Rightarrow>
            (case parse_networks c pd of Inl _ \<Rightarrow> [] | Inr networks \<Rightarrow> requestedMACs {} networks))
   | _ \<Rightarrow> [])"

definition IsKubevirtOwned :: "pod \<Rightarrow> bool" where
  "IsKubevirtOwned pd \<longleftrightarrow> lookup_nil (pod_Labels pd) ''kubevirt.io'' = Some ''virt-launcher''"

subsection \<open>\<open>vmi_candidates.go\<close>, \<open>pod_candidates.go\<close>\<close>

definition listVMIsByMAC :: "collision_client \<Rightarrow> string \<Rightarrow> go_error + vmi list" where
  "listVMIsByMAC c normalizedMAC = (case vmis_by_mac c normalizedMAC of
     Inl e \<Rightarrow> Inl (ErrWrap ''failed to list VMIs by MAC'' (ErrApi e)) | Inr vmis \<Rightarrow> Inr vmis)"

definition listRunningVMIsByMAC :: "collision_client \<Rightarrow> string \<Rightarrow> go_error + vmi list" where
  "listRunningVMIsByMAC c normalizedMAC = (case listVMIsByMAC c normalizedMAC of
     Inl err \<Rightarrow> Inl err
   | Inr vmis \<Rightarrow> Inr (filter (\<lambda>v. \<not> vmi_Phase v \<noteq> ''Running'') vmis))"

definition listRunningVMIsByMACWithExcludeUID ::
    "collision_client \<Rightarrow> string \<Rightarrow> string \<Rightarrow> go_error + vmi list" where
  "listRunningVMIsByMACWithExcludeUID c normalizedMAC excludeUID = (case listVMIsByMAC c normalizedMAC of
     Inl err \<Rightarrow> Inl err
   | Inr vmis \<Rightarrow>
       Inr (filter (\<lambda>v. \<not> vmi_Phase v \<noteq> ''Running'' \<and> \<not> vmi_UID v = excludeUID) vmis))"

text \<open>The loop remembers the namespaces that are managed, or whose check failed.\<close>

fun filterManagedVMIs :: "(string \<Rightarrow> go_error + bool) \<Rightarrow> string set \<Rightarrow> vmi list \<Rightarrow> vmi list" where
  "filterManagedVMIs isManaged knownManagedNamespaces [] = []"
| "filterManagedVMIs isManaged knownManagedNamespaces (candidate # candidates) =
     (if vmi_Namespace candidate \<in> knownManagedNamespaces
      then candidate # filterManagedVMIs isManaged knownManagedNamespaces candidates
      else case isManaged (vmi_Namespace candidate) of
             Inl _ \<Rightarrow> candidate #
               filterManagedVMIs isManaged (insert (vmi_Namespace candidate) knownManagedNamespaces) candidates
           | Inr managed \<Rightarrow>
               if \<not> managed then filterManagedVMIs isManaged knownManagedNamespaces candidates
               else candidate #
                 filterManagedVMIs isManaged (insert (vmi_Namespace candidate) knownManagedNamespaces) candidates)"

definition listRunningPodsWithMAC :: "collision_client \<Rightarrow> string \<Rightarrow> go_error + pod list" where
  "listRunningPodsWithMAC c normalizedMAC = (case pods_by_mac c normalizedMAC of
     Inl e \<Rightarrow> Inl (ErrWrap ''failed to list Pods by MAC'' (ErrApi e))
   | Inr pods \<Rightarrow> Inr (filter (\<lambda>pd. \<not> pod_Phase pd \<noteq> ''Running'') pods))"

definition excludePodUID :: "pod list \<Rightarrow> string \<Rightarrow> pod list" where
  "excludePodUID pods excludeUID = filter (\<lambda>pd. \<not> pod_UID pd = excludeUID) pods"

fun filterCandidatePods :: "(string \<Rightarrow> go_error + bool) \<Rightarrow> string set \<Rightarrow> pod list \<Rightarrow> pod list" where
  "filterCandidatePods isManaged managedNamespaces [] = []"
| "filterCandidatePods isManaged managedNamespaces (pd # pods) =
     (if IsKubevirtOwned pd then filterCandidatePods isManaged managedNamespaces pods
      else if pod_Namespace pd \<in> managedNamespaces
      then pd # filterCandidatePods isManaged managedNamespaces pods
      else case isManaged (pod_Namespace pd) of
             Inl _ \<Rightarrow> pd # filterCandidatePods isManaged (insert (pod_Namespace pd) managedNamespaces) pods
           | Inr managed \<Rightarrow>
               if \<not> managed then filterCandidatePods isManaged managedNamespaces pods
               else pd # filterCandidatePods isManaged (insert (pod_Namespace pd) managedNamespaces) pods)"

definition filterCollisionCandidatePods ::
    "(string \<Rightarrow> go_error + bool) \<Rightarrow> pod list \<Rightarrow> string \<Rightarrow> pod list" where
  "filterCollisionCandidatePods isManaged pods reconciledNamespace =
     filterCandidatePods isManaged {reconciledNamespace} pods"

subsection \<open>\<open>migration.go\<close>\<close>

definition extractMigrationUIDs :: "vmi \<Rightarrow> string \<times> string" where
  "extractMigrationUIDs v = (case vmi_MigrationState v of
     None \<Rightarrow> ([], [])
   | Some s \<Rightarrow> (case SourceState s of None \<Rightarrow> [] | Some uid \<Rightarrow> uid, case TargetState s of None \<Rightarrow> [] | Some uid \<Rightarrow> uid))"

definition sharesActiveMigration :: "string \<Rightarrow> string \<Rightarrow> vmi \<Rightarrow> bool" where
  "sharesActiveMigration reconciledSourceUID reconciledTargetUID v =
     (if vmi_MigrationState v = None then False
      else let (duplicateSourceUID, duplicateTargetUID) = extractMigrationUIDs v
           in if reconciledSourceUID \<noteq> [] \<and> reconciledSourceUID = duplicateSourceUID then True
              else if reconciledTargetUID \<noteq> [] \<and> reconciledTargetUID = duplicateTargetUID then True
              else False)"

definition filterOutDecentralizedMigrations :: "vmi \<Rightarrow> vmi list \<Rightarrow> vmi list" where
  "filterOutDecentralizedMigrations reconciledVMI duplicates =
     (let (reconciledSourceUID, reconciledTargetUID) = extractMigrationUIDs reconciledVMI
      in if reconciledSourceUID = [] \<and> reconciledTargetUID = [] then duplicates
         else filter (\<lambda>d. \<not> sharesActiveMigration reconciledSourceUID reconciledTargetUID d) duplicates)"

subsection \<open>\<open>predicates.go\<close>\<close>

definition getSourceMigrationUID :: "vmi \<Rightarrow> string" where
  "getSourceMigrationUID v = (case vmi_MigrationState v of
     Some s \<Rightarrow> (case SourceState s of Some uid \<Rightarrow> uid | None \<Rightarrow> []) | None \<Rightarrow> [])"

definition getTargetMigrationUID :: "vmi \<Rightarrow> string" where
  "getTargetMigrationUID v = (case vmi_MigrationState v of
     Some s \<Rightarrow> (case TargetState s of Some uid \<Rightarrow> uid | None \<Rightarrow> []) | None \<Rightarrow> [])"

definition migrationStateChanged :: "vmi \<Rightarrow> vmi \<Rightarrow> bool" where
  "migrationStateChanged oldVMI newVMI \<longleftrightarrow>
     getSourceMigrationUID oldVMI \<noteq> getSourceMigrationUID newVMI \<or>
     getTargetMigrationUID oldVMI \<noteq> getTargetMigrationUID newVMI"

definition macAddressesChanged :: "vmi \<Rightarrow> vmi \<Rightarrow> bool" where
  "macAddressesChanged oldVMI newVMI \<longleftrightarrow>
     set (supportedMACsFromVMI oldVMI) \<noteq> set (supportedMACsFromVMI newVMI)"

datatype 'o watch_event = CreateEvent 'o | UpdateEvent 'o 'o | DeleteEvent 'o

definition collisionRelevantChanges :: "vmi watch_event \<Rightarrow> bool" where
  "collisionRelevantChanges e = (case e of
     CreateEvent _ \<Rightarrow> True
   | UpdateEvent oldVMI newVMI \<Rightarrow>
       if vmi_Phase oldVMI \<noteq> vmi_Phase newVMI then True
       else if macAddressesChanged oldVMI newVMI then True
       else if migrationStateChanged oldVMI newVMI then True
       else False
   | DeleteEvent _ \<Rightarrow> True)"

text \<open>Reading an absent key of a Go map gives the empty string.\<close>

definition annotation_value :: "pod \<Rightarrow> string \<Rightarrow> string" where
  "annotation_value pd key = (case lookup_nil (pod_Annotations pd) key of None \<Rightarrow> [] | Some v \<Rightarrow> v)"

definition podCollisionRelevantChanges :: "pod watch_event \<Rightarrow> bool" where
  "podCollisionRelevantChanges e = (case e of
     CreateEvent pd \<Rightarrow> lookup_nil (pod_Annotations pd) NetworkAttachmentAnnot \<noteq> None
   | UpdateEvent oldPod newPod \<Rightarrow>
       if pod_Phase oldPod \<noteq> pod_Phase newPod then True
       else if annotation_value oldPod NetworkAttachmentAnnot \<noteq> annotation_value newPod NetworkAttachmentAnnot
       then True
       else if annotation_value oldPod NetworkStatusAnnot \<noteq> annotation_value newPod NetworkStatusAnnot
       then True
       else False
   | DeleteEvent _ \<Rightarrow> True)"

subsection \<open>What the parts compute\<close>

lemma filterManagedVMIs_eq:
  "filterManagedVMIs isManaged known cs =
     filter (\<lambda>v. vmi_Namespace v \<in> known \<or> isManaged (vmi_Namespace v) \<noteq> Inr False) cs"
  by (induction cs arbitrary: known) (auto split: sum.splits intro!: filter_cong)

lemma filterCandidatePods_eq:
  "filterCandidatePods isManaged known pods =
     filter (\<lambda>pd. \<not> IsKubevirtOwned pd \<and>
        (pod_Namespace pd \<in> known \<or> isManaged (pod_Namespace pd) \<noteq> Inr False)) pods"
  by (induction pods arbitrary: known) (auto split: sum.splits intro!: filter_cong)

lemma NormalizeMacAddress_key:
  "NormalizeMacAddress s = Inr n \<longleftrightarrow> (\<exists>a. ParseMAC s = Inr a) \<and> n = macKey_String (NewMacKey s)"
  by (auto simp: NormalizeMacAddress_def NewMacKey_def split: sum.splits)

lemma mem_statusMACs:
  "mac \<in> set (statusMACs managed ifs) \<longleftrightarrow>
     (\<exists>s\<in>set ifs. sif_Name s \<in> managed \<and> sif_MAC s \<noteq> [] \<and> NormalizeMacAddress (sif_MAC s) = Inr mac)"
  by (induction ifs) (auto split: sum.splits)

lemma mem_requestedMACs:
  "mac \<in> set (requestedMACs seen ns) \<longleftrightarrow> mac \<notin> seen \<and>
     (\<exists>n\<in>set ns. sel_MacRequest n \<noteq> [] \<and> NormalizeMacAddress (sel_MacRequest n) = Inr mac)"
  by (induction ns arbitrary: seen) (auto split: sum.splits)

lemma distinct_requestedMACs: "distinct (requestedMACs seen ns)"
  by (induction ns arbitrary: seen) (auto simp: mem_requestedMACs split: sum.splits)

lemma sharesActiveMigration_iff:
  "sharesActiveMigration s t v \<longleftrightarrow>
     (s \<noteq> [] \<and> s = fst (extractMigrationUIDs v)) \<or> (t \<noteq> [] \<and> t = snd (extractMigrationUIDs v))"
  by (cases "vmi_MigrationState v") (auto simp: sharesActiveMigration_def extractMigrationUIDs_def)

text \<open>Two instances are the two sides of one migration.\<close>

definition same_migration :: "vmi \<Rightarrow> vmi \<Rightarrow> bool" where
  "same_migration a b \<longleftrightarrow>
     (\<exists>uid. uid \<noteq> [] \<and> (fst (extractMigrationUIDs a) = uid \<and> fst (extractMigrationUIDs b) = uid \<or>
        snd (extractMigrationUIDs a) = uid \<and> snd (extractMigrationUIDs b) = uid))"

lemma same_migration_sym: "same_migration a b \<longleftrightarrow> same_migration b a"
  unfolding same_migration_def by metis

lemma same_migration_None: "vmi_MigrationState b = None \<Longrightarrow> \<not> same_migration a b"
  by (auto simp: same_migration_def extractMigrationUIDs_def [of b])

lemma filterOutDecentralizedMigrations_eq:
  "filterOutDecentralizedMigrations a ds = filter (\<lambda>d. \<not> same_migration a d) ds"
proof -
  obtain s t where "extractMigrationUIDs a = (s, t)" by (cases "extractMigrationUIDs a")
  then show ?thesis
    by (auto simp: filterOutDecentralizedMigrations_def same_migration_def sharesActiveMigration_iff
          intro!: filter_cong filter_True [symmetric])
qed

lemma migrationUIDs_eq: "extractMigrationUIDs v = (getSourceMigrationUID v, getTargetMigrationUID v)"
  by (auto simp: extractMigrationUIDs_def getSourceMigrationUID_def getTargetMigrationUID_def
        split: option.splits)

subsection \<open>Properties\<close>

text \<open>Excluding the other side of a migration is symmetric: an instance is taken for a collision of
  another one exactly when the other is taken for a collision of it; and only instances with a
  migration of their own are ever excluded.\<close>

theorem migration_exclusion_symmetric:
  "(b \<in> set (filterOutDecentralizedMigrations a [b]) \<longleftrightarrow>
    a \<in> set (filterOutDecentralizedMigrations b [a])) \<and>
   (vmi_MigrationState b = None \<longrightarrow> filterOutDecentralizedMigrations a (b # ds) =
      b # filterOutDecentralizedMigrations a ds)"
  using same_migration_sym [of a b] same_migration_None [of b a]
  by (simp add: filterOutDecentralizedMigrations_eq)

definition migrating_vmi :: "string \<Rightarrow> migration_state option \<Rightarrow> vmi" where
  "migrating_vmi uid m = \<lparr>vmi_Name = ''a'', vmi_Namespace = ''default'', vmi_UID = uid, vmi_DeletionTimestamp = False,
     vmi_Networks = [], vmi_Interfaces = [], vmi_StatusInterfaces = [], vmi_Phase = ''Running'',
     vmi_MigrationState = m, vmi_Other = []\<rparr>"

text \<open>C33: The index of an instance holds exactly the normalised addresses that its status reports for
  interfaces KubeMacPool supports, and the index of a pod exactly the normalised addresses its networks
  request, each once, and nothing before Multus has reported its status. Stripping an instance for the
  cache changes neither its addresses nor its migration nor its phase.\<close>

theorem collision_indexes_correct:
  "(mac \<in> set (IndexVMIByMAC (CachedVMI v)) \<longleftrightarrow>
      (\<exists>s\<in>set (vmi_StatusInterfaces v). \<exists>i\<in>set (vmi_Interfaces v). iface_Name i = sif_Name s \<and>
         IsInterfaceSupported i (networks_by_name (vmi_Networks v)) \<and> sif_MAC s \<noteq> [] \<and>
         NormalizeMacAddress (sif_MAC s) = Inr mac)) \<and>
   distinct (IndexPodByMAC c (CachedPod pd)) \<and>
   (mac \<in> set (IndexPodByMAC c (CachedPod pd)) \<longleftrightarrow>
      lookup_nil (pod_Annotations pd) NetworkStatusAnnot \<noteq> None \<and>
      (\<exists>ns. parse_networks c pd = Inr ns \<and> (\<exists>n\<in>set ns. sel_MacRequest n \<noteq> [] \<and>
         NormalizeMacAddress (sel_MacRequest n) = Inr mac))) \<and>
   (\<exists>v'. StripVMIForCollisionDetection (CachedVMI v) = CachedVMI v' \<and>
      supportedMACsFromVMI v' = supportedMACsFromVMI v \<and> extractMigrationUIDs v' = extractMigrationUIDs v \<and>
      vmi_Phase v' = vmi_Phase v)"
proof (intro conjI)
  show "mac \<in> set (IndexVMIByMAC (CachedVMI v)) \<longleftrightarrow>
      (\<exists>s\<in>set (vmi_StatusInterfaces v). \<exists>i\<in>set (vmi_Interfaces v). iface_Name i = sif_Name s \<and>
         IsInterfaceSupported i (networks_by_name (vmi_Networks v)) \<and> sif_MAC s \<noteq> [] \<and>
         NormalizeMacAddress (sif_MAC s) = Inr mac)"
    by (force simp: IndexVMIByMAC_def supportedMACsFromVMI_def mem_statusMACs Let_def)
  show "distinct (IndexPodByMAC c (CachedPod pd))"
    by (simp add: IndexPodByMAC_def distinct_requestedMACs split: option.split sum.split)
  show "mac \<in> set (IndexPodByMAC c (CachedPod pd)) \<longleftrightarrow>
      lookup_nil (pod_Annotations pd) NetworkStatusAnnot \<noteq> None \<and>
      (\<exists>ns. parse_networks c pd = Inr ns \<and> (\<exists>n\<in>set ns. sel_MacRequest n \<noteq> [] \<and>
         NormalizeMacAddress (sel_MacRequest n) = Inr mac))"
    by (cases "lookup_nil (pod_Annotations pd) NetworkStatusAnnot"; cases "parse_networks c pd")
       (auto simp: IndexPodByMAC_def mem_requestedMACs)
  show "\<exists>v'. StripVMIForCollisionDetection (CachedVMI v) = CachedVMI v' \<and>
      supportedMACsFromVMI v' = supportedMACsFromVMI v \<and> extractMigrationUIDs v' = extractMigrationUIDs v \<and>
      vmi_Phase v' = vmi_Phase v"
    by (simp add: StripVMIForCollisionDetection_def supportedMACsFromVMI_def extractMigrationUIDs_def)
qed

end
