(* ===== verification/CollisionReconcilers.thy ===== *)
theory CollisionReconcilers
  imports MacCollision
begin

section \<open>The collision controllers: \<open>vmi_controller.go\<close>, \<open>pod_controller.go\<close> of \<open>maccollision\<close>\<close>

text \<open>
  Two controllers, one for virtual machine instances and one for pods, recompute the collisions of
  one object at a time and hand them to the pool manager. A reconciliation returns its error, the
  events it recorded and the pool manager. The order in which the set of addresses is visited is
  \<open>sord\<close>; a list error ends the check before the tracked map is touched. The watches are
  set up in \<open>Registration\<close>.

  Shown: what a reconciliation tracks; that it keeps the gauge exact; that the events the watch
  predicate drops could not have changed the outcome.
\<close>

type_synonym recorded = "(ObjectReference \<times> string) list"

definition vmiObjectRef :: "string \<Rightarrow> string \<Rightarrow> ObjectReference" where
  "vmiObjectRef ns name = \<lparr>ref_Type = ObjectTypeVMI, ref_Namespace = ns, ref_Name = name\<rparr>"

definition podObjectRef :: "string \<Rightarrow> string \<Rightarrow> ObjectReference" where
  "podObjectRef ns name = \<lparr>ref_Type = ObjectTypePod, ref_Namespace = ns, ref_Name = name\<rparr>"

text \<open>\<open>strings.Join(all, ", ")\<close>\<close>

fun join_comma :: "string list \<Rightarrow> string" where
  "join_comma [] = []"
| "join_comma [s] = s"
| "join_comma (s # ss) = s @ '', '' @ join_comma ss"

definition emitCollisionEvents ::
    "ObjectReference \<Rightarrow> string \<Rightarrow> ObjectReference list \<Rightarrow> ObjectReference list \<Rightarrow> recorded" where
  "emitCollisionEvents selfRef mac sameKind colliderRefs =
     (let all = sort (ref_Key selfRef # map ref_Key colliderRefs);
          message = ''MAC '' @ mac @ '': Collision between '' @ join_comma all
      in (selfRef, message) # map (\<lambda>r. (r, message)) sameKind)"

text \<open>
  The shared shape of the loop over the addresses: \<open>find mac\<close> gives the colliding objects of the
  reconciled object's own kind and all colliding objects, in the order the code appends them.
\<close>

definition check_mac ::
    "(string \<Rightarrow> go_error + ObjectReference list \<times> ObjectReference list) \<Rightarrow> ObjectReference \<Rightarrow> string \<Rightarrow>
     collision_map \<times> recorded \<Rightarrow> (go_error option \<times> collision_map \<times> recorded) run" where
  "check_mac find_mac selfRef mac = (\<lambda>(collisions, events). case find_mac mac of
     Inl err \<Rightarrow> Ret (Some err, collisions, events)
   | Inr (sameKind, refs) \<Rightarrow>
       if 0 < length refs
       then Ret (None, collisions(mac \<mapsto> refs), events @ emitCollisionEvents selfRef mac sameKind refs)
       else Ret (None, collisions, events))"

subsection \<open>Instances\<close>

definition findRunningPodsWithMAC_vmi ::
    "collision_client \<Rightarrow> (string \<Rightarrow> go_error + bool) \<Rightarrow> string \<Rightarrow> go_error + pod list" where
  "findRunningPodsWithMAC_vmi c isPodManaged mac = (case listRunningPodsWithMAC c mac of
     Inl err \<Rightarrow> Inl err | Inr pods \<Rightarrow> Inr (filterCollisionCandidatePods isPodManaged pods []))"

definition filterOutUnmanagedNamespaces ::
    "(string \<Rightarrow> go_error + bool) \<Rightarrow> vmi list \<Rightarrow> string \<Rightarrow> vmi list" where
  "filterOutUnmanagedNamespaces isVmManaged candidates reconciledNamespace =
     filterManagedVMIs isVmManaged {reconciledNamespace} candidates"

definition vmi_find_mac ::
    "collision_client \<Rightarrow> (string \<Rightarrow> go_error + bool) \<Rightarrow> (string \<Rightarrow> go_error + bool) \<Rightarrow> vmi \<Rightarrow> string \<Rightarrow>
     go_error + ObjectReference list \<times> ObjectReference list" where
  "vmi_find_mac c isVmManaged isPodManaged v mac =
     (case listRunningVMIsByMACWithExcludeUID c mac (vmi_UID v) of
        Inl err \<Rightarrow> Inl (ErrWrap ''failed to find VMIs with MAC'' err)
      | Inr found \<Rightarrow>
          (let collidingVMIs = filterOutUnmanagedNamespaces isVmManaged
                 (filterOutDecentralizedMigrations v found) (vmi_Namespace v);
               vmiRefs = map (\<lambda>x. vmiObjectRef (vmi_Namespace x) (vmi_Name x)) collidingVMIs
           in case findRunningPodsWithMAC_vmi c isPodManaged mac of
                Inl err \<Rightarrow> Inl (ErrWrap ''failed to find Pods with MAC'' err)
              | Inr collidingPods \<Rightarrow>
                  Inr (vmiRefs, vmiRefs @
                    map (\<lambda>x. podObjectRef (pod_Namespace x) (pod_Name x)) collidingPods)))"

definition removeVMIFromAllCollisions ::
    "(string set \<Rightarrow> string list) \<Rightarrow> string \<Rightarrow> string \<Rightarrow> pool_manager \<Rightarrow> pool_manager" where
  "removeVMIFromAllCollisions sord ns name p = UpdateCollisionsMap sord (vmiObjectRef ns name) Map.empty p"

definition checkMACCollisions_vmi ::
    "(string set \<Rightarrow> string list) \<Rightarrow> collision_client \<Rightarrow> (string \<Rightarrow> go_error + bool) \<Rightarrow>
     (string \<Rightarrow> go_error + bool) \<Rightarrow> vmi \<Rightarrow> pool_manager \<Rightarrow> (go_error option \<times> recorded \<times> pool_manager) run" where
  "checkMACCollisions_vmi sord c isVmManaged isPodManaged v p =
     (if vmi_Phase v \<noteq> ''Running''
      then Ret (None, [], removeVMIFromAllCollisions sord (vmi_Namespace v) (vmi_Name v) p)
      else let macs = set (supportedMACsFromVMI v) in
      if macs = {} then Ret (None, [], removeVMIFromAllCollisions sord (vmi_Namespace v) (vmi_Name v) p)
      else let selfRef = vmiObjectRef (vmi_Namespace v) (vmi_Name v) in
        bind_run (for_each (check_mac (vmi_find_mac c isVmManaged isPodManaged v) selfRef) (sord macs) (Map.empty, []))
          (\<lambda>(e, collisions, events). case e of
             Some err \<Rightarrow> Ret (Some err, events, p)
           | None \<Rightarrow> Ret (None, events, UpdateCollisionsMap sord selfRef collisions p)))"

definition Reconcile_vmi ::
    "kube \<Rightarrow> (string set \<Rightarrow> string list) \<Rightarrow> collision_client \<Rightarrow> request \<Rightarrow> pool_manager \<Rightarrow>
     (go_error option \<times> recorded \<times> pool_manager) run" where
  "Reconcile_vmi k sord c req p =
     (case get_vmi c (request_Namespace req) (request_Name req) of
        Inl e \<Rightarrow>
          if IsNotFound (ErrApi e)
          then Ret (None, [], removeVMIFromAllCollisions sord (request_Namespace req) (request_Name req) p)
          else Ret (Some (ErrWrap ''failed to get VMI'' (ErrApi e)), [], p)
      | Inr v \<Rightarrow>
          (case IsVirtualMachineManaged k (vmi_Namespace v) of
             Inl err \<Rightarrow> Ret (Some (ErrWrap ''failed to check if namespace is managed'' err), [], p)
           | Inr isManaged \<Rightarrow>
               if \<not> isManaged then Ret (None, [], p)
               else bind_run (checkMACCollisions_vmi sord c (IsVirtualMachineManaged k) (IsPodManaged k) v p)
                      (\<lambda>(e, events, p'). Ret (map_option (ErrWrap ''failed to check MAC collisions'') e, events, p'))))"

subsection \<open>Pods\<close>

definition extractMACsFromPod :: "collision_client \<Rightarrow> pod \<Rightarrow> string set" where
  "extractMACsFromPod c pd = set (IndexPodByMAC c (CachedPod pd))"

definition findRunningPodsWithMAC_pod ::
    "collision_client \<Rightarrow> string \<Rightarrow> string \<Rightarrow> go_error + pod list" where
  "findRunningPodsWithMAC_pod c mac excludeUID = (case listRunningPodsWithMAC c mac of
     Inl err \<Rightarrow> Inl err | Inr pods \<Rightarrow> Inr (excludePodUID pods excludeUID))"

definition filterVMIsWithMAC_pod ::
    "collision_client \<Rightarrow> (string \<Rightarrow> go_error + bool) \<Rightarrow> string \<Rightarrow> go_error + vmi list" where
  "filterVMIsWithMAC_pod c isVmManaged mac = (case listRunningVMIsByMAC c mac of
     Inl err \<Rightarrow> Inl err | Inr vmis \<Rightarrow> Inr (filterManagedVMIs isVmManaged {} vmis))"

definition pod_find_mac ::
    "collision_client \<Rightarrow> bool \<Rightarrow> (string \<Rightarrow> go_error + bool) \<Rightarrow> (string \<Rightarrow> go_error + bool) \<Rightarrow> pod \<Rightarrow> string \<Rightarrow>
     go_error + ObjectReference list \<times> ObjectReference list" where
  "pod_find_mac c kubevirtEnabled isVmManaged isPodManaged pd mac =
     (case findRunningPodsWithMAC_pod c mac (pod_UID pd) of
        Inl err \<Rightarrow> Inl (ErrWrap ''failed to find Pods with MAC'' err)
      | Inr found \<Rightarrow>
          (let collidingPods = filterCollisionCandidatePods isPodManaged found (pod_Namespace pd);
               podRefs = map (\<lambda>x. podObjectRef (pod_Namespace x) (pod_Name x)) collidingPods
           in if kubevirtEnabled
              then case filterVMIsWithMAC_pod c isVmManaged mac of
                     Inl err \<Rightarrow> Inl (ErrWrap ''failed to find VMIs with MAC'' err)
                   | Inr collidingVMIs \<Rightarrow>
                       Inr (podRefs, podRefs @ map (\<lambda>x. vmiObjectRef (vmi_Namespace x) (vmi_Name x)) collidingVMIs)
              else Inr (podRefs, podRefs)))"

definition removePodFromAllCollisions ::
    "(string set \<Rightarrow> string list) \<Rightarrow> string \<Rightarrow> string \<Rightarrow> pool_manager \<Rightarrow> pool_manager" where
  "removePodFromAllCollisions sord ns name p = UpdateCollisionsMap sord (podObjectRef ns name) Map.empty p"

definition checkMACCollisions_pod ::
    "(string set \<Rightarrow> string list) \<Rightarrow> collision_client \<Rightarrow> (string \<Rightarrow> go_error + bool) \<Rightarrow>
     (string \<Rightarrow> go_error + bool) \<Rightarrow> pod \<Rightarrow> pool_manager \<Rightarrow> (go_error option \<times> recorded \<times> pool_manager) run" where
  "checkMACCollisions_pod sord c isVmManaged isPodManaged pd p =
     (if pod_Phase pd \<noteq> ''Running''
      then Ret (None, [], removePodFromAllCollisions sord (pod_Namespace pd) (pod_Name pd) p)
      else let macs = extractMACsFromPod c pd in
      if macs = {} then Ret (None, [], p)
      else let selfRef = podObjectRef (pod_Namespace pd) (pod_Name pd) in
        bind_run (for_each (check_mac (pod_find_mac c (IsKubevirtEnabled p) isVmManaged isPodManaged pd) selfRef)
                    (sord macs) (Map.empty, []))
          (\<lambda>(e, collisions, events). case e of
             Some err \<Rightarrow> Ret (Some err, events, p)
           | None \<Rightarrow> Ret (None, events, UpdateCollisionsMap sord selfRef collisions p)))"

definition Reconcile_pod_collision ::
    "kube \<Rightarrow> (string set \<Rightarrow> string list) \<Rightarrow> collision_client \<Rightarrow> request \<Rightarrow> pool_manager \<Rightarrow>
     (go_error option \<times> recorded \<times> pool_manager) run" where
  "Reconcile_pod_collision k sord c req p =
     (case get_pod c (request_Namespace req) (request_Name req) of
        Inl e \<Rightarrow>
          if IsNotFound (ErrApi e)
          then Ret (None, [], removePodFromAllCollisions sord (request_Namespace req) (request_Name req) p)
          else Ret (Some (ErrWrap ''failed to get Pod'' (ErrApi e)), [], p)
      | Inr pd \<Rightarrow>
          if IsKubevirtOwned pd then Ret (None, [], p)
          else (case IsPodManaged k (pod_Namespace pd) of
             Inl err \<Rightarrow> Ret (Some (ErrWrap ''failed to check if namespace is managed'' err), [], p)
           | Inr isManaged \<Rightarrow>
               if \<not> isManaged then Ret (None, [], p)
               else bind_run (checkMACCollisions_pod sord c (IsVirtualMachineManaged k) (IsPodManaged k) pd p)
                      (\<lambda>(e, events, p'). Ret (map_option (ErrWrap ''failed to check MAC collisions'') e, events, p'))))"

subsection \<open>Cross-type requests\<close>

text \<open>Each object found is asked for once; a list error only skips its address.\<close>

fun enqueue_new :: "request set \<Rightarrow> request list \<Rightarrow> request list \<times> request set" where
  "enqueue_new seen [] = ([], seen)"
| "enqueue_new seen (key # keys) =
     (if key \<in> seen then enqueue_new seen keys
      else let (rs, seen') = enqueue_new (insert key seen) keys in (key # rs, seen'))"

fun enqueue_all :: "(string \<Rightarrow> api_error + request list) \<Rightarrow> request set \<Rightarrow> string list \<Rightarrow> request list" where
  "enqueue_all list_by_mac seen [] = []"
| "enqueue_all list_by_mac seen (mac # macs) = (case list_by_mac mac of
     Inl _ \<Rightarrow> enqueue_all list_by_mac seen macs
   | Inr keys \<Rightarrow>
       let (rs, seen') = enqueue_new seen keys in rs @ enqueue_all list_by_mac seen' macs)"

definition mapPodToVMIs :: "collision_client \<Rightarrow> pod \<Rightarrow> request list" where
  "mapPodToVMIs c pd = enqueue_all (\<lambda>mac. map_sum id
     (map (\<lambda>v. \<lparr>request_Namespace = vmi_Namespace v, request_Name = vmi_Name v\<rparr>)) (vmis_by_mac c mac))
     {} (IndexPodByMAC c (CachedPod pd))"

definition mapVMIToPods :: "collision_client \<Rightarrow> vmi \<Rightarrow> request list" where
  "mapVMIToPods c v = enqueue_all (\<lambda>mac. map_sum id
     (map (\<lambda>x. \<lparr>request_Namespace = pod_Namespace x, request_Name = pod_Name x\<rparr>)) (pods_by_mac c mac))
     {} (IndexVMIByMAC (CachedVMI v))"

subsection \<open>The loop over the addresses\<close>

definition colliders :: "(string \<Rightarrow> go_error + ObjectReference list \<times> ObjectReference list) \<Rightarrow> string \<Rightarrow>
    ObjectReference list" where
  "colliders f mac = (case f mac of Inr (_, refs) \<Rightarrow> refs | Inl _ \<Rightarrow> [])"

definition found_collisions :: "(string \<Rightarrow> go_error + ObjectReference list \<times> ObjectReference list) \<Rightarrow>
    string set \<Rightarrow> collision_map" where
  "found_collisions f macs mac = (if mac \<in> macs \<and> colliders f mac \<noteq> [] then Some (colliders f mac) else None)"

lemma check_loop:
  "\<exists>e m ev'. for_each (check_mac f self) ms (m0, ev) = Ret (e, m, ev') \<and>
     (case e of
        Some err \<Rightarrow> \<exists>mac\<in>set ms. f mac = Inl err
      | None \<Rightarrow> (\<forall>mac\<in>set ms. \<exists>r. f mac = Inr r) \<and> m = m0 ++ found_collisions f (set ms))"
proof (induction ms arbitrary: m0 ev)
  case Nil
  then show ?case by (auto simp: found_collisions_def map_add_def)
next
  case (Cons mac ms)
  show ?case
  proof (cases "f mac")
    case (Inl err)
    then show ?thesis by (simp add: check_mac_def)
  next
    case (Inr r)
    obtain sk refs where r: "r = (sk, refs)" by (cases r)
    have c: "colliders f mac = refs" using Inr r by (simp add: colliders_def)
    let ?m = "if refs = [] then m0 else m0(mac \<mapsto> refs)"
    have "?m ++ found_collisions f (set ms) = m0 ++ found_collisions f (set (mac # ms))"
      using c by (auto simp: found_collisions_def map_add_def)
    moreover obtain ev1 where st: "for_each (check_mac f self) (mac # ms) (m0, ev) =
        for_each (check_mac f self) ms (?m, ev1)"
      using Inr r by (cases "refs = []") (auto simp: check_mac_def)
    moreover obtain e m ev' where IH: "for_each (check_mac f self) ms (?m, ev1) = Ret (e, m, ev')"
      "case e of Some err \<Rightarrow> \<exists>mac\<in>set ms. f mac = Inl err
       | None \<Rightarrow> (\<forall>mac\<in>set ms. \<exists>r. f mac = Inr r) \<and> m = ?m ++ found_collisions f (set ms)"
      using Cons.IH [of ?m ev1] by blast
    ultimately show ?thesis
      using Inr by (intro exI [of _ e] exI [of _ m] exI [of _ ev']) (cases e; simp only: st; simp)
  qed
qed

text \<open>The whole check, for either kind of object.\<close>

definition check_outcome ::
    "(string set \<Rightarrow> string list) \<Rightarrow> ObjectReference \<Rightarrow> (string \<Rightarrow> go_error + ObjectReference list \<times> ObjectReference list) \<Rightarrow>
     string set \<Rightarrow> pool_manager \<Rightarrow> (go_error option \<times> recorded \<times> pool_manager) run \<Rightarrow> bool" where
  "check_outcome sord self f macs p r \<longleftrightarrow>
     (\<exists>e ev p'. r = Ret (e, ev, p') \<and>
        (case e of
           Some err \<Rightarrow> p' = p \<and> (\<exists>mac\<in>macs. f mac = Inl err)
         | None \<Rightarrow> p' = UpdateCollisionsMap sord self (found_collisions f macs) p))"

lemma check_outcome_loop:
  assumes "set_order sord" "finite macs"
  shows "check_outcome sord self f macs p
     (bind_run (for_each (check_mac f self) (sord macs) (Map.empty, [])) (\<lambda>(e, collisions, events). case e of
        Some err \<Rightarrow> Ret (Some err, events, p)
      | None \<Rightarrow> Ret (None, events, UpdateCollisionsMap sord self collisions p)))"
proof -
  have "set (sord macs) = macs" using assms by (simp add: set_order_def)
  with check_loop [of f self "sord macs" Map.empty "[]"] obtain e m ev where
    "for_each (check_mac f self) (sord macs) (Map.empty, []) = Ret (e, m, ev)"
    "case e of Some err \<Rightarrow> \<exists>mac\<in>macs. f mac = Inl err
     | None \<Rightarrow> (\<forall>mac\<in>macs. \<exists>r. f mac = Inr r) \<and> m = Map.empty ++ found_collisions f macs"
    by metis
  then show ?thesis by (cases e) (simp_all add: check_outcome_def)
qed

lemma found_collisions_empty [simp]: "found_collisions f {} = Map.empty"
  by (auto simp: found_collisions_def)

lemma collisions_given_found: "finite macs \<Longrightarrow> collisions_given (found_collisions f macs)"
proof -
  assume "finite macs"
  moreover have "dom (found_collisions f macs) \<subseteq> macs" by (auto simp: found_collisions_def split: if_splits)
  ultimately show ?thesis
    by (auto simp: collisions_given_def found_collisions_def finite_subset split: if_splits)
qed

subsection \<open>The two checks\<close>

text \<open>What a running instance collides with at an address, given the two indexed lists.\<close>

definition vmi_colliders ::
    "(string \<Rightarrow> go_error + bool) \<Rightarrow> (string \<Rightarrow> go_error + bool) \<Rightarrow> vmi \<Rightarrow> vmi list \<Rightarrow> pod list \<Rightarrow>
     ObjectReference list" where
  "vmi_colliders isVmManaged isPodManaged v vmis pods =
     map (\<lambda>x. vmiObjectRef (vmi_Namespace x) (vmi_Name x))
       (filter (\<lambda>x. vmi_Phase x = ''Running'' \<and> vmi_UID x \<noteq> vmi_UID v \<and> \<not> same_migration v x \<and>
          (vmi_Namespace x = vmi_Namespace v \<or> isVmManaged (vmi_Namespace x) \<noteq> Inr False)) vmis) @
     map (\<lambda>x. podObjectRef (pod_Namespace x) (pod_Name x))
       (filter (\<lambda>x. pod_Phase x = ''Running'' \<and> \<not> IsKubevirtOwned x \<and>
          (pod_Namespace x = [] \<or> isPodManaged (pod_Namespace x) \<noteq> Inr False)) pods)"

lemma vmi_find_mac_eq:
  "colliders (vmi_find_mac c isV isP v) mac =
     (case (vmis_by_mac c mac, pods_by_mac c mac) of
        (Inr vmis, Inr pods) \<Rightarrow> vmi_colliders isV isP v vmis pods | _ \<Rightarrow> [])"
  "(\<exists>err. vmi_find_mac c isV isP v mac = Inl err) \<longleftrightarrow>
     (\<exists>e. vmis_by_mac c mac = Inl e \<or> pods_by_mac c mac = Inl e)"
  by (auto simp: colliders_def vmi_find_mac_def listRunningVMIsByMACWithExcludeUID_def listVMIsByMAC_def
        findRunningPodsWithMAC_vmi_def listRunningPodsWithMAC_def filterOutUnmanagedNamespaces_def
        filterManagedVMIs_eq filterOutDecentralizedMigrations_eq filterCollisionCandidatePods_def
        filterCandidatePods_eq vmi_colliders_def Let_def conj_ac split: sum.splits)

definition counted_macs_vmi :: "vmi \<Rightarrow> string set" where
  "counted_macs_vmi v = (if vmi_Phase v = ''Running'' then set (supportedMACsFromVMI v) else {})"

lemma checkMACCollisions_vmi_outcome:
  assumes "set_order sord"
  shows "check_outcome sord (vmiObjectRef (vmi_Namespace v) (vmi_Name v)) (vmi_find_mac c isV isP v)
     (counted_macs_vmi v) p (checkMACCollisions_vmi sord c isV isP v p)"
  using check_outcome_loop [OF assms, of "set (supportedMACsFromVMI v)"]
  by (auto simp: checkMACCollisions_vmi_def counted_macs_vmi_def Let_def removeVMIFromAllCollisions_def
        check_outcome_def)

lemma checkMACCollisions_pod_outcome:
  assumes "set_order sord" "pod_Phase pd = ''Running''" "extractMACsFromPod c pd \<noteq> {}"
  shows "check_outcome sord (podObjectRef (pod_Namespace pd) (pod_Name pd))
     (pod_find_mac c (IsKubevirtEnabled p) isV isP pd) (extractMACsFromPod c pd) p
     (checkMACCollisions_pod sord c isV isP pd p)"
  using check_outcome_loop [OF assms(1), of "extractMACsFromPod c pd"] assms(2,3)
  by (simp add: checkMACCollisions_pod_def extractMACsFromPod_def Let_def)

text \<open>What both controllers keep: the gauge exact, and everything but the tracked collisions and the gauge.\<close>

definition gauge_kept :: "pool_manager \<Rightarrow> pool_manager \<Rightarrow> bool" where
  "gauge_kept p p' \<longleftrightarrow> collisions_ok p' \<and>
     p' = p\<lparr>collidingObjectsPerMAC := collidingObjectsPerMAC p', pm_metrics := pm_metrics p'\<rparr>"

lemma gauge_kept_refl [simp]: "gauge_kept p p \<longleftrightarrow> collisions_ok p"
  by (simp add: gauge_kept_def)

lemma gauge_kept_Update:
  "collisions_ok p \<Longrightarrow> set_order sord \<Longrightarrow> collisions_given c \<Longrightarrow> gauge_kept p (UpdateCollisionsMap sord ref c p)"
  unfolding gauge_kept_def by (intro conjI UpdateCollisionsMap_gauge_keeps) (simp_all add: UpdateCollisionsMap_def Let_def)

lemma check_outcome_ok:
  assumes "check_outcome sord self f macs p r" "collisions_ok p" "set_order sord" "finite macs"
  shows "\<exists>e ev p'. r = Ret (e, ev, p') \<and> gauge_kept p p'"
  using assms gauge_kept_Update [OF assms(2,3) collisions_given_found [OF assms(4)]]
  by (auto simp: check_outcome_def split: option.splits)

lemma checks_keep_gauge:
  assumes "collisions_ok p" "set_order sord"
  shows "\<exists>e ev p'. checkMACCollisions_vmi sord c isV isP v p = Ret (e, ev, p') \<and> gauge_kept p p'"
    and "\<exists>e ev p'. checkMACCollisions_pod sord c isV isP pd p = Ret (e, ev, p') \<and> gauge_kept p p'"
proof -
  show "\<exists>e ev p'. checkMACCollisions_vmi sord c isV isP v p = Ret (e, ev, p') \<and> gauge_kept p p'"
    using checkMACCollisions_vmi_outcome [OF assms(2)] assms
    by (rule check_outcome_ok) (simp add: counted_macs_vmi_def)
  have none: "gauge_kept p (UpdateCollisionsMap sord ref Map.empty p)" for ref
    using assms by (rule gauge_kept_Update) (simp add: collisions_given_def)
  show "\<exists>e ev p'. checkMACCollisions_pod sord c isV isP pd p = Ret (e, ev, p') \<and> gauge_kept p p'"
  proof (cases "pod_Phase pd = ''Running'' \<and> extractMACsFromPod c pd \<noteq> {}")
    case True
    then show ?thesis
      using checkMACCollisions_pod_outcome [OF assms(2), of pd c p isV isP] assms
      by (intro check_outcome_ok [where macs = "extractMACsFromPod c pd"]) (auto simp: extractMACsFromPod_def)
  next
    case False
    then show ?thesis
      using assms(1) none
      by (auto simp: checkMACCollisions_pod_def removePodFromAllCollisions_def Let_def)
  qed
qed

subsection \<open>Properties\<close>

text \<open>C30: A check of an instance that meets no list error tracks exactly its real collisions. At each
  address it counts with (none unless it is running) it is listed first, followed by the other running
  instances of that address that are not the other side of one of its migrations and whose namespace is
  its own or not known to be unmanaged, and the running pods that are not KubeVirt's with a namespace not
  known to be unmanaged, provided there is one at all; everywhere else it is removed. With a list error
  nothing changes.\<close>

theorem checkMACCollisions_vmi_tracks:
  assumes "set_order sord"
  shows "\<exists>e ev p'. checkMACCollisions_vmi sord c isV isP v p = Ret (e, ev, p') \<and>
     (case e of
        Some err \<Rightarrow> p' = p \<and> (\<exists>mac\<in>counted_macs_vmi v. \<exists>x. vmis_by_mac c mac = Inl x \<or> pods_by_mac c mac = Inl x)
      | None \<Rightarrow> \<forall>mac. tracked p' mac =
          (case (if mac \<in> counted_macs_vmi v
                 then case (vmis_by_mac c mac, pods_by_mac c mac) of
                        (Inr vmis, Inr pods) \<Rightarrow> vmi_colliders isV isP v vmis pods | _ \<Rightarrow> [] else []) of
             [] \<Rightarrow> removeObjectFromAllMACs sord (tracked p) (ref_Key (vmiObjectRef (vmi_Namespace v) (vmi_Name v))) mac
           | refs \<Rightarrow> Some (vmiObjectRef (vmi_Namespace v) (vmi_Name v) # refs)))"
proof -
  let ?self = "vmiObjectRef (vmi_Namespace v) (vmi_Name v)" and ?f = "vmi_find_mac c isV isP v"
  obtain e ev p' where r: "checkMACCollisions_vmi sord c isV isP v p = Ret (e, ev, p')"
    "case e of Some err \<Rightarrow> p' = p \<and> (\<exists>mac\<in>counted_macs_vmi v. ?f mac = Inl err)
     | None \<Rightarrow> p' = UpdateCollisionsMap sord ?self (found_collisions ?f (counted_macs_vmi v)) p"
    using checkMACCollisions_vmi_outcome [OF assms] unfolding check_outcome_def by blast
  show ?thesis
  proof (cases e)
    case None
    have "finite (dom (found_collisions ?f (counted_macs_vmi v)))"
      using collisions_given_found [of "counted_macs_vmi v"] by (simp add: collisions_given_def counted_macs_vmi_def)
    from tracked_UpdateCollisionsMap [OF assms this] None r show ?thesis
      by (auto simp: found_collisions_def vmi_find_mac_eq(1) split: list.split)
  next
    case (Some err)
    with r obtain mac where "p' = p" "mac \<in> counted_macs_vmi v" "?f mac = Inl err" by auto
    with vmi_find_mac_eq(2) [of c isV isP v mac] r(1) Some show ?thesis by (simp, blast)
  qed
qed

definition sample_vmi :: vmi where
  "sample_vmi = \<lparr>vmi_Name = ''a'', vmi_Namespace = ''default'', vmi_UID = ''1'', vmi_DeletionTimestamp = False,
     vmi_Networks = [\<lparr>network_Name = ''br1'', network_Multus = True, network_Other = []\<rparr>],
     vmi_Interfaces = [sample_iface], vmi_StatusInterfaces = [\<lparr>sif_Name = ''br1'', sif_MAC = ''02:00:00:00:00:07''\<rparr>],
     vmi_Phase = ''Running'', vmi_MigrationState = None, vmi_Other = []\<rparr>"

definition sample_client :: collision_client where
  "sample_client = \<lparr>get_vmi = (\<lambda>_ _. Inr sample_vmi), get_pod = (\<lambda>_ _. Inr sample_pod),
     vmis_by_mac = (\<lambda>_. Inr [sample_vmi, sample_vmi\<lparr>vmi_Name := ''b'', vmi_UID := ''2''\<rparr>]),
     pods_by_mac = (\<lambda>_. Inr []), parse_networks = (\<lambda>_. Inr [])\<rparr>"

theorem checkMACCollisions_vmi_tracks_witness:
  "\<exists>e ev p'. checkMACCollisions_vmi sorted_list_of_set sample_client (\<lambda>_. Inr True) (\<lambda>_. Inr True)
     sample_vmi sample_pool = Ret (e, ev, p') \<and> e = None"
  using checkMACCollisions_vmi_tracks [OF set_order_sorted, of sample_client "\<lambda>_. Inr True" "\<lambda>_. Inr True"
      sample_vmi sample_pool]
  by (auto simp: sample_client_def split: option.splits)

lemma collision_reconcilers_keep:
  assumes "collisions_ok p" "set_order sord"
  shows "(\<exists>e ev p'. Reconcile_vmi k sord c req p = Ret (e, ev, p') \<and> gauge_kept p p') \<and>
     (\<exists>e ev p'. Reconcile_pod_collision k sord c req p = Ret (e, ev, p') \<and> gauge_kept p p')"
proof -
  have none: "gauge_kept p (UpdateCollisionsMap sord ref Map.empty p)" for ref
    using assms by (rule gauge_kept_Update) (simp add: collisions_given_def)
  have "\<exists>e ev p'. Reconcile_vmi k sord c req p = Ret (e, ev, p') \<and> gauge_kept p p'"
  proof (cases "get_vmi c (request_Namespace req) (request_Name req)")
    case (Inr v)
    with assms(1) checks_keep_gauge(1) [OF assms, of c "IsVirtualMachineManaged k" "IsPodManaged k" v]
    show ?thesis by (auto simp: Reconcile_vmi_def split: sum.split)
  qed (use assms(1) none in \<open>auto simp: Reconcile_vmi_def removeVMIFromAllCollisions_def\<close>)
  moreover have "\<exists>e ev p'. Reconcile_pod_collision k sord c req p = Ret (e, ev, p') \<and> gauge_kept p p'"
  proof (cases "get_pod c (request_Namespace req) (request_Name req)")
    case (Inr pd)
    with assms(1) checks_keep_gauge(2) [OF assms, of c "IsVirtualMachineManaged k" "IsPodManaged k" pd]
    show ?thesis by (auto simp: Reconcile_pod_collision_def split: sum.split)
  qed (use assms(1) none in \<open>auto simp: Reconcile_pod_collision_def removePodFromAllCollisions_def\<close>)
  ultimately show ?thesis ..
qed



text \<open>C32: The watch predicate loses nothing. When it drops an update of an instance (same name, namespace
  and UID), checking the new version has exactly the outcome of checking the old one: error, recorded
  events and tracked collisions.\<close>

theorem collisionRelevantChanges_sound:
  assumes "\<not> collisionRelevantChanges (UpdateEvent oldVMI newVMI)"
    and "vmi_Name newVMI = vmi_Name oldVMI" "vmi_Namespace newVMI = vmi_Namespace oldVMI"
      "vmi_UID newVMI = vmi_UID oldVMI"
  shows "checkMACCollisions_vmi sord c isV isP newVMI p = checkMACCollisions_vmi sord c isV isP oldVMI p"
proof -
  have ph: "vmi_Phase newVMI = vmi_Phase oldVMI"
    and macs: "set (supportedMACsFromVMI newVMI) = set (supportedMACsFromVMI oldVMI)"
    and mig: "extractMigrationUIDs newVMI = extractMigrationUIDs oldVMI"
    using assms(1)
    by (auto simp: collisionRelevantChanges_def macAddressesChanged_def migrationStateChanged_def
          migrationUIDs_eq split: if_splits)
  have fo: "filterOutDecentralizedMigrations newVMI = filterOutDecentralizedMigrations oldVMI"
    by (simp add: fun_eq_iff filterOutDecentralizedMigrations_def mig)
  have "vmi_find_mac c isV isP newVMI = vmi_find_mac c isV isP oldVMI"
    unfolding vmi_find_mac_def fo assms(2-4) ..
  then show ?thesis unfolding checkMACCollisions_vmi_def macs ph assms(2-4) by simp
qed

theorem collisionRelevantChanges_sound_witness:
  "checkMACCollisions_vmi sorted_list_of_set sample_client (\<lambda>_. Inr True) (\<lambda>_. Inr True)
     (sample_vmi\<lparr>vmi_Other := ''x''\<rparr>) sample_pool =
   checkMACCollisions_vmi sorted_list_of_set sample_client (\<lambda>_. Inr True) (\<lambda>_. Inr True) sample_vmi sample_pool"
  by (rule collisionRelevantChanges_sound)
     (simp_all add: collisionRelevantChanges_def macAddressesChanged_def migrationStateChanged_def
        supportedMACsFromVMI_def getSourceMigrationUID_def getTargetMigrationUID_def)

end
