(* ===== verification/Controllers.thy ===== *)
theory Controllers
  imports VmTransactions PodPool MacCollision
begin

section \<open>The controllers: \<open>pkg/controller/virtualmachine\<close>, \<open>pkg/controller/pod\<close>\<close>

text \<open>
  The reconcilers that follow the persisted objects: the one of virtual machines commits the
  transaction of a stored machine and releases the addresses of a deleted one (removing a finalizer
  that old versions of the program set), the one of pods allocates for a stored pod and releases
  when it is gone. What the manager's client answers is a parameter; a reconciliation may read the
  same machine twice, so there are two answers.

  Shown: what a reconciliation does to the pool on every branch, and which update it sends.
\<close>

subsection \<open>Retries\<close>

text \<open>
  \<open>retry.RetryOnConflict\<close>: a function is tried again as long as it reports a conflict and tries
  are left; \<open>DefaultRetry\<close> has five. Try number \<open>i\<close> of the function is \<open>fn i\<close>.
\<close>

fun RetryOnConflict :: "nat \<Rightarrow> nat \<Rightarrow> (nat \<Rightarrow> 's \<Rightarrow> api_error option \<times> 's) \<Rightarrow> 's \<Rightarrow> api_error option \<times> 's" where
  "RetryOnConflict 0 i fn s = (None, s)"
| "RetryOnConflict (Suc steps) i fn s = (case fn i s of
     (None, s') \<Rightarrow> (None, s')
   | (Some err, s') \<Rightarrow>
       if err = Conflict
       then if steps = 0 then (Some err, s') else RetryOnConflict steps (Suc i) fn s'
       else (Some err, s'))"

definition DefaultRetry_Steps :: nat where
  "DefaultRetry_Steps = 5"

subsection \<open>Virtual machines\<close>

definition RuntimeObjectFinalizerName :: string where
  "RuntimeObjectFinalizerName = ''k8s.v1.cni.cncf.io/kubeMacPool''"

record vm_client =
  read_vm :: "request \<Rightarrow> api_error + virtual_machine"
  reread_vm :: "request \<Rightarrow> api_error + virtual_machine"
  update_vm :: "nat \<Rightarrow> virtual_machine \<Rightarrow> api_error option"

text \<open>Every try sends the same object: its resource version is never read again.\<close>

definition removeLegacyFinalizerIfPresent ::
    "vm_client \<Rightarrow> virtual_machine \<Rightarrow> go_error option \<times> virtual_machine list" where
  "removeLegacyFinalizerIfPresent c vm =
     (if ContainsString (vm_Finalizers vm) RuntimeObjectFinalizerName
      then case RetryOnConflict DefaultRetry_Steps 0
                  (\<lambda>i (vm, sent).
                     let vm' = vm\<lparr>vm_Finalizers := RemoveString (vm_Finalizers vm) RuntimeObjectFinalizerName\<rparr>
                     in (update_vm c i vm', vm', sent @ [vm']))
                  (vm, []) of
             (Some err, _, sent) \<Rightarrow>
               (Some (ErrWrap ''Failed to updated VM instance with finalizer removal'' (ErrApi err)), sent)
           | (None, _, sent) \<Rightarrow> (None, sent)
      else (None, []))"

definition isVmDeletionAlreadyPersistedByFormerUpdates :: "go_error \<Rightarrow> bool" where
  "isVmDeletionAlreadyPersistedByFormerUpdates err = (if IsNotFound err then True else False)"

definition freeVmFromMacPool ::
    "vm_client \<Rightarrow> request \<Rightarrow> pool_manager \<Rightarrow> go_error option \<times> virtual_machine list \<times> pool_manager" where
  "freeVmFromMacPool c req p = (case ReleaseAllVirtualMachineMacs (VmNamespacedFromRequest req) p of
     (Some err, p1) \<Rightarrow> (Some (ErrWrap ''failed to release vm macs'' err), [], p1)
   | (None, p1) \<Rightarrow>
       (case reread_vm c req of
          Inl e \<Rightarrow>
            if isVmDeletionAlreadyPersistedByFormerUpdates (ErrApi e) then (None, [], p1)
            else (Some (ErrWrap ''Failed to refresh the vm object'' (ErrApi e)), [], p1)
        | Inr vm \<Rightarrow>
            (case removeLegacyFinalizerIfPresent c vm of
               (Some err, sent) \<Rightarrow> (Some (ErrWrap ''failed to remove the finalizer'' err), sent, p1)
             | (None, sent) \<Rightarrow> (None, sent, p1))))"

definition reconcile_failed :: string where
  "reconcile_failed = ''Failed to reconcile kubemacpool after virtual machine's creation/update event''"

definition Reconcile_vm ::
    "kube \<Rightarrow> (string \<Rightarrow> go_error + time) \<Rightarrow> (macKey set \<Rightarrow> macKey list) \<Rightarrow> vm_client \<Rightarrow> request \<Rightarrow>
     pool_manager \<Rightarrow> (go_error option \<times> virtual_machine list \<times> pool_manager) run" where
  "Reconcile_vm k parse kord c req p = (case read_vm c req of
     Inl e \<Rightarrow>
       if IsNotFound (ErrApi e)
       then (case ReleaseAllVirtualMachineMacs (VmNamespacedFromRequest req) p of
               (Some err, p1) \<Rightarrow> Ret (Some (ErrWrap ''failed to release vm macs'' err), [], p1)
             | (None, p1) \<Rightarrow> Ret (None, [], p1))
       else Ret (Some (ErrWrap ''Failed to read the request object'' (ErrApi e)), [], p)
   | Inr vm \<Rightarrow>
       if \<not> IsVirtualMachineDeletionInProgress vm
       then (case IsVirtualMachineManaged k (request_Namespace req) of
               Inl err \<Rightarrow> Ret (Some (ErrWrap ''Failed to check if vm is managed'' err), [], p)
             | Inr vmShouldBeManaged \<Rightarrow>
                 if \<not> vmShouldBeManaged then Ret (None, [], p)
                 else (case GetTransactionTimestampAnnotationFromVm parse vm of
                         Inl err \<Rightarrow>
                           if IsNotFound err then Ret (None, [], p)
                           else Ret (Some (ErrWrap reconcile_failed err), [], p)
                       | Inr latestPersistedTransactionTimeStamp \<Rightarrow>
                           bind_run (MarkVMAsReady kord vm latestPersistedTransactionTimeStamp p) (\<lambda>(e, p1).
                             Ret (map_option (ErrWrap reconcile_failed) e, [], p1))))
       else (case freeVmFromMacPool c req p of
               (Some err, sent, p1) \<Rightarrow>
                 Ret (Some (ErrWrap ''Failed to reconcile kubemacpool after virtual machine's deletion event'' err), sent, p1)
             | (None, sent, p1) \<Rightarrow> Ret (None, sent, p1)))"

subsection \<open>Pods\<close>

text \<open>
  The allocation works on the reconciler's own copy of the pod, which is then dropped, and its
  error is only logged.
\<close>

definition Reconcile_pod ::
    "kube \<Rightarrow> codec \<Rightarrow> ((string \<times> string) list \<Rightarrow> (string \<times> string) list) \<Rightarrow>
     (request \<Rightarrow> api_error + pod) \<Rightarrow> request \<Rightarrow> pool_manager \<Rightarrow> (go_error option \<times> pool_manager) run" where
  "Reconcile_pod k js ord get req p = (case IsPodManaged k (request_Namespace req) of
     Inl err \<Rightarrow> Ret (Some (ErrWrap ''Failed to check if pod is managed'' err), p)
   | Inr instanceManaged \<Rightarrow>
       if \<not> instanceManaged then Ret (None, p)
       else (case get req of
               Inl e \<Rightarrow>
                 if IsNotFound (ErrApi e)
                 then Ret (None, snd (ReleaseAllPodMacs
                        (''pod/'' @ request_Namespace req @ ''/'' @ request_Name req) p))
                 else Ret (Some (ErrWrap ''Failed to read the request object'' (ErrApi e)), p)
             | Inr pd \<Rightarrow>
                 if pod_Annotations pd = None then Ret (None, p)
                 else bind_run (AllocatePodMac k js ord pd True p) (\<lambda>(_, _, p1). Ret (None, p1))))"

subsection \<open>Sending one object until it is accepted\<close>

definition send :: "(nat \<Rightarrow> 'v \<Rightarrow> api_error option) \<Rightarrow> ('v \<Rightarrow> 'v) \<Rightarrow> nat \<Rightarrow> 'v \<times> 'v list \<Rightarrow>
    api_error option \<times> 'v \<times> 'v list" where
  "send upd f i = (\<lambda>(v, sent). (upd i (f v), f v, sent @ [f v]))"

lemma send_apply [simp]: "send upd f i (v, sent) = (upd i (f v), f v, sent @ [f v])"
  by (simp add: send_def)

lemma RetryOnConflict_send:
  assumes "\<And>v. f (f v) = f v"
  shows "\<exists>e v n. RetryOnConflict steps i (send upd f) (x, sent) = (e, v, sent @ replicate n (f x)) \<and>
     n \<le> steps \<and> (0 < steps \<longrightarrow> (e = None \<longleftrightarrow>
       (\<exists>t < steps. upd (i + t) (f x) = None \<and> (\<forall>u<t. upd (i + u) (f x) = Some Conflict))))"
proof (induction steps arbitrary: i x sent)
  case (Suc steps)
  show ?case
  proof (cases "upd i (f x) = Some Conflict \<and> 0 < steps")
    case True
    obtain e v n where IH: "RetryOnConflict steps (Suc i) (send upd f) (f x, sent @ [f x]) =
        (e, v, (sent @ [f x]) @ replicate n (f x))" "n \<le> steps"
      "e = None \<longleftrightarrow> (\<exists>t < steps. upd (Suc i + t) (f x) = None \<and> (\<forall>u<t. upd (Suc i + u) (f x) = Some Conflict))"
      using Suc.IH [of "Suc i" "f x" "sent @ [f x]"] True by (auto simp: assms)
    have "e = None \<longleftrightarrow>
        (\<exists>t < Suc steps. upd (i + t) (f x) = None \<and> (\<forall>u<t. upd (i + u) (f x) = Some Conflict))"
      using True by (simp add: IH(3) Ex_less_Suc2 All_less_Suc2)
    with True IH show ?thesis
      by (intro exI [of _ e] exI [of _ v] exI [of _ "Suc n"]) simp
  next
    case False
    have "(\<exists>t < Suc steps. upd (i + t) (f x) = None \<and> (\<forall>u<t. upd (i + u) (f x) = Some Conflict)) \<longleftrightarrow>
        upd i (f x) = None"
      using False by (auto simp: Ex_less_Suc2 All_less_Suc2)
    then show ?thesis
      using False
      by (intro exI [of _ "upd i (f x)"] exI [of _ "f x"] exI [of _ 1])
         (auto split: option.splits)
  qed
qed simp

definition without_finalizer :: "virtual_machine \<Rightarrow> virtual_machine" where
  "without_finalizer vm =
     vm\<lparr>vm_Finalizers := filter (\<lambda>x. x \<noteq> RuntimeObjectFinalizerName) (vm_Finalizers vm)\<rparr>"

text \<open>The machine is accepted within the tries that are made as long as there are conflicts.\<close>

definition accepted :: "vm_client \<Rightarrow> virtual_machine \<Rightarrow> bool" where
  "accepted c vm \<longleftrightarrow> (\<exists>t<DefaultRetry_Steps. update_vm c t vm = None \<and> (\<forall>u<t. update_vm c u vm = Some Conflict))"

lemma removeLegacyFinalizerIfPresent_sends:
  "\<exists>e n. removeLegacyFinalizerIfPresent c vm = (e, replicate n (without_finalizer vm)) \<and>
     n \<le> (if RuntimeObjectFinalizerName \<in> set (vm_Finalizers vm) then DefaultRetry_Steps else 0) \<and>
     (e = None \<longleftrightarrow> (RuntimeObjectFinalizerName \<in> set (vm_Finalizers vm) \<longrightarrow> accepted c (without_finalizer vm)))"
proof -
  have fn: "(\<lambda>i (vm, sent). let vm' = vm\<lparr>vm_Finalizers := RemoveString (vm_Finalizers vm) RuntimeObjectFinalizerName\<rparr>
       in (update_vm c i vm', vm', sent @ [vm'])) = send (update_vm c) without_finalizer"
    by (auto simp: fun_eq_iff send_def without_finalizer_def RemoveString_eq_filter Let_def)
  obtain e v n where "RetryOnConflict DefaultRetry_Steps 0 (send (update_vm c) without_finalizer) (vm, []) =
      (e, v, replicate n (without_finalizer vm))" "n \<le> DefaultRetry_Steps"
      "e = None \<longleftrightarrow> accepted c (without_finalizer vm)"
    using RetryOnConflict_send [of without_finalizer DefaultRetry_Steps 0 "update_vm c" vm "[]"]
    by (auto simp: accepted_def without_finalizer_def DefaultRetry_Steps_def)
  then show ?thesis
    unfolding removeLegacyFinalizerIfPresent_def fn by (auto split: option.split)
qed

subsection \<open>Properties\<close>

lemma VmNamespacedFromRequest_eq:
  "VmNamespacedFromRequest req = ''vm/'' @ request_Namespace req @ ''/'' @ request_Name req"
  by (simp add: VmNamespacedFromRequest_def VmNamespaced_def)

subsection \<open>Whatever happens\<close>

text \<open>A reconciliation for the object of name \<open>owner\<close> ends in a well-formed map in which no entry is newly
  stamped, and either the addresses of the object are released or only its own entries differ.\<close>

definition reconciled :: "string \<Rightarrow> macMap \<Rightarrow> macMap \<Rightarrow> bool" where
  "reconciled owner m m' \<longleftrightarrow> macMap_ok m' \<and> stamped_entries m' \<subseteq> stamped_entries m \<and>
     (m' = released m owner \<or> others owner m' = others owner m)"

lemma reconciled_simps [simp]:
  "reconciled owner m m \<longleftrightarrow> macMap_ok m" "macMap_ok m \<Longrightarrow> reconciled owner m (released m owner)"
  by (auto simp: reconciled_def macMap_ok_released dest: subsetD [OF stamped_released])

lemma freeVmFromMacPool_releases:
  "\<exists>e sent. freeVmFromMacPool c req p = (e, sent, p\<lparr>macPoolMap := released (macPoolMap p) (VmNamespacedFromRequest req)\<rparr>)"
  by (auto simp: freeVmFromMacPool_def ReleaseAllVirtualMachineMacs_eq split: sum.split prod.split option.split)

lemma Reconcile_vm_ends:
  assumes "macMap_ok (macPoolMap p)" "key_order kord"
    and "\<And>vm. read_vm c req = Inr vm \<Longrightarrow> vm_Template vm \<noteq> None \<and> VmNamespaced vm = VmNamespacedFromRequest req"
  shows "\<exists>e sent m. Reconcile_vm k parse kord c req p = Ret (e, sent, p\<lparr>macPoolMap := m\<rparr>) \<and>
     reconciled (VmNamespacedFromRequest req) (macPoolMap p) m"
proof (cases "read_vm c req")
  case (Inl err)
  then show ?thesis using assms(1)
    by (cases err) (auto simp: Reconcile_vm_def ReleaseAllVirtualMachineMacs_eq intro: exI [of _ "macPoolMap p"])
next
  case (Inr vm)
  obtain t where t: "vm_Template vm = Some t" "VmNamespaced vm = VmNamespacedFromRequest req"
    using assms(3) [OF Inr] by auto
  have "\<exists>m. MarkVMAsReady kord vm ts p = Ret (None, p\<lparr>macPoolMap := m\<rparr>) \<and>
      reconciled (VmNamespacedFromRequest req) (macPoolMap p) m" for ts
  proof -
    obtain ks where "MarkVMAsReady kord vm ts p =
        Ret (None, p\<lparr>macPoolMap := align_all (VmNamespaced vm) (Interfaces t) ks (macPoolMap p)\<rparr>)"
      using t(1) assms(1,2) by (rule MarkVMAsReady_eq)
    moreover have "reconciled (VmNamespacedFromRequest req) (macPoolMap p)
        (align_all (VmNamespaced vm) (Interfaces t) ks (macPoolMap p))"
      using assms(1) by (simp add: t(2) reconciled_def align_all_ok align_all_others align_all_stamps)
    ultimately show ?thesis by blast
  qed
  note commit = this
  have kept: ?thesis if "Reconcile_vm k parse kord c req p = Ret (e, [], p)" for e
    using that assms(1) by (intro exI [of _ e] exI [of _ "[]"] exI [of _ "macPoolMap p"]) simp
  show ?thesis
  proof (cases "IsVirtualMachineDeletionInProgress vm")
    case True
    obtain e sent where "freeVmFromMacPool c req p = (e, sent, p\<lparr>macPoolMap := released (macPoolMap p) (VmNamespacedFromRequest req)\<rparr>)"
      using freeVmFromMacPool_releases by blast
    with True Inr assms(1) show ?thesis by (cases e) (auto simp: Reconcile_vm_def)
  next
    case False
    show ?thesis
    proof (cases "IsVirtualMachineManaged k (request_Namespace req) = Inr True \<and>
        (\<exists>ts. GetTransactionTimestampAnnotationFromVm parse vm = Inr ts)")
      case True
      then obtain ts where "GetTransactionTimestampAnnotationFromVm parse vm = Inr ts" by auto
      with True False Inr commit [of ts] show ?thesis by (auto simp: Reconcile_vm_def)
    next
      case other: False
      have "\<exists>e. Reconcile_vm k parse kord c req p = Ret (e, [], p)"
        using other False Inr by (auto simp: Reconcile_vm_def split: sum.split)
      with kept show ?thesis by blast
    qed
  qed
qed

lemma Reconcile_pod_ends:
  assumes "pool_ok p" "\<And>pd. get req = Inr pd \<Longrightarrow> \<not> null_network js pd \<and> pod_Name pd \<noteq> [] \<and>
      podNamespaced pd = ''pod/'' @ request_Namespace req @ ''/'' @ request_Name req"
  shows "\<exists>e p'. Reconcile_pod k js ord get req p = Ret (e, p') \<and> pool_ok p' \<and> same_config p p' \<and>
     reconciled (''pod/'' @ request_Namespace req @ ''/'' @ request_Name req) (macPoolMap p) (macPoolMap p')"
proof -
  let ?owner = "''pod/'' @ request_Namespace req @ ''/'' @ request_Name req"
  have ok: "macMap_ok (macPoolMap p)" using assms(1) by (simp add: pool_ok_def)
  have "\<exists>e pd' p'. AllocatePodMac k js ord pd True p = Ret (e, pd', p') \<and> pool_ok p' \<and> same_config p p' \<and>
      reconciled ?owner (macPoolMap p) (macPoolMap p')" if "get req = Inr pd" for pd
  proof -
    from AllocatePodMac_framed [of pd p js k ord True] assms(1) assms(2) [OF that]
    obtain e pd' p' where "AllocatePodMac k js ord pd True p = Ret (e, pd', p')" "framed (podNamespaced pd) True p p'" by auto
    with AllocatePodMac_stamps [OF this(1) assms(1)] assms(2) [OF that] show ?thesis
      by (auto simp: framed_def reconciled_def pool_ok_def)
  qed
  then show ?thesis using assms(1) ok
    by (cases "IsPodManaged k (request_Namespace req)"; cases "get req")
       (fastforce simp: Reconcile_pod_def ReleaseAllPodMacs_eq pool_ok_def macMap_ok_released)+
qed

text \<open>C17: The reconciliation of a virtual machine that is gone or being deleted always returns and frees
  exactly the addresses the machine holds, whatever the later calls to the cluster answer, and changes
  nothing else of the pool. The only object it ever sends is the machine as it reads it the second
  time, without the legacy finalizer, at most five times, and none if the machine has no such
  finalizer. It reports an error exactly when that read fails with something other than "not found" or
  the object is not accepted within these tries.\<close>

theorem Reconcile_vm_releases:
  assumes "case read_vm c req of Inl e \<Rightarrow> e = NotFound | Inr vm \<Rightarrow> vm_DeletionTimestamp vm"
  shows "\<exists>e sent m. Reconcile_vm k parse kord c req p = Ret (e, sent, p\<lparr>macPoolMap := m\<rparr>) \<and>
     (\<forall>x. m x = (if \<exists>j. (x, ''vm/'' @ request_Namespace req @ ''/'' @ request_Name req, j) \<in> holders (macPoolMap p)
                 then None else macPoolMap p x)) \<and>
     (case (read_vm c req, reread_vm c req) of
        (Inr _, Inr vm) \<Rightarrow>
          set sent \<subseteq> {without_finalizer vm} \<and>
          length sent \<le> (if RuntimeObjectFinalizerName \<in> set (vm_Finalizers vm) then 5 else 0) \<and>
          (e = None \<longleftrightarrow> (RuntimeObjectFinalizerName \<in> set (vm_Finalizers vm) \<longrightarrow> accepted c (without_finalizer vm)))
      | (Inr _, Inl err) \<Rightarrow> sent = [] \<and> (e = None \<longleftrightarrow> err = NotFound)
      | (Inl _, _) \<Rightarrow> sent = [] \<and> e = None)"
proof -
  let ?m = "released (macPoolMap p) (VmNamespacedFromRequest req)"
  have m: "\<forall>x. ?m x = (if \<exists>j. (x, ''vm/'' @ request_Namespace req @ ''/'' @ request_Name req, j) \<in>
      holders (macPoolMap p) then None else macPoolMap p x)"
    by (simp add: released_def VmNamespacedFromRequest_eq)
  show ?thesis
  proof (cases "read_vm c req")
    case (Inl err)
    with assms m show ?thesis
      by (intro exI [of _ None] exI [of _ "[]"] exI [of _ ?m])
         (simp add: Reconcile_vm_def ReleaseAllVirtualMachineMacs_eq)
  next
    case r: (Inr vm0)
    then have free: "Reconcile_vm k parse kord c req p = (case freeVmFromMacPool c req p of (e, sent, p1) \<Rightarrow>
        Ret (map_option (ErrWrap ''Failed to reconcile kubemacpool after virtual machine's deletion event'') e, sent, p1))"
      using assms by (simp add: Reconcile_vm_def IsVirtualMachineDeletionInProgress_def split: option.split prod.split)
    show ?thesis
    proof (cases "reread_vm c req")
      case (Inl err)
      then have "\<exists>e. freeVmFromMacPool c req p = (e, [], p\<lparr>macPoolMap := ?m\<rparr>) \<and> (e = None \<longleftrightarrow> err = NotFound)"
        by (cases err) (auto simp: freeVmFromMacPool_def ReleaseAllVirtualMachineMacs_eq
            isVmDeletionAlreadyPersistedByFormerUpdates_def)
      with r Inl free m show ?thesis by (auto intro!: exI [of _ ?m])
    next
      case (Inr vm)
      obtain e n where "removeLegacyFinalizerIfPresent c vm = (e, replicate n (without_finalizer vm))"
        "n \<le> (if RuntimeObjectFinalizerName \<in> set (vm_Finalizers vm) then 5 else 0)"
        "e = None \<longleftrightarrow> (RuntimeObjectFinalizerName \<in> set (vm_Finalizers vm) \<longrightarrow> accepted c (without_finalizer vm))"
        using removeLegacyFinalizerIfPresent_sends [of c vm] unfolding DefaultRetry_Steps_def by blast
      moreover from this(1) have "freeVmFromMacPool c req p =
          (map_option (ErrWrap ''failed to remove the finalizer'') e, replicate n (without_finalizer vm), p\<lparr>macPoolMap := ?m\<rparr>)"
        by (simp add: freeVmFromMacPool_def ReleaseAllVirtualMachineMacs_eq Inr split: option.split)
      ultimately show ?thesis
        using r Inr free m
        by (intro exI [of _ "map_option (ErrWrap ''Failed to reconcile kubemacpool after virtual machine's deletion event'')
              (map_option (ErrWrap ''failed to remove the finalizer'') e)"]
            exI [of _ "replicate n (without_finalizer vm)"] exI [of _ ?m]) auto
    qed
  qed
qed

definition sample_request :: request where
  "sample_request = \<lparr>request_Namespace = ''default'', request_Name = ''vm1''\<rparr>"

definition deleting_client :: vm_client where
  "deleting_client = \<lparr>read_vm = (\<lambda>_. Inr (sample_vm\<lparr>vm_DeletionTimestamp := True\<rparr>)),
     reread_vm = (\<lambda>_. Inr (sample_vm\<lparr>vm_Finalizers := [RuntimeObjectFinalizerName]\<rparr>)),
     update_vm = (\<lambda>i _. if i = 0 then Some Conflict else None)\<rparr>"

theorem Reconcile_vm_releases_witness:
  "\<exists>sent m. Reconcile_vm managed_kube (\<lambda>_. Inr 7) sorted_list_of_set deleting_client sample_request
     (sample_pool\<lparr>macPoolMap := sample_map\<rparr>) = Ret (None, sent, sample_pool\<lparr>macPoolMap := m\<rparr>) \<and>
   m sample_key = None \<and> set sent \<subseteq> {sample_vm\<lparr>vm_Finalizers := []\<rparr>}"
proof -
  have "(sample_key, ''vm/default/vm1'', ''br1'') \<in> holders sample_map"
    by (simp add: mem_holders sample_map_def)
  moreover have "accepted deleting_client (without_finalizer (sample_vm\<lparr>vm_Finalizers := [RuntimeObjectFinalizerName]\<rparr>))"
    unfolding accepted_def by (rule exI [of _ 1]) (simp add: deleting_client_def DefaultRetry_Steps_def)
  moreover have "case read_vm deleting_client sample_request of Inl e \<Rightarrow> e = NotFound | Inr vm \<Rightarrow> vm_DeletionTimestamp vm"
    by (simp add: deleting_client_def)
  note Reconcile_vm_releases [OF this, of managed_kube "\<lambda>_. Inr 7" sorted_list_of_set "sample_pool\<lparr>macPoolMap := sample_map\<rparr>"]
  ultimately show ?thesis
    by (force simp: deleting_client_def without_finalizer_def sample_request_def)
qed

text \<open>The reconciliation of a stored virtual machine that is not being deleted always returns and sends
  nothing. When its namespace is managed and its transaction timestamp can be read, the pool is committed
  by that timestamp: exactly the machine's entries that are not later are settled by the interfaces of the
  stored machine. In every other case the pool is as before, and it is an error unless the namespace is
  not managed or the machine has no timestamp yet.\<close>

lemma Reconcile_vm_commits:
  assumes "read_vm c req = Inr vm" "\<not> vm_DeletionTimestamp vm" "vm_Template vm = Some t"
    and "macMap_ok (macPoolMap p)" "key_order kord" "single_holder (macPoolMap p) (VmNamespaced vm)"
  shows "\<exists>e m. Reconcile_vm k parse kord c req p = Ret (e, [], p\<lparr>macPoolMap := m\<rparr>) \<and>
     (case (IsVirtualMachineManaged k (request_Namespace req), GetTransactionTimestampAnnotationFromVm parse vm) of
        (Inr True, Inr ts) \<Rightarrow> e = None \<and> committed (VmNamespaced vm) (Interfaces t) ts (macPoolMap p) m
      | (Inr True, Inl err) \<Rightarrow> m = macPoolMap p \<and> (e = None \<longleftrightarrow> IsNotFound err)
      | (Inr False, _) \<Rightarrow> m = macPoolMap p \<and> e = None
      | (Inl _, _) \<Rightarrow> m = macPoolMap p \<and> e \<noteq> None)"
proof -
  have "\<exists>m. MarkVMAsReady kord vm ts p = Ret (None, p\<lparr>macPoolMap := m\<rparr>) \<and>
      committed (VmNamespaced vm) (Interfaces t) ts (macPoolMap p) m" for ts
    using assms(3-6) by (rule MarkVMAsReady_commits)
  then show ?thesis
    using assms(1,2)
    by (cases "IsVirtualMachineManaged k (request_Namespace req)";
        cases "GetTransactionTimestampAnnotationFromVm parse vm")
       (force simp: Reconcile_vm_def IsVirtualMachineDeletionInProgress_def intro: exI [of _ "macPoolMap p"])+
qed

text \<open>The reconciliation of a pod of a managed namespace frees exactly its addresses when the pod is gone,
  and otherwise touches at most the pod's own entries; an allocation that fails is not reported. Where the
  namespace is not managed, or on an error of the cluster, nothing changes. (The pod read is the one asked
  for, and its network annotation has no null element.)\<close>

theorem Reconcile_pod_follows:
  assumes "pool_ok p"
    and "\<And>pd. get req = Inr pd \<Longrightarrow> pod_Name pd \<noteq> [] \<and> \<not> null_network js pd"
  shows "\<exists>e p'. Reconcile_pod k js ord get req p = Ret (e, p') \<and>
     (case (IsPodManaged k (request_Namespace req), get req) of
        (Inr True, Inl NotFound) \<Rightarrow> e = None \<and> p' = p\<lparr>macPoolMap := \<lambda>x.
           if \<exists>j. (x, ''pod/'' @ request_Namespace req @ ''/'' @ request_Name req, j) \<in> holders (macPoolMap p)
           then None else macPoolMap p x\<rparr>
      | (Inr True, Inr pd) \<Rightarrow> e = None \<and> framed (podNamespaced pd) True p p'
      | (Inr False, _) \<Rightarrow> e = None \<and> p' = p
      | _ \<Rightarrow> e \<noteq> None \<and> p' = p)"
proof (cases "IsPodManaged k (request_Namespace req)")
  case m: (Inr managed)
  show ?thesis
  proof (cases managed)
    case True
    show ?thesis
    proof (cases "get req")
      case (Inl err)
      with m True show ?thesis
        by (cases err) (simp_all add: Reconcile_pod_def ReleaseAllPodMacs_eq released_def)
    next
      case (Inr pd)
      with AllocatePodMac_framed [of pd p js k ord True] assms m True show ?thesis
        by (auto simp: Reconcile_pod_def)
    qed
  qed (simp add: m Reconcile_pod_def split: sum.split api_error.split)
qed (simp add: Reconcile_pod_def split: sum.split api_error.split)

end
