(* ===== verification/JsonPatch.thy ===== *)
theory JsonPatch
  imports VmTransactions PodPool
begin

section \<open>JSON patches: what the webhooks answer and what the API server makes of it\<close>

text \<open>
  An admission response carries JSON patch operations (RFC 6902) whose targets are JSON pointers
  (RFC 6901), strings of \<open>/\<close>-separated tokens in which \<open>~0\<close> and \<open>~1\<close> stand for \<open>~\<close> and \<open>/\<close>. The
  first part has the operations and the strings as the webhooks build them; the second is the other
  side, the specification the webhooks are held against: how a pointer is read, and the effect of an
  operation on the fields of the two kinds of object the webhooks patch.

  Shown: reading a pointer is the inverse of writing it, for any annotation key and any interface
  index.
\<close>

subsection \<open>Operations and pointers\<close>

datatype json_value = JString string | JStringMap string_map

record operation =
  op_Operation :: string
  op_Path :: string
  op_Value :: json_value

definition NewOperation :: "string \<Rightarrow> string \<Rightarrow> json_value \<Rightarrow> operation" where
  "NewOperation op path v = \<lparr>op_Operation = op, op_Path = path, op_Value = v\<rparr>"

text \<open>\<open>strings.ReplaceAll\<close> of a single character.\<close>

definition ReplaceAll_char :: "string \<Rightarrow> char \<Rightarrow> string \<Rightarrow> string" where
  "ReplaceAll_char s old new = concat (map (\<lambda>c. if c = old then new else [c]) s)"

definition escape_key :: "string \<Rightarrow> string" where
  "escape_key annotationKey = ReplaceAll_char (ReplaceAll_char annotationKey CHR ''~'' ''~0'') CHR ''/'' ''~1''"

text \<open>The verb \<open>%d\<close> of \<open>fmt.Sprintf\<close> on an index.\<close>

fun decimal :: "nat \<Rightarrow> string" where
  "decimal n = (if n < 10 then [char_of (48 + n)] else decimal (n div 10) @ [char_of (48 + n mod 10)])"

declare decimal.simps [simp del]

definition annotations_path :: string where
  "annotations_path = ''/metadata/annotations''"

definition annotation_path :: "string \<Rightarrow> string" where
  "annotation_path key = ''/metadata/annotations/'' @ escape_key key"

definition mac_path :: "nat \<Rightarrow> string" where
  "mac_path idx = ''/spec/template/spec/domain/devices/interfaces/'' @ decimal idx @ ''/macAddress''"

subsection \<open>Reading a pointer\<close>

fun split_slash :: "string \<Rightarrow> string list" where
  "split_slash [] = [[]]"
| "split_slash (c # s) =
     (if c = CHR ''/'' then [] # split_slash s
      else case split_slash s of [] \<Rightarrow> [[c]] | t # ts \<Rightarrow> (c # t) # ts)"

fun unescape :: "string \<Rightarrow> string" where
  "unescape [] = []"
| "unescape (c # s) =
     (if c = CHR ''~''
      then case s of
             [] \<Rightarrow> [c]
           | d # s' \<Rightarrow> (if d = CHR ''0'' then CHR ''~'' else if d = CHR ''1'' then CHR ''/'' else d) # unescape s'
      else c # unescape s)"

definition pointer :: "string \<Rightarrow> string list" where
  "pointer path = map unescape (tl (split_slash path))"

fun read_decimal :: "nat \<Rightarrow> string \<Rightarrow> nat" where
  "read_decimal acc [] = acc"
| "read_decimal acc (c # s) = read_decimal (acc * 10 + (of_char c - 48)) s"

lemma split_slash_ne [simp]: "split_slash s \<noteq> []"
  by (induction s) (auto split: list.splits)

lemma split_slash_single: "CHR ''/'' \<notin> set s \<Longrightarrow> split_slash s = [s]"
  by (induction s) auto

lemma split_slash_append: "split_slash (s @ CHR ''/'' # t) = split_slash s @ split_slash t"
  by (induction s) (auto split: list.splits)

lemma unescape_plain: "CHR ''~'' \<notin> set s \<Longrightarrow> unescape s = s"
  by (induction s) auto

lemma ReplaceAll_char_simps [simp]:
  "ReplaceAll_char [] old new = []"
  "ReplaceAll_char (c # s) old new = (if c = old then new else [c]) @ ReplaceAll_char s old new"
  by (simp_all add: ReplaceAll_char_def)

lemma escape_key_simps [simp]:
  "escape_key [] = []"
  "escape_key (c # s) =
     (if c = CHR ''~'' then ''~0'' else if c = CHR ''/'' then ''~1'' else [c]) @ escape_key s"
  by (simp_all add: escape_key_def)

lemma slash_escape_key: "CHR ''/'' \<notin> set (escape_key s)"
  by (induction s) auto

lemma unescape_escape_key [simp]: "unescape (escape_key s) = s"
  by (induction s) auto

lemma decimal_digits: "c \<in> set (decimal n) \<Longrightarrow> 48 \<le> (of_char c :: nat) \<and> (of_char c :: nat) < 58"
  by (induction n rule: decimal.induct)
     (subst (asm) (2) decimal.simps, auto simp: of_char_of split: if_splits)

lemma decimal_plain: "CHR ''/'' \<notin> set (decimal n)" "CHR ''~'' \<notin> set (decimal n)"
  using decimal_digits [of "CHR ''/''" n] decimal_digits [of "CHR ''~''" n] by auto

lemma read_decimal_append: "read_decimal acc (s @ t) = read_decimal (read_decimal acc s) t"
  by (induction s arbitrary: acc) auto

lemma read_decimal_decimal [simp]: "read_decimal 0 (decimal n) = n"
  by (induction n rule: decimal.induct)
     (subst decimal.simps, auto simp: read_decimal_append of_char_of)

lemma pointer_annotations [simp]: "pointer annotations_path = [''metadata'', ''annotations'']"
  by (simp add: pointer_def annotations_path_def)

lemma pointer_annotation [simp]: "pointer (annotation_path key) = [''metadata'', ''annotations'', key]"
  by (simp add: pointer_def annotation_path_def split_slash_single slash_escape_key)

lemma pointer_mac [simp]:
  "pointer (mac_path i) = [''spec'', ''template'', ''spec'', ''domain'', ''devices'', ''interfaces'', decimal i, ''macAddress'']"
  using split_slash_append [of "decimal i" "''macAddress''"]
  by (simp add: pointer_def mac_path_def split_slash_single decimal_plain unescape_plain)

subsection \<open>The effect of an operation\<close>

text \<open>
  \<open>add\<close> on an existing member replaces it. \<open>replace\<close> asks for an existing member; an interface
  always counts as having the member \<open>macAddress\<close> (an absent one is the empty string of the record).
\<close>

definition apply_op_vm :: "operation \<Rightarrow> virtual_machine \<Rightarrow> virtual_machine option" where
  "apply_op_vm op vm = (case (pointer (op_Path op), op_Value op) of
     ([a, b], JStringMap m) \<Rightarrow>
       if [a, b] = [''metadata'', ''annotations''] \<and>
          (op_Operation op = ''add'' \<or> op_Operation op = ''replace'' \<and> vm_Annotations vm \<noteq> None)
       then Some (vm\<lparr>vm_Annotations := Some m\<rparr>) else None
   | ([a, b, key], JString s) \<Rightarrow>
       if [a, b] = [''metadata'', ''annotations''] \<and> vm_Annotations vm \<noteq> None \<and>
          (op_Operation op = ''add'' \<or> op_Operation op = ''replace'' \<and> lookup_nil (vm_Annotations vm) key \<noteq> None)
       then Some (vm\<lparr>vm_Annotations := map_option (AList.update key s) (vm_Annotations vm)\<rparr>) else None
   | ([a, b, c, d, e, f, idx, g], JString s) \<Rightarrow>
       (case vm_Template vm of
          None \<Rightarrow> None
        | Some t \<Rightarrow>
            if [a, b, c, d, e, f, g] =
                 [''spec'', ''template'', ''spec'', ''domain'', ''devices'', ''interfaces'', ''macAddress''] \<and>
               op_Operation op \<in> {''add'', ''replace''} \<and> read_decimal 0 idx < length (Interfaces t)
            then Some (vm\<lparr>vm_Template := Some (t\<lparr>Interfaces := (Interfaces t)
                   [read_decimal 0 idx := (Interfaces t ! read_decimal 0 idx)\<lparr>iface_MacAddress := s\<rparr>]\<rparr>)\<rparr>)
            else None)
   | _ \<Rightarrow> None)"

definition apply_op_pod :: "operation \<Rightarrow> pod \<Rightarrow> pod option" where
  "apply_op_pod op pd = (case (pointer (op_Path op), op_Value op) of
     ([a, b], JStringMap m) \<Rightarrow>
       if [a, b] = [''metadata'', ''annotations''] \<and>
          (op_Operation op = ''add'' \<or> op_Operation op = ''replace'' \<and> pod_Annotations pd \<noteq> None)
       then Some (pd\<lparr>pod_Annotations := Some m\<rparr>) else None
   | _ \<Rightarrow> None)"

fun apply_patch :: "('op \<Rightarrow> 'o \<Rightarrow> 'o option) \<Rightarrow> 'op list \<Rightarrow> 'o \<Rightarrow> 'o option" where
  "apply_patch f [] x = Some x"
| "apply_patch f (op # ops) x = (case f op x of None \<Rightarrow> None | Some y \<Rightarrow> apply_patch f ops y)"

lemma apply_patch_append:
  "apply_patch f (xs @ ys) x = (case apply_patch f xs x of None \<Rightarrow> None | Some y \<Rightarrow> apply_patch f ys y)"
  by (induction xs arbitrary: x) (auto split: option.splits)

end
