(* ===== verification/VmUpdate.thy ===== *)
theory VmUpdate
  imports VmPool
begin

section \<open>Updates of a virtual machine: \<open>UpdateMacAddressesForVirtualMachine\<close>\<close>

text \<open>
  An update compares the interfaces a machine had with the ones it asks for: an interface of an
  unchanged address costs nothing, a new name or a changed address reserves one, and what is no
  longer used is not released at once but stamped with the transaction, to be released when the
  transaction is known to have persisted. The loop keeps three maps by interface name (new
  allocations, replaced addresses, addresses of interfaces that are gone).

  Shown: the loop always returns and touches no other object's entries; what each interface gets
  and what the pool holds afterwards; that every address concerned carries the timestamp.
\<close>

subsection \<open>Update\<close>

text \<open>The maps of the loop of \<open>UpdateMacAddressesForVirtualMachine\<close>.\<close>

record update_maps =
  upd_newAllocations :: "(string, string) gomap"
  upd_releaseOldAllocations :: "(string, string) gomap"
  upd_deltaInterfacesMap :: "(string, string) gomap"

fun updateVmInterfaces ::
    "((string \<times> string) list \<Rightarrow> (string \<times> string) list) \<Rightarrow> bool \<Rightarrow> string \<Rightarrow>
     (string \<Rightarrow> string option) \<Rightarrow> vm_interface list \<Rightarrow> vm_interface list \<Rightarrow> update_maps \<Rightarrow>
     pool_manager \<Rightarrow> ((go_error + vm_interface list \<times> update_maps) \<times> pool_manager) run" where
  "updateVmInterfaces ord isNotDryRun vmFullName currentInterfacesMap visited [] u p =
     Ret (Inr (visited, u), p)"
| "updateVmInterfaces ord isNotDryRun vmFullName currentInterfacesMap visited (requestIface # ifaces) u p =
     (case currentInterfacesMap (iface_Name requestIface) of
        Some currentlyAllocatedMacAddress \<Rightarrow>
          if iface_MacAddress requestIface = []
          then updateVmInterfaces ord isNotDryRun vmFullName currentInterfacesMap
                 (visited @ [requestIface\<lparr>iface_MacAddress := currentlyAllocatedMacAddress\<rparr>]) ifaces
                 (u\<lparr>upd_newAllocations := AList.update (iface_Name requestIface)
                      currentlyAllocatedMacAddress (upd_newAllocations u),
                   upd_deltaInterfacesMap := AList.delete (iface_Name requestIface) (upd_deltaInterfacesMap u)\<rparr>) p
          else if macKey_String (NewMacKey (iface_MacAddress requestIface)) \<noteq> currentlyAllocatedMacAddress
          then case allocateRequestedVirtualMachineInterfaceMac vmFullName requestIface isNotDryRun p of
                 (Some err, p1) \<Rightarrow>
                   Ret (Inl err, revertAllocationOnVm ord vmFullName (upd_newAllocations u) isNotDryRun p1)
               | (None, p1) \<Rightarrow>
                   updateVmInterfaces ord isNotDryRun vmFullName currentInterfacesMap
                     (visited @ [requestIface]) ifaces
                     (u\<lparr>upd_releaseOldAllocations := AList.update (iface_Name requestIface)
                          currentlyAllocatedMacAddress (upd_releaseOldAllocations u),
                       upd_newAllocations := AList.update (iface_Name requestIface)
                          (iface_MacAddress requestIface) (upd_newAllocations u),
                       upd_deltaInterfacesMap :=
                          AList.delete (iface_Name requestIface) (upd_deltaInterfacesMap u)\<rparr>) p1
          else updateVmInterfaces ord isNotDryRun vmFullName currentInterfacesMap
                 (visited @ [requestIface]) ifaces
                 (u\<lparr>upd_deltaInterfacesMap := AList.delete (iface_Name requestIface) (upd_deltaInterfacesMap u)\<rparr>) p
      | None \<Rightarrow>
          if iface_MacAddress requestIface \<noteq> []
          then case allocateRequestedVirtualMachineInterfaceMac vmFullName requestIface isNotDryRun p of
                 (Some err, p1) \<Rightarrow>
                   Ret (Inl err, revertAllocationOnVm ord vmFullName (upd_newAllocations u) isNotDryRun p1)
               | (None, p1) \<Rightarrow>
                   updateVmInterfaces ord isNotDryRun vmFullName currentInterfacesMap
                     (visited @ [requestIface]) ifaces
                     (u\<lparr>upd_newAllocations := AList.update (iface_Name requestIface)
                          (iface_MacAddress requestIface) (upd_newAllocations u)\<rparr>) p1
          else bind_run (allocateFromPoolForVirtualMachine vmFullName requestIface isNotDryRun p) (\<lambda>(r, p1).
                 case r of
                   Inl err \<Rightarrow>
                     Ret (Inl err, revertAllocationOnVm ord vmFullName (upd_newAllocations u) isNotDryRun p1)
                 | Inr macAddr \<Rightarrow>
                     updateVmInterfaces ord isNotDryRun vmFullName currentInterfacesMap
                       (visited @ [requestIface\<lparr>iface_MacAddress := macAddr\<rparr>]) ifaces
                       (u\<lparr>upd_newAllocations := AList.update (iface_Name requestIface) macAddr
                            (upd_newAllocations u)\<rparr>) p1))"

definition interface_macs :: "vm_interface list \<Rightarrow> (string, string) gomap" where
  "interface_macs ifaces =
     fold (\<lambda>iface m. AList.update (iface_Name iface) (iface_MacAddress iface) m) ifaces []"

definition UpdateMacAddressesForVirtualMachine ::
    "((string \<times> string) list \<Rightarrow> (string \<times> string) list) \<Rightarrow> virtual_machine option \<Rightarrow> virtual_machine \<Rightarrow>
     time option \<Rightarrow> bool \<Rightarrow> pool_manager \<Rightarrow> vm_result" where
  "UpdateMacAddressesForVirtualMachine ord previousVirtualMachine vm ts isNotDryRun p =
     (case previousVirtualMachine of
        None \<Rightarrow> AllocateVirtualMachineMac ord vm ts isNotDryRun p
      | Some previous \<Rightarrow>
     bind_run (check_vm isNotDryRun vm) (\<lambda>e. case e of
       Some err \<Rightarrow> Ret (Some err, vm, p)
     | None \<Rightarrow>
     bind_run (getVirtualMachineInterfaces previous) (\<lambda>currentInterfaces.
     bind_run (getVirtualMachineInterfaces vm) (\<lambda>requestInterfaces.
     (let vmFullName = VmNamespaced vm;
          u = \<lparr>upd_newAllocations = [], upd_releaseOldAllocations = [],
               upd_deltaInterfacesMap = interface_macs currentInterfaces\<rparr>
      in bind_run (updateVmInterfaces ord isNotDryRun vmFullName
                     (map_of (interface_macs currentInterfaces)) [] requestInterfaces u p)
           (\<lambda>(r, p1). case r of
              Inl err \<Rightarrow> Ret (Some err, vm, p1)
            | Inr (copied, u') \<Rightarrow>
                Ret (None, set_interfaces copied vm,
                     if isNotDryRun
                     then set_transaction_timestamps ord vmFullName ts
                            (upd_releaseOldAllocations u')
                            (set_transaction_timestamps ord vmFullName ts
                               (upd_deltaInterfacesMap u')
                               (set_transaction_timestamps ord vmFullName ts
                                  (upd_newAllocations u') p1))
                     else p1)))))))"

subsection \<open>Update: one interface\<close>

text \<open>
  Whether an interface of the request makes the update reserve an address: its name is new, or it
  asks for an address that does not print as the current one.
\<close>

definition needs_reservation :: "(string \<Rightarrow> string option) \<Rightarrow> vm_interface \<Rightarrow> bool" where
  "needs_reservation cur i \<longleftrightarrow> (case cur (iface_Name i) of
     None \<Rightarrow> True
   | Some c \<Rightarrow> iface_MacAddress i \<noteq> [] \<and> macKey_String (NewMacKey (iface_MacAddress i)) \<noteq> c)"

text \<open>What an update leaves of an interface.\<close>

definition iface_updated ::
    "pool_manager \<Rightarrow> (string \<Rightarrow> string option) \<Rightarrow> vm_interface \<Rightarrow> vm_interface \<Rightarrow> bool" where
  "iface_updated p cur i i' \<longleftrightarrow>
     (if iface_MacAddress i \<noteq> [] then i' = i
      else case cur (iface_Name i) of
             Some c \<Rightarrow> i' = i\<lparr>iface_MacAddress := c\<rparr>
           | None \<Rightarrow> \<exists>x. i' = i\<lparr>iface_MacAddress := hw_String x\<rparr> \<and> in_range p x \<and> mac_free (macPoolMap p) x)"

text \<open>What one round does to the three maps.\<close>

definition advance ::
    "(string \<Rightarrow> string option) \<Rightarrow> vm_interface \<Rightarrow> vm_interface \<Rightarrow> update_maps \<Rightarrow> update_maps" where
  "advance cur i i' u = \<lparr>
     upd_newAllocations =
       (if needs_reservation cur i \<or> iface_MacAddress i = []
        then AList.update (iface_Name i) (iface_MacAddress i') (upd_newAllocations u)
        else upd_newAllocations u),
     upd_releaseOldAllocations =
       (case cur (iface_Name i) of
          Some c \<Rightarrow> if needs_reservation cur i
                    then AList.update (iface_Name i) c (upd_releaseOldAllocations u)
                    else upd_releaseOldAllocations u
        | None \<Rightarrow> upd_releaseOldAllocations u),
     upd_deltaInterfacesMap =
       (if cur (iface_Name i) = None then upd_deltaInterfacesMap u
        else AList.delete (iface_Name i) (upd_deltaInterfacesMap u))\<rparr>"

lemma update_step_cases [consumes 1, case_names failed going_on]:
  assumes "pool_ok p"
  obtains err p1 where
      "updateVmInterfaces ord nd inst cur visited (i # ifaces) u p =
         Ret (Inl err, revertAllocationOnVm ord inst (upd_newAllocations u) nd p1)"
      "pool_ok p1" "same_config p p1" "macPoolMap p1 = macPoolMap p"
  | i' p1 where
      "updateVmInterfaces ord nd inst cur visited (i # ifaces) u p =
         updateVmInterfaces ord nd inst cur (visited @ [i']) ifaces (advance cur i i' u) p1"
      "pool_ok p1" "same_config p p1" "iface_updated p cur i i'" "iface_Name i' = iface_Name i"
      "macPoolMap p1 = (if nd \<and> needs_reservation cur i
         then createOrUpdateEntry (macPoolMap p) (iface_MacAddress i') inst (iface_Name i)
         else macPoolMap p)"
      "nd \<Longrightarrow> needs_reservation cur i \<Longrightarrow> \<exists>a. ParseMAC (iface_MacAddress i') = Inr a"
proof -
  obtain al rel delta where u: "u = \<lparr>upd_newAllocations = al, upd_releaseOldAllocations = rel,
      upd_deltaInterfacesMap = delta\<rparr>"
    by (cases u)
  consider (kept) "\<not> needs_reservation cur i"
    | (requested) "needs_reservation cur i" "iface_MacAddress i \<noteq> []"
    | (drawn) "cur (iface_Name i) = None" "iface_MacAddress i = []"
    by (cases "cur (iface_Name i)"; cases "iface_MacAddress i = []") (auto simp: needs_reservation_def)
  then show ?thesis
  proof cases
    case kept
    let ?i = "if iface_MacAddress i = [] then i\<lparr>iface_MacAddress := the (cur (iface_Name i))\<rparr> else i"
    show ?thesis
      by (rule that(2) [of ?i p])
         (use kept assms in \<open>auto simp: needs_reservation_def iface_updated_def advance_def u
            split: option.splits if_splits\<close>)
  next
    case requested
    show ?thesis
    proof (cases rule: vm_alloc.request_cases [OF assms, of i inst nd])
      case (1 e)
      show ?thesis
        by (rule that(1) [of e p])
           (use 1 requested assms in \<open>auto simp: needs_reservation_def u split: option.splits\<close>)
    next
      case (2 p1)
      show ?thesis
        by (rule that(2) [of i p1])
           (use 2 requested in \<open>auto simp: needs_reservation_def iface_updated_def advance_def u
              split: option.splits if_splits\<close>)
    qed
  next
    case drawn
    show ?thesis
    proof (cases rule: vm_alloc.draw_cases [OF assms, of inst i nd])
      case (1 p1)
      show ?thesis by (rule that(1) [of ErrFull p1]) (use 1 drawn in auto)
    next
      case (2 x p1)
      show ?thesis
        by (rule that(2) [of "i\<lparr>iface_MacAddress := hw_String x\<rparr>" p1])
           (use 2 drawn in_range_ParseMAC [OF 2(2)] in
            \<open>auto simp: needs_reservation_def iface_updated_def advance_def u split: if_splits\<close>)
    qed
  qed
qed

subsection \<open>Update: the loop\<close>

lemma update_loop_returns:
  assumes "pool_ok p"
  shows "\<exists>r p'. updateVmInterfaces ord nd inst cur visited ifaces u p = Ret (r, p') \<and> pool_ok p' \<and>
     same_config p p' \<and> others inst (macPoolMap p') = others inst (macPoolMap p) \<and>
     (\<not> nd \<longrightarrow> macPoolMap p' = macPoolMap p)"
  using assms
proof (induction ifaces arbitrary: visited u p)
  case (Cons i ifaces)
  from Cons.prems show ?case
  proof (cases rule: update_step_cases [where ord = ord and nd = nd and inst = inst and cur = cur and
        visited = visited and i = i and ifaces = ifaces and u = u])
    case (failed err p1)
    with vm_alloc.revert_facts [OF failed(2), where ord = ord] same_config_trans [OF failed(3)]
    show ?thesis by auto
  next
    case (going_on i' p1)
    from Cons.IH [OF going_on(2), of "visited @ [i']" "advance cur i i' u"] obtain r p' where
      "updateVmInterfaces ord nd inst cur (visited @ [i']) ifaces (advance cur i i' u) p1 = Ret (r, p')"
      "pool_ok p'" "same_config p1 p'" "others inst (macPoolMap p') = others inst (macPoolMap p1)"
      "\<not> nd \<longrightarrow> macPoolMap p' = macPoolMap p1"
      by blast
    with going_on same_config_trans [OF going_on(3)] show ?thesis
      by (simp add: others_createOrUpdateEntry)
  qed
qed simp

lemma iface_updated_mono:
  assumes "same_config p p1"
    and "macPoolMap p1 = (if b then createOrUpdateEntry (macPoolMap p) s inst j else macPoolMap p)"
    and "iface_updated p1 cur i i'"
  shows "iface_updated p cur i i'"
  using assms same_config_in_range [OF assms(1)]
  by (auto simp: iface_updated_def dest: vm_alloc.mac_free_mono split: option.splits if_splits)

definition advance_all ::
    "(string \<Rightarrow> string option) \<Rightarrow> (vm_interface \<times> vm_interface) list \<Rightarrow> update_maps \<Rightarrow> update_maps" where
  "advance_all cur zs u = fold (\<lambda>(i, i'). advance cur i i') zs u"

definition new_reservations ::
    "(string \<Rightarrow> string option) \<Rightarrow> (vm_interface \<times> vm_interface) list \<Rightarrow> (string \<times> string) list" where
  "new_reservations cur zs =
     map (\<lambda>(i, i'). (iface_Name i, iface_MacAddress i')) (filter (\<lambda>(i, i'). needs_reservation cur i) zs)"

lemma mem_new_reservations:
  "(j, mac) \<in> set (new_reservations cur zs) \<longleftrightarrow>
     (\<exists>i i'. (i, i') \<in> set zs \<and> needs_reservation cur i \<and> j = iface_Name i \<and> mac = iface_MacAddress i')"
  by (force simp: new_reservations_def)

lemma update_loop_success:
  assumes "pool_ok p" "updateVmInterfaces ord True inst cur visited ifaces u p = Ret (Inr (visited', u'), p')"
  shows "\<exists>ifaces'. visited' = visited @ ifaces' \<and> list_all2 (iface_updated p cur) ifaces ifaces' \<and>
     u' = advance_all cur (zip ifaces ifaces') u \<and>
     macPoolMap p' = pool_store.reserve_all inst (new_reservations cur (zip ifaces ifaces')) (macPoolMap p)"
  using assms
proof (induction ifaces arbitrary: visited u p)
  case Nil
  then show ?case by (simp add: advance_all_def new_reservations_def)
next
  case (Cons i ifaces)
  from Cons.prems(1) show ?case
  proof (cases rule: update_step_cases [where ord = ord and nd = True and inst = inst and cur = cur and
        visited = visited and i = i and ifaces = ifaces and u = u])
    case (failed err p1)
    with Cons.prems(2) show ?thesis by simp
  next
    case (going_on i' p1)
    then obtain ifaces' where IH: "visited' = (visited @ [i']) @ ifaces'"
        "list_all2 (iface_updated p1 cur) ifaces ifaces'"
        "u' = advance_all cur (zip ifaces ifaces') (advance cur i i' u)"
        "macPoolMap p' =
           pool_store.reserve_all inst (new_reservations cur (zip ifaces ifaces')) (macPoolMap p1)"
      using Cons.IH [OF going_on(2), of "visited @ [i']" "advance cur i i' u"] Cons.prems(2) by metis
    have "list_all2 (iface_updated p cur) ifaces ifaces'"
      using IH(2) by (rule list_all2_mono) (rule iface_updated_mono [OF going_on(3,6)])
    with IH going_on(4,6) show ?thesis
      by (intro exI [of _ "i' # ifaces'"]) (simp add: advance_all_def new_reservations_def)
  qed
qed

subsection \<open>Update: the three maps\<close>

lemma advance_all_Cons [simp]:
  "advance_all cur [] u = u"
  "advance_all cur ((i, i') # zs) u = advance_all cur zs (advance cur i i' u)"
  by (simp_all add: advance_all_def)

lemma map_of_advance:
  "j \<noteq> iface_Name i \<Longrightarrow> map_of (upd_newAllocations (advance cur i i' u)) j = map_of (upd_newAllocations u) j"
  "j \<noteq> iface_Name i \<Longrightarrow>
     map_of (upd_releaseOldAllocations (advance cur i i' u)) j = map_of (upd_releaseOldAllocations u) j"
  "j \<noteq> iface_Name i \<Longrightarrow>
     map_of (upd_deltaInterfacesMap (advance cur i i' u)) j = map_of (upd_deltaInterfacesMap u) j"
  by (auto simp: advance_def update_conv' delete_conv' split: option.splits)

lemma map_of_advance_all:
  "j \<notin> iface_Name ` fst ` set zs \<Longrightarrow>
     map_of (upd_newAllocations (advance_all cur zs u)) j = map_of (upd_newAllocations u) j \<and>
     map_of (upd_releaseOldAllocations (advance_all cur zs u)) j = map_of (upd_releaseOldAllocations u) j \<and>
     map_of (upd_deltaInterfacesMap (advance_all cur zs u)) j = map_of (upd_deltaInterfacesMap u) j"
proof (induction zs arbitrary: u)
  case (Cons z zs)
  then show ?case by (cases z) (simp add: map_of_advance)
qed simp

lemma advance_all_binds:
  assumes "distinct (map (iface_Name \<circ> fst) zs)" "(i, i') \<in> set zs"
  shows "(needs_reservation cur i \<or> iface_MacAddress i = [] \<longrightarrow>
        map_of (upd_newAllocations (advance_all cur zs u)) (iface_Name i) = Some (iface_MacAddress i')) \<and>
     (needs_reservation cur i \<longrightarrow> cur (iface_Name i) \<noteq> None \<longrightarrow>
        map_of (upd_releaseOldAllocations (advance_all cur zs u)) (iface_Name i) = cur (iface_Name i))"
  using assms
proof (induction zs arbitrary: u)
  case (Cons z zs)
  obtain a b where z: "z = (a, b)" by (cases z)
  show ?case
  proof (cases "(i, i') = (a, b)")
    case True
    then have "iface_Name i \<notin> iface_Name ` fst ` set zs" using Cons.prems(1) z by (auto simp: image_image)
    from map_of_advance_all [OF this] True show ?thesis
      by (auto simp: z advance_def update_conv')
  next
    case False
    then show ?thesis using Cons.IH [of "advance cur a b u"] Cons.prems by (auto simp: z)
  qed
qed simp

text \<open>Every value in the maps comes from an interface.\<close>

definition new_values :: "(string \<Rightarrow> string option) \<Rightarrow> (vm_interface \<times> vm_interface) list \<Rightarrow> string set" where
  "new_values cur zs =
     {iface_MacAddress i' | i i'. (i, i') \<in> set zs \<and> (needs_reservation cur i \<or> iface_MacAddress i = [])}"

lemma new_values_Cons:
  "new_values cur ((i, i') # zs) =
     (if needs_reservation cur i \<or> iface_MacAddress i = [] then {iface_MacAddress i'} else {}) \<union>
     new_values cur zs"
  by (auto simp: new_values_def)

lemma new_values_held:
  assumes "list_all2 (iface_updated p cur) ifaces ifaces'" "s \<in> new_values cur (zip ifaces ifaces')"
  shows "(\<exists>j. cur j = Some s) \<or> (\<exists>j. (j, s) \<in> set (new_reservations cur (zip ifaces ifaces')))"
proof -
  from assms(2) obtain i i' where i: "(i, i') \<in> set (zip ifaces ifaces')" "s = iface_MacAddress i'"
      "needs_reservation cur i \<or> iface_MacAddress i = []"
    by (auto simp: new_values_def)
  then have "iface_updated p cur i i'" using assms(1) by (auto simp: list_all2_iff)
  show ?thesis
  proof (cases "needs_reservation cur i")
    case True
    with i(1,2) show ?thesis by (blast intro: mem_new_reservations [THEN iffD2])
  next
    case False
    with i \<open>iface_updated p cur i i'\<close> show ?thesis
      by (auto simp: iface_updated_def needs_reservation_def split: option.splits)
  qed
qed

lemma advance_all_values:
  shows "snd ` set (upd_newAllocations (advance_all cur zs u)) \<subseteq>
      snd ` set (upd_newAllocations u) \<union> new_values cur zs"
    and "snd ` set (upd_releaseOldAllocations (advance_all cur zs u)) \<subseteq>
      snd ` set (upd_releaseOldAllocations u) \<union> ran cur"
    and "set (upd_deltaInterfacesMap (advance_all cur zs u)) \<subseteq> set (upd_deltaInterfacesMap u)"
proof (induction zs arbitrary: u)
  case (Cons z zs)
  obtain i i' where z: "z = (i, i')" by (cases z)
  have new: "snd ` set (upd_newAllocations (advance cur i i' u)) \<subseteq> snd ` set (upd_newAllocations u) \<union>
      (if needs_reservation cur i \<or> iface_MacAddress i = [] then {iface_MacAddress i'} else {})" for u
    using set_map_snd_update_subset [of "iface_Name i" "iface_MacAddress i'" "upd_newAllocations u"]
    by (auto simp: advance_def)
  have rel: "snd ` set (upd_releaseOldAllocations (advance cur i i' u)) \<subseteq>
      snd ` set (upd_releaseOldAllocations u) \<union> ran cur" for u
    using set_map_snd_update_subset [of "iface_Name i" _ "upd_releaseOldAllocations u"]
    by (auto simp: advance_def ran_def split: option.splits if_splits)
  have del: "set (upd_deltaInterfacesMap (advance cur i i' u)) \<subseteq> set (upd_deltaInterfacesMap u)" for u
    by (auto simp: advance_def AList.delete_eq)
  { case 1
    show ?case
      unfolding z advance_all_Cons new_values_Cons
      by (rule order_trans [OF Cons.IH(1)]) 
         (use Un_mono [OF new order_refl [of "new_values cur zs"]] in \<open>simp only: Un_assoc\<close>) }
  { case 2
    show ?case
      unfolding z advance_all_Cons by (rule order_trans [OF Cons.IH(2)]) 
         (rule Un_least [OF rel Un_upper2]) }
  { case 3
    show ?case unfolding z advance_all_Cons by (rule order_trans [OF Cons.IH(3) del]) }
qed (simp_all add: new_values_def)

lemma distinct_interface_macs: "distinct (map fst (interface_macs ifaces))"
proof -
  have "distinct (map fst m) \<Longrightarrow> distinct (map fst (fold (\<lambda>iface m.
      AList.update (iface_Name iface) (iface_MacAddress iface) m) ifaces m))" for m
    by (induction ifaces arbitrary: m) (auto simp: distinct_update)
  then show ?thesis by (simp add: interface_macs_def)
qed

subsection \<open>Properties of an update\<close>

abbreviation update_loop where
  "update_loop ord isNotDryRun prev t vm p \<equiv>
     updateVmInterfaces ord isNotDryRun (VmNamespaced vm) (map_of (interface_macs (Interfaces prev))) []
       (Interfaces t) \<lparr>upd_newAllocations = [], upd_releaseOldAllocations = [],
         upd_deltaInterfacesMap = interface_macs (Interfaces prev)\<rparr> p"

abbreviation stamp_update where
  "stamp_update ord vm ts u p \<equiv>
     set_transaction_timestamps ord (VmNamespaced vm) ts (upd_releaseOldAllocations u)
       (set_transaction_timestamps ord (VmNamespaced vm) ts (upd_deltaInterfacesMap u)
          (set_transaction_timestamps ord (VmNamespaced vm) ts (upd_newAllocations u) p))"

lemma UpdateMacAddressesForVirtualMachine_cases [consumes 3, case_names refused failed updated]:
  assumes "vm_Template previous = Some prev" "vm_Template vm = Some t" "pool_ok p"
  obtains err where "check_vm isNotDryRun vm = Ret (Some err)"
      "UpdateMacAddressesForVirtualMachine ord (Some previous) vm ts isNotDryRun p = Ret (Some err, vm, p)"
  | err p1 where "update_loop ord isNotDryRun prev t vm p = Ret (Inl err, p1)"
      "UpdateMacAddressesForVirtualMachine ord (Some previous) vm ts isNotDryRun p = Ret (Some err, vm, p1)"
  | ifaces u p1 where "check_vm isNotDryRun vm = Ret None"
      "update_loop ord isNotDryRun prev t vm p = Ret (Inr (ifaces, u), p1)"
      "UpdateMacAddressesForVirtualMachine ord (Some previous) vm ts isNotDryRun p =
         Ret (None, set_interfaces ifaces vm, if isNotDryRun then stamp_update ord vm ts u p1 else p1)"
proof -
  obtain e where e: "check_vm isNotDryRun vm = Ret e" using check_vm_returns [OF assms(2)] by blast
  obtain r p1 where loop: "update_loop ord isNotDryRun prev t vm p = Ret (r, p1)"
    using update_loop_returns [OF assms(3)] by blast
  note defs = UpdateMacAddressesForVirtualMachine_def getVirtualMachineInterfaces_def assms(1,2) e loop
    Let_def
  show ?thesis
  proof (cases e)
    case (Some err)
    with that(1) e show ?thesis by (simp add: defs)
  next
    case None
    show ?thesis
    proof (cases r)
      case (Inl err)
      with None that(2) [OF loop [unfolded Inl]] show ?thesis by (simp add: defs)
    next
      case (Inr a)
      then obtain ifaces u where a: "r = Inr (ifaces, u)" by (cases a) auto
      with None that(3) [OF _ loop [unfolded a]] e show ?thesis by (simp add: defs)
    qed
  qed
qed

lemma UpdateMacAddressesForVirtualMachine_framed:
  assumes "vm_Template previous = Some prev" "vm_Template vm = Some t" "pool_ok p"
  shows "\<exists>e vm' p'.
     UpdateMacAddressesForVirtualMachine ord (Some previous) vm ts isNotDryRun p = Ret (e, vm', p') \<and>
     framed (VmNamespaced vm) isNotDryRun p p' \<and> (e \<noteq> None \<longrightarrow> vm' = vm)"
proof -
  obtain r p1 where loop: "update_loop ord isNotDryRun prev t vm p = Ret (r, p1)" "pool_ok p1"
      "same_config p p1" "\<not> isNotDryRun \<longrightarrow> macPoolMap p1 = macPoolMap p"
      "others (VmNamespaced vm) (macPoolMap p1) = others (VmNamespaced vm) (macPoolMap p)"
    using update_loop_returns [OF assms(3)] by blast
  show ?thesis
    using assms
    by (cases rule: UpdateMacAddressesForVirtualMachine_cases [where ord = ord and ts = ts and
          isNotDryRun = isNotDryRun]) (use loop assms(3) in \<open>auto simp: framed_def\<close>)
qed

lemma updateVmInterfaces_shape:
  assumes "updateVmInterfaces ord nd inst cur visited ifaces u p = Ret (Inr (ifaces', u'), p')"
  shows "\<exists>rest. ifaces' = visited @ rest \<and> list_all2 same_but_mac ifaces rest"
  using assms
proof (induction ifaces arbitrary: visited u p)
  case (Cons i ifaces)
  then obtain i' u1 p1 where "updateVmInterfaces ord nd inst cur (visited @ [i']) ifaces u1 p1 = Ret (Inr (ifaces', u'), p')"
      "same_but_mac i i'"
    apply (auto simp: bind_run_eq_Ret split: if_splits option.splits prod.splits sum.split_asm)
    subgoal for r p1 by (cases r) auto
    done
  with Cons.IH [of "visited @ [i']" u1 p1] show ?case by auto
qed simp

lemma UpdateMacAddressesForVirtualMachine_only_macs:
  assumes "vm_Template previous = Some prev" "vm_Template vm = Some t" "pool_ok p"
    and "UpdateMacAddressesForVirtualMachine ord (Some previous) vm ts isNotDryRun p = Ret (e, vm', p')"
  shows "only_macs vm vm'"
  using assms(1-3)
proof (cases rule: UpdateMacAddressesForVirtualMachine_cases [where ord = ord and ts = ts and isNotDryRun = isNotDryRun])
  case (updated ifaces u p1)
  have "list_all2 same_but_mac (Interfaces t) ifaces"
    using updateVmInterfaces_shape [OF updated(2)] by auto
  then show ?thesis using updated(3) assms(2,4) by (auto intro: only_macsI)
qed (use assms in \<open>auto intro: only_macs_refl\<close>)

lemma UpdateMacAddressesForVirtualMachine_success:
  assumes "vm_Template previous = Some prev" "vm_Template vm = Some t" "pool_ok p"
    and "UpdateMacAddressesForVirtualMachine ord (Some previous) vm ts True p = Ret (None, vm', p')"
  obtains ifaces u p1 where "vm' = set_interfaces ifaces vm" "p' = stamp_update ord vm ts u p1"
    "distinct (map iface_Name (Interfaces t))"
    "list_all2 (iface_updated p (map_of (interface_macs (Interfaces prev)))) (Interfaces t) ifaces"
    "u = advance_all (map_of (interface_macs (Interfaces prev))) (zip (Interfaces t) ifaces)
       \<lparr>upd_newAllocations = [], upd_releaseOldAllocations = [], upd_deltaInterfacesMap = interface_macs (Interfaces prev)\<rparr>"
    "macPoolMap p1 = pool_store.reserve_all (VmNamespaced vm)
       (new_reservations (map_of (interface_macs (Interfaces prev))) (zip (Interfaces t) ifaces)) (macPoolMap p)"
  using assms(1-3)
proof (cases rule: UpdateMacAddressesForVirtualMachine_cases [where ord = ord and ts = ts and isNotDryRun = True])
  case (updated ifaces u p1)
  then show ?thesis
    using that [of ifaces u p1] assms(2,4) update_loop_success [OF assms(3) updated(2)] by (auto simp: check_vm_None)
qed (use assms in auto)

text \<open>C13: A successful update keeps a requested address, fills an empty one with the address the
  interface of that name had, or with a free address of the range when the name is new. The pool
  holds all it held before (an address the machine no longer uses is kept until the transaction is
  settled) and the addresses reserved now for new names and changed requests, for this machine.\<close>

theorem UpdateMacAddressesForVirtualMachine_serves:
  assumes "vm_Template previous = Some prev" "vm_Template vm = Some t" "pool_ok p"
    and "UpdateMacAddressesForVirtualMachine ord (Some previous) vm ts True p = Ret (None, vm', p')"
  shows "\<exists>ifaces. vm' = set_interfaces ifaces vm \<and>
     list_all2 (iface_updated p (map_of (interface_macs (Interfaces prev)))) (Interfaces t) ifaces \<and>
     holders (macPoolMap p') = holders (macPoolMap p) \<union>
       {(NewMacKey (iface_MacAddress i'), VmNamespaced vm, iface_Name i) | i i'.
          (i, i') \<in> set (zip (Interfaces t) ifaces) \<and>
          needs_reservation (map_of (interface_macs (Interfaces prev))) i}"
  using assms
proof (rule UpdateMacAddressesForVirtualMachine_success)
  fix ifaces u p1
  assume vm': "vm' = set_interfaces ifaces vm" "p' = stamp_update ord vm ts u p1"
    and s: "list_all2 (iface_updated p (map_of (interface_macs (Interfaces prev)))) (Interfaces t) ifaces"
      "macPoolMap p1 = pool_store.reserve_all (VmNamespaced vm)
         (new_reservations (map_of (interface_macs (Interfaces prev))) (zip (Interfaces t) ifaces)) (macPoolMap p)"
  then have "holders (macPoolMap p') = holders (macPoolMap p1)" by simp
  with s vm' show ?thesis
    by (intro exI [of _ ifaces]) (auto simp: pool_store.rel_reserve_all mem_new_reservations)
qed

theorem UpdateMacAddressesForVirtualMachine_serves_witness:
  "\<exists>vm' p'. UpdateMacAddressesForVirtualMachine (\<lambda>xs. xs) (Some sample_vm) sample_vm (Some 5) True
       sample_pool = Ret (None, vm', p') \<and> holders (macPoolMap p') = {}"
proof -
  obtain vm' p' where r: "UpdateMacAddressesForVirtualMachine (\<lambda>xs. xs) (Some sample_vm) sample_vm
      (Some 5) True sample_pool = Ret (None, vm', p')"
    by (auto simp: UpdateMacAddressesForVirtualMachine_def getVirtualMachineInterfaces_def check_vm_def
          checkIntraVMDuplicateMACs_def checkVmForInterfaceDuplication_def sample_template_def
          sample_iface_def interface_macs_def Let_def)
  with UpdateMacAddressesForVirtualMachine_serves
      [OF sample_vm_Template sample_vm_Template sample_pool_pool_ok r]
  show ?thesis
    by (auto simp: needs_reservation_def sample_template_def sample_iface_def interface_macs_def
          in_set_zip nth_Cons' split: if_splits)
qed

lemma set_transaction_timestamps_keeps:
  "stamped (macPoolMap q) inst ts x \<Longrightarrow>
     stamped (macPoolMap (set_transaction_timestamps ord inst ts al q)) inst ts x"
  by (simp add: set_transaction_timestamps_def update_keeps_stamped)

lemma set_transaction_timestamps_stamps:
  assumes "range_order ord" "\<And>s. s \<in> snd ` set al \<Longrightarrow> \<exists>j. (NewMacKey s, inst, j) \<in> holders (macPoolMap q)"
    and "x \<in> snd ` set al"
  shows "stamped (macPoolMap (set_transaction_timestamps ord inst ts al q)) inst ts x"
  using assms range_order_set [OF assms(1), of al]
    updateMacTransactionTimestampForUpdatedMacs_stamps [of "map snd (ord al)" inst "macPoolMap q" ts]
  by (auto simp: set_transaction_timestamps_def)

definition all_values :: "update_maps \<Rightarrow> string set" where
  "all_values u = snd ` set (upd_newAllocations u) \<union> snd ` set (upd_releaseOldAllocations u) \<union>
     snd ` set (upd_deltaInterfacesMap u)"

lemma stamp_update_stamps:
  assumes "range_order ord"
    and "\<And>s. s \<in> all_values u \<Longrightarrow> \<exists>j. (NewMacKey s, VmNamespaced vm, j) \<in> holders (macPoolMap q)"
    and "x \<in> all_values u"
  shows "stamped (macPoolMap (stamp_update ord vm ts u q)) (VmNamespaced vm) ts x"
  using assms(3) unfolding all_values_def
  by (elim UnE; (intro set_transaction_timestamps_keeps set_transaction_timestamps_stamps [OF assms(1)];
        simp add: assms(2) all_values_def))

text \<open>Which addresses the maps hold after the loop, for a machine that had the interfaces \<open>prev\<close>.\<close>

lemma set_interfaces_inject:
  "vm_Template vm = Some t \<Longrightarrow> set_interfaces a vm = set_interfaces b vm \<longleftrightarrow> a = b"
proof
  assume "vm_Template vm = Some t" "set_interfaces a vm = set_interfaces b vm"
  from arg_cong [OF this(2), of vm_Template] this(1) show "a = b"
    by (cases t) (simp add: set_interfaces_def)
qed simp

lemma map_of_snd: "map_of xs k = Some v \<Longrightarrow> v \<in> snd ` set xs"
  by (force dest: map_of_SomeD)

lemma all_values_bound:
  fixes prev :: "(string, string) gomap"
  assumes "distinct (map fst prev)" "list_all2 (iface_updated p (map_of prev)) ifaces ifaces'"
    and "u = advance_all (map_of prev) (zip ifaces ifaces')
      \<lparr>upd_newAllocations = [], upd_releaseOldAllocations = [], upd_deltaInterfacesMap = prev\<rparr>"
    and "s \<in> all_values u"
  shows "(\<exists>j. map_of prev j = Some s) \<or>
     (\<exists>j. (j, s) \<in> set (new_reservations (map_of prev) (zip ifaces ifaces')))"
proof -
  have "snd ` set (upd_newAllocations u) \<subseteq> new_values (map_of prev) (zip ifaces ifaces')"
      "snd ` set (upd_releaseOldAllocations u) \<subseteq> ran (map_of prev)"
      "set (upd_deltaInterfacesMap u) \<subseteq> set prev"
    using advance_all_values [of "map_of prev" "zip ifaces ifaces'"
        "\<lparr>upd_newAllocations = [], upd_releaseOldAllocations = [], upd_deltaInterfacesMap = prev\<rparr>"]
    by (simp_all add: assms(3))
  then have "s \<in> new_values (map_of prev) (zip ifaces ifaces') \<or> s \<in> ran (map_of prev) \<or> s \<in> snd ` set prev"
    using assms(4) unfolding all_values_def by blast
  then show ?thesis
    using new_values_held [OF assms(2)] map_of_is_SomeI [OF assms(1)] unfolding ran_def by fastforce
qed

lemma all_values_cover:
  fixes prev :: "(string, string) gomap"
  assumes "distinct (map iface_Name ifaces)" "length ifaces' = length ifaces"
    and u: "u = advance_all (map_of prev) (zip ifaces ifaces')
      \<lparr>upd_newAllocations = [], upd_releaseOldAllocations = [], upd_deltaInterfacesMap = prev\<rparr>"
  shows "(i, i') \<in> set (zip ifaces ifaces') \<Longrightarrow> needs_reservation (map_of prev) i \<Longrightarrow>
        iface_MacAddress i' \<in> all_values u"
    and "i \<in> set ifaces \<Longrightarrow> needs_reservation (map_of prev) i \<Longrightarrow> map_of prev (iface_Name i) = Some s \<Longrightarrow>
        s \<in> all_values u"
    and "map_of prev j = Some s \<Longrightarrow> j \<notin> iface_Name ` set ifaces \<Longrightarrow> s \<in> all_values u"
proof -
  have fst: "map fst (zip ifaces ifaces') = ifaces" using assms(2) by simp
  then have "distinct (map (iface_Name \<circ> fst) (zip ifaces ifaces'))" using assms(1) by (metis map_map)
  note b = advance_all_binds [OF this, of _ _ "map_of prev", folded u]
  show "(i, i') \<in> set (zip ifaces ifaces') \<Longrightarrow> needs_reservation (map_of prev) i \<Longrightarrow>
      iface_MacAddress i' \<in> all_values u"
    using b unfolding all_values_def u by (blast intro: map_of_snd)
  show "i \<in> set ifaces \<Longrightarrow> needs_reservation (map_of prev) i \<Longrightarrow> map_of prev (iface_Name i) = Some s \<Longrightarrow>
      s \<in> all_values u"
  proof -
    assume a: "i \<in> set ifaces" "needs_reservation (map_of prev) i" "map_of prev (iface_Name i) = Some s"
    then have "i \<in> set (map fst (zip ifaces ifaces'))" by (simp only: fst)
    then obtain i' where "(i, i') \<in> set (zip ifaces ifaces')" by auto
    then have "map_of (upd_releaseOldAllocations u) (iface_Name i) = Some s"
      using b a(2,3) unfolding u by auto
    then show ?thesis unfolding all_values_def by (blast intro: map_of_snd)
  qed
  show "map_of prev j = Some s \<Longrightarrow> j \<notin> iface_Name ` set ifaces \<Longrightarrow> s \<in> all_values u"
  proof -
    assume "map_of prev j = Some s" "j \<notin> iface_Name ` set ifaces"
    moreover have "fst ` set (zip ifaces ifaces') = set ifaces" using fst by (metis list.set_map)
    ultimately have "map_of (upd_deltaInterfacesMap u) j = Some s"
      using map_of_advance_all [of j "zip ifaces ifaces'" "map_of prev"] by (simp add: u)
    then show ?thesis unfolding all_values_def by (blast intro: map_of_snd)
  qed
qed

text \<open>When the pool holds the addresses of the previous interfaces, all that the maps collect is stamped.\<close>

lemma stamp_update_all:
  assumes "range_order ord"
    and "\<And>j s. map_of (interface_macs prev) j = Some s \<Longrightarrow> \<exists>j'. (NewMacKey s, VmNamespaced vm, j') \<in> holders (macPoolMap p)"
    and l2: "list_all2 (iface_updated p (map_of (interface_macs prev))) ifaces ifaces'"
    and u: "u = advance_all (map_of (interface_macs prev)) (zip ifaces ifaces')
      \<lparr>upd_newAllocations = [], upd_releaseOldAllocations = [], upd_deltaInterfacesMap = interface_macs prev\<rparr>"
    and p1: "macPoolMap p1 = pool_store.reserve_all (VmNamespaced vm)
      (new_reservations (map_of (interface_macs prev)) (zip ifaces ifaces')) (macPoolMap p)"
    and "s \<in> all_values u"
  shows "stamped (macPoolMap (stamp_update ord vm ts u p1)) (VmNamespaced vm) ts s"
proof -
  have "\<exists>j. (NewMacKey s, VmNamespaced vm, j) \<in> holders (macPoolMap p1)" if "s \<in> all_values u" for s
    using all_values_bound [OF distinct_interface_macs l2 u that] assms(2)
    unfolding p1 pool_store.rel_reserve_all by blast
  from stamp_update_stamps [OF assms(1) this assms(6)] show ?thesis .
qed

text \<open>Every address an update concerns is marked as pending. When the pool holds, for this
  machine, the addresses its interfaces had before, then after a successful update the entry found
  for each address newly allocated, replaced by another one, or left by an interface that is gone
  carries the timestamp of this transaction.\<close>

theorem UpdateMacAddressesForVirtualMachine_stamps:
  assumes "vm_Template previous = Some prev" "vm_Template vm = Some t" "pool_ok p" "range_order ord"
    and held: "\<And>j s. map_of (interface_macs (Interfaces prev)) j = Some s \<Longrightarrow>
      \<exists>j'. (NewMacKey s, VmNamespaced vm, j') \<in> holders (macPoolMap p)"
    and "UpdateMacAddressesForVirtualMachine ord (Some previous) vm ts True p = Ret (None, vm', p')"
  shows "\<exists>ifaces. vm' = set_interfaces ifaces vm \<and>
     (\<forall>(i, i')\<in>set (zip (Interfaces t) ifaces).
        needs_reservation (map_of (interface_macs (Interfaces prev))) i \<longrightarrow>
        stamped (macPoolMap p') (VmNamespaced vm) ts (iface_MacAddress i')) \<and>
     (\<forall>i\<in>set (Interfaces t). \<forall>s. map_of (interface_macs (Interfaces prev)) (iface_Name i) = Some s \<longrightarrow>
        needs_reservation (map_of (interface_macs (Interfaces prev))) i \<longrightarrow>
        stamped (macPoolMap p') (VmNamespaced vm) ts s) \<and>
     (\<forall>j s. map_of (interface_macs (Interfaces prev)) j = Some s \<longrightarrow> j \<notin> iface_Name ` set (Interfaces t) \<longrightarrow>
        stamped (macPoolMap p') (VmNamespaced vm) ts s)"
proof -
  obtain ifaces u p1 where vm': "vm' = set_interfaces ifaces vm" "p' = stamp_update ord vm ts u p1"
    and d: "distinct (map iface_Name (Interfaces t))"
    and l2: "list_all2 (iface_updated p (map_of (interface_macs (Interfaces prev)))) (Interfaces t) ifaces"
    and u: "u = advance_all (map_of (interface_macs (Interfaces prev))) (zip (Interfaces t) ifaces)
       \<lparr>upd_newAllocations = [], upd_releaseOldAllocations = [], upd_deltaInterfacesMap = interface_macs (Interfaces prev)\<rparr>"
    and p1: "macPoolMap p1 = pool_store.reserve_all (VmNamespaced vm)
       (new_reservations (map_of (interface_macs (Interfaces prev))) (zip (Interfaces t) ifaces)) (macPoolMap p)"
    using assms(1-3,6) by (rule UpdateMacAddressesForVirtualMachine_success)
  note st = stamp_update_all [OF assms(4) held l2 u p1, where ts = ts, folded vm'(2)]
  note c = all_values_cover [OF d list_all2_lengthD [OF l2, symmetric] u]
  show ?thesis using vm'(1) c st by (intro exI [of _ ifaces]) fast
qed

end
