(* ===== verification/Webhooks.thy ===== *)
theory Webhooks
  imports JsonPatch VmUpdate
begin

section \<open>The admission webhooks: \<open>pkg/webhook/virtualmachine\<close>, \<open>pkg/webhook/pod\<close>\<close>

text \<open>
  The API server sends every creation and update of a virtual machine, and every creation of a pod,
  to a webhook before it stores the object. The webhook allocates and answers with a patch that puts
  the addresses, and for a virtual machine the timestamp of the transaction, into the object. The
  decoder and the client are parameters, and so are the clock and the printed form of a time.

  Shown: applying a patch gives exactly the object the webhook computed; what is stored after an
  admitted creation is what the pool holds, with the same timestamp on both sides; a refused request
  carries no patch; no request touches the entries of another object.
\<close>

datatype admission_operation = Create | Update | OtherOperation string

record 'o admission_request =
  areq_Operation :: admission_operation
  areq_Namespace :: string
  areq_DryRun :: "bool option"
  areq_Object :: "go_error + 'o"

record admission_response =
  resp_Allowed :: bool
  resp_Code :: "int option"
  resp_Error :: "go_error option"
  resp_Message :: string
  resp_Patches :: "operation list"
  resp_PatchType :: "string option"

definition Errored :: "int \<Rightarrow> go_error \<Rightarrow> admission_response" where
  "Errored code err = \<lparr>resp_Allowed = False, resp_Code = Some code, resp_Error = Some err, resp_Message = [],
     resp_Patches = [], resp_PatchType = None\<rparr>"

definition Allowed :: "string \<Rightarrow> admission_response" where
  "Allowed message = \<lparr>resp_Allowed = True, resp_Code = Some 200, resp_Error = None, resp_Message = message,
     resp_Patches = [], resp_PatchType = None\<rparr>"

text \<open>The last statements of both patch functions: a patch type only where there are patches.\<close>

definition patched :: "operation list \<Rightarrow> admission_response" where
  "patched ops = \<lparr>resp_Allowed = True, resp_Code = None, resp_Error = None, resp_Message = [],
     resp_Patches = ops, resp_PatchType = (if length ops = 0 then None else Some ''JSONPatch'')\<rparr>"

lemma response_simps [simp]:
  "resp_Allowed (patched ops)" "resp_Patches (patched ops) = ops"
  "\<not> resp_Allowed (Errored code err)" "resp_Patches (Errored code err) = []"
  "resp_Allowed (Allowed msg)" "resp_Patches (Allowed msg) = []"
  by (simp_all add: patched_def Errored_def Allowed_def)

definition is_not_dry_run :: "'o admission_request \<Rightarrow> bool" where
  "is_not_dry_run req \<longleftrightarrow> areq_DryRun req = None \<or> areq_DryRun req = Some False"

subsection \<open>The patch of a virtual machine\<close>

text \<open>
  \<open>patchChange\<close> compares two strings as JSON documents with \<open>jsonpatch.CreatePatch\<close>, which gives no
  operation for equal documents and one replacement of the root for two different strings.
\<close>

definition patchChange :: "string \<Rightarrow> string \<Rightarrow> string \<Rightarrow> operation list" where
  "patchChange pathChange original current =
     (if original = current then [] else [NewOperation ''replace'' pathChange (JString current)])"

fun patch_interfaces :: "nat \<Rightarrow> vm_interface list \<Rightarrow> vm_interface list \<Rightarrow> operation list run" where
  "patch_interfaces idx originals [] = Ret []"
| "patch_interfaces idx originals (current # currents) =
     (if idx < length originals
      then bind_run (patch_interfaces (Suc idx) originals currents) (\<lambda>ops.
             Ret (patchChange (mac_path idx) (iface_MacAddress (originals ! idx)) (iface_MacAddress current) @ ops))
      else Panics)"

definition patch_timestamp :: "virtual_machine \<Rightarrow> virtual_machine \<Rightarrow> operation list" where
  "patch_timestamp originalVirtualMachine currentVirtualMachine =
     (let original = lookup_nil (vm_Annotations originalVirtualMachine) TransactionTimestampAnnotation;
          originalTransactionTSString = (case original of None \<Rightarrow> [] | Some s \<Rightarrow> s);
          currentTransactionTSString =
            (case lookup_nil (vm_Annotations currentVirtualMachine) TransactionTimestampAnnotation of
               None \<Rightarrow> [] | Some s \<Rightarrow> s)
      in if currentTransactionTSString \<noteq> [] \<and> currentTransactionTSString \<noteq> originalTransactionTSString
         then (if (case vm_Annotations originalVirtualMachine of None \<Rightarrow> True | Some m \<Rightarrow> length m = 0)
               then [NewOperation ''add'' annotations_path (JStringMap [])] else []) @
              [NewOperation (if original \<noteq> None then ''replace'' else ''add'')
                 (annotation_path TransactionTimestampAnnotation) (JString currentTransactionTSString)]
         else [])"

definition patchVMChanges :: "virtual_machine \<Rightarrow> virtual_machine \<Rightarrow> admission_response run" where
  "patchVMChanges originalVirtualMachine currentVirtualMachine =
     (if \<not> IsVirtualMachineDeletionInProgress currentVirtualMachine
      then bind_run (getVirtualMachineInterfaces currentVirtualMachine) (\<lambda>currents.
           bind_run (if currents = [] then Ret [] else getVirtualMachineInterfaces originalVirtualMachine) (\<lambda>originals.
           bind_run (patch_interfaces 0 originals currents) (\<lambda>ops.
             Ret (patched (patch_timestamp originalVirtualMachine currentVirtualMachine @ ops)))))
      else Ret (patched []))"

subsection \<open>Creation\<close>

text \<open>\<open>now\<close> is what \<open>CreateTransactionTimestamp\<close> returns, \<open>format\<close> prints it.\<close>

definition mutateCreateVirtualMachinesFn ::
    "((string \<times> string) list \<Rightarrow> (string \<times> string) list) \<Rightarrow> (time \<Rightarrow> string) \<Rightarrow> time \<Rightarrow>
     (string \<Rightarrow> string \<Rightarrow> api_error + virtual_machine) \<Rightarrow> virtual_machine \<Rightarrow> bool \<Rightarrow> pool_manager \<Rightarrow> vm_result" where
  "mutateCreateVirtualMachinesFn ord format now get vm0 isNotDryRun p =
     bind_run (SetTransactionTimestampAnnotationToVm format vm0 now) (\<lambda>vm.
     case get (vm_Namespace vm) (vm_Name vm) of
       Inl e \<Rightarrow>
         if IsNotFound (ErrApi e) \<and> \<not> IsVirtualMachineDeletionInProgress vm
         then bind_run (AllocateVirtualMachineMac ord vm (Some now) isNotDryRun p) (\<lambda>(r, vm', p').
                Ret (map_option (ErrWrap ''Failed to allocate mac to the vm object'') r, vm', p'))
         else Ret (Some (ErrWrap ''Failed to get the existing vm object'' (ErrApi e)), vm, p)
     | Inr _ \<Rightarrow> Ret (None, vm, p))"

subsection \<open>Update\<close>

text \<open>\<open>reflect.DeepEqual\<close> on two string maps: a nil map is not an empty one.\<close>

definition deep_equal_map :: "string_map option \<Rightarrow> string_map option \<Rightarrow> bool" where
  "deep_equal_map a b = (case (a, b) of
     (None, None) \<Rightarrow> True | (Some xs, Some ys) \<Rightarrow> set xs = set ys | _ \<Rightarrow> False)"

text \<open>
  \<open>reflect.DeepEqual\<close> on the two specs. The lists of interfaces and networks are lists here, so that an absent one and an empty one, which
  \<open>DeepEqual\<close> tells apart, are not.
\<close>

definition isVirtualMachineSpecChanged :: "virtual_machine \<Rightarrow> virtual_machine \<Rightarrow> bool" where
  "isVirtualMachineSpecChanged previous vm =
     (\<not> (vm_Template previous = vm_Template vm \<and> vm_SpecOther previous = vm_SpecOther vm))"

text \<open>The annotation is deleted from the machine's own map.\<close>

definition getAnnotationsWithoutTransactionTimestamp :: "virtual_machine \<Rightarrow> virtual_machine" where
  "getAnnotationsWithoutTransactionTimestamp vm =
     vm\<lparr>vm_Annotations := map_option (AList.delete TransactionTimestampAnnotation) (vm_Annotations vm)\<rparr>"

definition isVirtualMachineMetadataChanged ::
    "virtual_machine \<Rightarrow> virtual_machine \<Rightarrow> bool \<times> virtual_machine \<times> virtual_machine" where
  "isVirtualMachineMetadataChanged previous vm =
     (if \<not> deep_equal_map (vm_Labels previous) (vm_Labels vm) then (True, previous, vm)
      else let vm' = getAnnotationsWithoutTransactionTimestamp vm;
               previous' = getAnnotationsWithoutTransactionTimestamp previous
           in if \<not> deep_equal_map (vm_Annotations previous') (vm_Annotations vm') then (True, previous', vm')
              else (False, previous', vm'))"

definition isVirtualMachineChanged ::
    "virtual_machine \<Rightarrow> virtual_machine \<Rightarrow> bool \<times> virtual_machine \<times> virtual_machine" where
  "isVirtualMachineChanged previous vm =
     (if isVirtualMachineSpecChanged previous vm then (True, previous, vm)
      else case isVirtualMachineMetadataChanged previous vm of
             (True, previous', vm') \<Rightarrow> (True, previous', vm')
           | (False, previous', vm') \<Rightarrow> (False, previous', vm'))"

definition isVirtualMachineInterfacesChanged :: "virtual_machine \<Rightarrow> virtual_machine \<Rightarrow> bool run" where
  "isVirtualMachineInterfacesChanged previous vm =
     bind_run (getVirtualMachineInterfaces previous) (\<lambda>a.
     bind_run (getVirtualMachineInterfaces vm) (\<lambda>b. Ret (\<not> a = b)))"

definition mutateUpdateVirtualMachinesFn ::
    "((string \<times> string) list \<Rightarrow> (string \<times> string) list) \<Rightarrow> (time \<Rightarrow> string) \<Rightarrow> time \<Rightarrow>
     (string \<Rightarrow> string \<Rightarrow> api_error + virtual_machine) \<Rightarrow> virtual_machine \<Rightarrow> bool \<Rightarrow> pool_manager \<Rightarrow> vm_result" where
  "mutateUpdateVirtualMachinesFn ord format now get vm isNotDryRun p =
     (case get (vm_Namespace vm) (vm_Name vm) of
        Inl e \<Rightarrow> if IsNotFound (ErrApi e) then Ret (None, vm, p) else Ret (Some (ErrApi e), vm, p)
      | Inr previous \<Rightarrow>
          (case isVirtualMachineChanged previous vm of
             (False, _, vm1) \<Rightarrow> Ret (None, vm1, p)
           | (True, previous1, vm1) \<Rightarrow>
               bind_run (SetTransactionTimestampAnnotationToVm format vm1 now) (\<lambda>vm2.
               bind_run (isVirtualMachineInterfacesChanged previous1 vm2) (\<lambda>changed.
               if changed
               then UpdateMacAddressesForVirtualMachine ord (Some previous1) vm2 (Some now) isNotDryRun p
               else Ret (None, vm2, p)))))"

subsection \<open>The handler of virtual machines\<close>

definition prepared_vm :: "virtual_machine admission_request \<Rightarrow> virtual_machine \<Rightarrow> virtual_machine" where
  "prepared_vm req vm0 =
     (let vm1 = (if vm_Annotations vm0 = None then vm0\<lparr>vm_Annotations := Some []\<rparr> else vm0)
      in if vm_Namespace vm1 = [] then vm1\<lparr>vm_Namespace := areq_Namespace req\<rparr> else vm1)"

definition Handle_vm ::
    "((string \<times> string) list \<Rightarrow> (string \<times> string) list) \<Rightarrow> (time \<Rightarrow> string) \<Rightarrow> time \<Rightarrow>
     (string \<Rightarrow> string \<Rightarrow> api_error + virtual_machine) \<Rightarrow> virtual_machine admission_request \<Rightarrow> pool_manager \<Rightarrow>
     (admission_response \<times> pool_manager) run" where
  "Handle_vm ord format now get req p = (case areq_Object req of
     Inl err \<Rightarrow> Ret (Errored 400 err, p)
   | Inr originalVirtualMachine \<Rightarrow>
       (let vm = prepared_vm req originalVirtualMachine; isNotDryRun = is_not_dry_run req in
        if vm_Template vm = None
        then Ret (Allowed ''virtual machine template is nil, ignoring virtual machine'', p)
        else
          (case areq_Operation req of
             Create \<Rightarrow>
               bind_run (mutateCreateVirtualMachinesFn ord format now get vm isNotDryRun p) (\<lambda>(e, vm', p').
               case e of
                 Some err \<Rightarrow> Ret (Errored 500 (ErrWrap ''Failed to create virtual machine allocation error'' err), p')
               | None \<Rightarrow> bind_run (patchVMChanges originalVirtualMachine vm') (\<lambda>resp. Ret (resp, p')))
           | Update \<Rightarrow>
               bind_run (mutateUpdateVirtualMachinesFn ord format now get vm isNotDryRun p) (\<lambda>(e, vm', p').
               case e of
                 Some err \<Rightarrow> Ret (Errored 500 (ErrWrap ''Failed to update virtual machine allocation error'' err), p')
               | None \<Rightarrow> bind_run (patchVMChanges originalVirtualMachine vm') (\<lambda>resp. Ret (resp, p')))
           | OtherOperation _ \<Rightarrow> bind_run (patchVMChanges originalVirtualMachine vm) (\<lambda>resp. Ret (resp, p)))))"

subsection \<open>The handler of pods\<close>

definition patchPodChanges :: "pod \<Rightarrow> pod \<Rightarrow> admission_response" where
  "patchPodChanges originalPod currentPod =
     (let currentNetworkAnnotation =
            (case lookup_nil (pod_Annotations currentPod) NetworkAttachmentAnnot of None \<Rightarrow> [] | Some s \<Rightarrow> s);
          originalPodNetworkAnnotation =
            (case lookup_nil (pod_Annotations originalPod) NetworkAttachmentAnnot of None \<Rightarrow> [] | Some s \<Rightarrow> s)
      in patched (if originalPodNetworkAnnotation \<noteq> currentNetworkAnnotation
           then [NewOperation ''replace'' annotations_path
                   (JStringMap (case pod_Annotations currentPod of None \<Rightarrow> [] | Some m \<Rightarrow> m))]
           else []))"

definition Handle_pod ::
    "kube \<Rightarrow> codec \<Rightarrow> ((string \<times> string) list \<Rightarrow> (string \<times> string) list) \<Rightarrow> pod admission_request \<Rightarrow>
     pool_manager \<Rightarrow> (admission_response \<times> pool_manager) run" where
  "Handle_pod k js ord req p = (case areq_Object req of
     Inl err \<Rightarrow> Ret (Errored 400 err, p)
   | Inr originalPod \<Rightarrow>
       (let pd = (if pod_Annotations originalPod = None then originalPod\<lparr>pod_Annotations := Some []\<rparr> else originalPod)
        in bind_run (AllocatePodMac k js ord pd (is_not_dry_run req) p) (\<lambda>(e, pd', p').
           case e of
             Some err \<Rightarrow> Ret (Errored 500 err, p')
           | None \<Rightarrow> Ret (patchPodChanges originalPod pd', p'))))"

subsection \<open>The effect of a patch\<close>

lemma apply_op_mac [simp]:
  "vm_Template vm = Some t \<Longrightarrow> i < length (Interfaces t) \<Longrightarrow>
     apply_op_vm (NewOperation ''replace'' (mac_path i) (JString s)) vm =
     Some (vm\<lparr>vm_Template := Some (t\<lparr>Interfaces := (Interfaces t)[i := (Interfaces t ! i)\<lparr>iface_MacAddress := s\<rparr>]\<rparr>)\<rparr>)"
  by (simp add: apply_op_vm_def NewOperation_def)

lemma apply_op_annotations [simp]:
  "apply_op_vm (NewOperation ''add'' annotations_path (JStringMap m)) vm = Some (vm\<lparr>vm_Annotations := Some m\<rparr>)"
  by (simp add: apply_op_vm_def NewOperation_def)

lemma apply_op_annotation [simp]:
  "vm_Annotations vm = Some m \<Longrightarrow> op = ''add'' \<or> op = ''replace'' \<and> map_of m key \<noteq> None \<Longrightarrow>
     apply_op_vm (NewOperation op (annotation_path key) (JString s)) vm =
     Some (vm\<lparr>vm_Annotations := Some (AList.update key s m)\<rparr>)"
  by (auto simp: apply_op_vm_def NewOperation_def lookup_nil_def)

lemma patch_interfaces_apply:
  assumes "list_all2 same_but_mac os cs" "length xs0 = length xs"
  shows "\<exists>ops. patch_interfaces (length xs) (xs0 @ os) cs = Ret ops \<and>
     (\<forall>vm t. vm_Template vm = Some t \<longrightarrow> Interfaces t = xs @ os \<longrightarrow>
        apply_patch apply_op_vm ops vm = Some (vm\<lparr>vm_Template := Some (t\<lparr>Interfaces := xs @ cs\<rparr>)\<rparr>))"
  using assms
proof (induction arbitrary: xs0 xs rule: list_all2_induct)
  case Nil
  have "vm\<lparr>vm_Template := Some (t\<lparr>Interfaces := xs @ []\<rparr>)\<rparr> = vm"
    if "vm_Template vm = Some t" "Interfaces t = xs @ []" for vm :: virtual_machine and t
    using that by (cases vm; cases t) simp
  then show ?case by simp
next
  case (Cons i os c cs)
  obtain ops where ops: "patch_interfaces (Suc (length xs)) (xs0 @ i # os) cs = Ret ops"
    "\<And>vm t. vm_Template vm = Some t \<Longrightarrow> Interfaces t = (xs @ [c]) @ os \<Longrightarrow>
        apply_patch apply_op_vm ops vm = Some (vm\<lparr>vm_Template := Some (t\<lparr>Interfaces := (xs @ [c]) @ cs\<rparr>)\<rparr>)"
    using Cons.IH [of "xs0 @ [i]" "xs @ [c]"] Cons.prems by auto
  have c: "i\<lparr>iface_MacAddress := iface_MacAddress c\<rparr> = c" using Cons.hyps(1) by (simp add: same_but_mac_def)
  have "apply_patch apply_op_vm (patchChange (mac_path (length xs)) (iface_MacAddress i) (iface_MacAddress c) @ ops) vm =
      Some (vm\<lparr>vm_Template := Some (t\<lparr>Interfaces := xs @ c # cs\<rparr>)\<rparr>)"
    if t: "vm_Template vm = Some t" "Interfaces t = xs @ i # os" for vm t
  proof (cases "iface_MacAddress i = iface_MacAddress c")
    case True
    then have "i = c" using c by (cases i) simp
    with ops(2) [OF t(1)] t(2) True show ?thesis by (simp add: patchChange_def)
  next
    case False
    with ops(2) [of "vm\<lparr>vm_Template := Some (t\<lparr>Interfaces := xs @ c # os\<rparr>)\<rparr>"] t c show ?thesis
      by (simp add: patchChange_def)
  qed
  with ops(1) Cons.prems show ?case by (auto simp: nth_append)
qed

text \<open>The annotation a patch leaves: the current timestamp when there is one, else the original value.\<close>

definition patched_annotation :: "virtual_machine \<Rightarrow> virtual_machine \<Rightarrow> string \<Rightarrow> string option" where
  "patched_annotation original current key =
     (if key = TransactionTimestampAnnotation \<and>
         lookup_nil (vm_Annotations current) TransactionTimestampAnnotation \<notin> {None, Some []}
      then lookup_nil (vm_Annotations current) TransactionTimestampAnnotation
      else lookup_nil (vm_Annotations original) key)"

lemma patch_timestamp_apply:
  "\<exists>a. apply_patch apply_op_vm (patch_timestamp original current) original = Some (original\<lparr>vm_Annotations := a\<rparr>) \<and>
     (\<forall>key. lookup_nil a key = patched_annotation original current key)"
proof -
  let ?TS = TransactionTimestampAnnotation
  obtain s where s: "s = (case lookup_nil (vm_Annotations current) ?TS of None \<Rightarrow> [] | Some s \<Rightarrow> s)" by simp
  show ?thesis
  proof (cases "s \<noteq> [] \<and> lookup_nil (vm_Annotations original) ?TS \<noteq> Some s")
    case False
    have "original = original\<lparr>vm_Annotations := vm_Annotations original\<rparr>" by (cases original) simp
    moreover have "patch_timestamp original current = []"
      using False s by (auto simp: patch_timestamp_def Let_def split: option.splits)
    moreover have "\<forall>key. lookup_nil (vm_Annotations original) key = patched_annotation original current key"
      using False s by (auto simp: patched_annotation_def split: option.splits)
    ultimately show ?thesis by (intro exI [of _ "vm_Annotations original"]) simp
  next
    case True
    let ?m = "case vm_Annotations original of None \<Rightarrow> [] | Some m \<Rightarrow> m"
    have cur: "lookup_nil (vm_Annotations current) ?TS = Some s" using True s by (simp split: option.splits)
    have "apply_patch apply_op_vm (patch_timestamp original current) original =
        Some (original\<lparr>vm_Annotations := Some (AList.update ?TS s ?m)\<rparr>)"
      unfolding patch_timestamp_def Let_def cur using True
      by (cases "vm_Annotations original"; cases "map_of ?m ?TS") (auto simp: lookup_nil_def)
    moreover have "\<forall>key. lookup_nil (Some (AList.update ?TS s ?m)) key = patched_annotation original current key"
      using True unfolding patched_annotation_def cur
      by (cases "vm_Annotations original") (auto simp: lookup_nil_def update_conv')
    ultimately show ?thesis by blast
  qed
qed

lemma patchVMChanges_apply:
  assumes "\<not> vm_DeletionTimestamp current" "vm_Template original = Some t" "vm_Template current = Some t'"
    and "list_all2 same_but_mac (Interfaces t) (Interfaces t')"
  shows "\<exists>ops stored. patchVMChanges original current = Ret (patched ops) \<and>
     apply_patch apply_op_vm ops original = Some stored \<and>
     stored = original\<lparr>vm_Template := Some (t\<lparr>Interfaces := Interfaces t'\<rparr>), vm_Annotations := vm_Annotations stored\<rparr> \<and>
     (\<forall>key. lookup_nil (vm_Annotations stored) key = patched_annotation original current key)"
proof -
  obtain a where a: "apply_patch apply_op_vm (patch_timestamp original current) original = Some (original\<lparr>vm_Annotations := a\<rparr>)"
      "\<forall>key. lookup_nil a key = patched_annotation original current key"
    using patch_timestamp_apply by blast
  obtain ops where ops: "patch_interfaces 0 (Interfaces t) (Interfaces t') = Ret ops"
      "\<And>vm. vm_Template vm = Some t \<Longrightarrow>
        apply_patch apply_op_vm ops vm = Some (vm\<lparr>vm_Template := Some (t\<lparr>Interfaces := Interfaces t'\<rparr>)\<rparr>)"
    using patch_interfaces_apply [OF assms(4), of "[]" "[]"] by auto
  have "patchVMChanges original current = Ret (patched (patch_timestamp original current @ ops))"
    using assms(1-3) ops(1)
    by (auto simp: patchVMChanges_def IsVirtualMachineDeletionInProgress_def getVirtualMachineInterfaces_def)
  with a ops(2) [of "original\<lparr>vm_Annotations := a\<rparr>"] assms(2) show ?thesis
    by (auto simp: apply_patch_append)
qed

subsection \<open>What the handler makes of a machine\<close>

text \<open>Two versions of a machine that differ at most in annotations and addresses.\<close>

definition mac_variant :: "virtual_machine \<Rightarrow> virtual_machine \<Rightarrow> bool" where
  "mac_variant vm vm' \<longleftrightarrow> vm_DeletionTimestamp vm' = vm_DeletionTimestamp vm \<and>
     (\<exists>t t'. vm_Template vm = Some t \<and> vm_Template vm' = Some t' \<and>
        list_all2 same_but_mac (Interfaces t) (Interfaces t'))"

lemma mac_variant_annotations [simp]:
  "mac_variant (vm\<lparr>vm_Annotations := a\<rparr>) vm' = mac_variant vm vm'"
  "mac_variant vm (vm'\<lparr>vm_Annotations := a\<rparr>) = mac_variant vm vm'"
  by (simp_all add: mac_variant_def)

lemma only_macs_variant: "only_macs vm vm' \<Longrightarrow> mac_variant vm vm'"
  by (auto simp: only_macs_def mac_variant_def set_interfaces_def)

lemma mac_variant_refl: "mac_variant vm vm \<longleftrightarrow> vm_Template vm \<noteq> None"
  by (auto simp: mac_variant_def list_all2_same)

lemma VmNamespaced_annotations [simp]: "VmNamespaced (vm\<lparr>vm_Annotations := a\<rparr>) = VmNamespaced vm"
  by (simp add: VmNamespaced_def)

definition handled :: "virtual_machine \<Rightarrow> bool \<Rightarrow> pool_manager \<Rightarrow> vm_result \<Rightarrow> bool" where
  "handled vm isNotDryRun p r \<longleftrightarrow>
     (\<exists>e vm' p'. r = Ret (e, vm', p') \<and> framed (VmNamespaced vm) isNotDryRun p p' \<and> mac_variant vm vm')"

lemma mutateCreate_handled:
  assumes "vm_Annotations vm = Some a" "vm_Template vm = Some t" "pool_ok p"
  shows "handled vm isNotDryRun p (mutateCreateVirtualMachinesFn ord format now get vm isNotDryRun p)"
proof -
  let ?vm = "vm\<lparr>vm_Annotations := Some (AList.update TransactionTimestampAnnotation (format now) a)\<rparr>"
  obtain e vm' p' where r: "AllocateVirtualMachineMac ord ?vm (Some now) isNotDryRun p = Ret (e, vm', p')"
      "framed (VmNamespaced vm) isNotDryRun p p'"
    using AllocateVirtualMachineMac_framed [of ?vm t p ord "Some now" isNotDryRun] assms(2,3) by auto
  then have "mac_variant vm vm'"
    using only_macs_variant [OF AllocateVirtualMachineMac_only_macs [OF _ assms(3) r(1)]] assms(2) by simp
  with r assms show ?thesis
    by (auto simp: mutateCreateVirtualMachinesFn_def SetTransactionTimestampAnnotationToVm_def handled_def
          mac_variant_refl split: sum.split)
qed

lemma isVirtualMachineChanged_annotations:
  assumes "isVirtualMachineChanged previous vm = (b, previous', vm')" "vm_Annotations vm = Some a"
  shows "\<exists>a' x. vm' = vm\<lparr>vm_Annotations := Some a'\<rparr> \<and> previous' = previous\<lparr>vm_Annotations := x\<rparr>"
proof -
  have id: "vm\<lparr>vm_Annotations := vm_Annotations vm\<rparr> = vm" for vm :: virtual_machine by (cases vm) simp
  from assms show ?thesis
    by (auto simp: isVirtualMachineChanged_def isVirtualMachineMetadataChanged_def Let_def
          getAnnotationsWithoutTransactionTimestamp_def split: if_splits) (metis id)+
qed

lemma mutateUpdate_handled:
  assumes "vm_Annotations vm = Some a" "vm_Template vm = Some t" "pool_ok p"
    and "\<And>previous. get (vm_Namespace vm) (vm_Name vm) = Inr previous \<Longrightarrow> vm_Template previous \<noteq> None"
  shows "handled vm isNotDryRun p (mutateUpdateVirtualMachinesFn ord format now get vm isNotDryRun p)"
proof (cases "get (vm_Namespace vm) (vm_Name vm)")
  case (Inl e)
  with assms show ?thesis by (simp add: mutateUpdateVirtualMachinesFn_def handled_def mac_variant_refl)
next
  case (Inr previous)
  then obtain prev where prev: "vm_Template previous = Some prev" using assms(4) by blast
  obtain b previous1 vm1 where c: "isVirtualMachineChanged previous vm = (b, previous1, vm1)"
    by (cases "isVirtualMachineChanged previous vm")
  obtain a' x where vm1: "vm1 = vm\<lparr>vm_Annotations := Some a'\<rparr>" and previous1: "previous1 = previous\<lparr>vm_Annotations := x\<rparr>"
    using isVirtualMachineChanged_annotations [OF c assms(1)] by blast
  let ?vm = "vm\<lparr>vm_Annotations := Some (AList.update TransactionTimestampAnnotation (format now) a')\<rparr>"
  obtain e vm' p' where r: "UpdateMacAddressesForVirtualMachine ord (Some previous1) ?vm (Some now) isNotDryRun p = Ret (e, vm', p')"
      "framed (VmNamespaced vm) isNotDryRun p p'"
    using UpdateMacAddressesForVirtualMachine_framed [of previous1 prev ?vm t p ord "Some now" isNotDryRun] assms(2,3) prev
    by (auto simp: previous1)
  then have "mac_variant vm vm'"
    using only_macs_variant [OF UpdateMacAddressesForVirtualMachine_only_macs [OF _ _ assms(3) r(1)]] prev assms(2)
    by (simp add: previous1)
  with r assms Inr c prev show ?thesis
    by (cases b) (auto simp: mutateUpdateVirtualMachinesFn_def SetTransactionTimestampAnnotationToVm_def vm1
        handled_def isVirtualMachineInterfacesChanged_def getVirtualMachineInterfaces_def previous1 mac_variant_refl)
qed

lemma prepared_vm_facts:
  "\<exists>a. vm_Annotations (prepared_vm req vm) = Some a" "vm_Template (prepared_vm req vm) = vm_Template vm"
  "vm_DeletionTimestamp (prepared_vm req vm) = vm_DeletionTimestamp vm"
  "lookup_nil (vm_Annotations (prepared_vm req vm)) = lookup_nil (vm_Annotations vm)"
  "vm_Name (prepared_vm req vm) = vm_Name vm"
  by (auto simp: prepared_vm_def Let_def lookup_nil_def split: option.splits)

lemma mac_variant_prepared [simp]: "mac_variant (prepared_vm req vm) vm' = mac_variant vm vm'"
  by (simp add: mac_variant_def prepared_vm_facts)

lemma patchVMChanges_variant:
  assumes "mac_variant original current"
  shows "\<exists>ops. patchVMChanges original current = Ret (patched ops) \<and> apply_patch apply_op_vm ops original \<noteq> None"
proof (cases "vm_DeletionTimestamp current")
  case True
  then show ?thesis
    by (intro exI [of _ "[]"]) (simp add: patchVMChanges_def IsVirtualMachineDeletionInProgress_def)
next
  case False
  with patchVMChanges_apply [OF False] assms show ?thesis unfolding mac_variant_def by fast
qed

subsection \<open>Properties\<close>

text \<open>C15: The patch of a machine is exact. For two versions of a machine with the same interfaces up to
  their addresses, the operations apply one after the other to the original object and give an object
  with the addresses of the current version and its transaction timestamp, every other annotation and
  every other field as in the original.\<close>

theorem patchVMChanges_roundtrip:
  assumes "\<not> vm_DeletionTimestamp current" "vm_Template original = Some t" "vm_Template current = Some t'"
    and "list_all2 same_but_mac (Interfaces t) (Interfaces t')"
  shows "\<exists>ops stored. patchVMChanges original current = Ret (patched ops) \<and>
     apply_patch apply_op_vm ops original = Some stored \<and>
     stored = original\<lparr>vm_Template := Some (t\<lparr>Interfaces := Interfaces t'\<rparr>), vm_Annotations := vm_Annotations stored\<rparr> \<and>
     (\<forall>key. lookup_nil (vm_Annotations stored) key = patched_annotation original current key)"
  using assms by (rule patchVMChanges_apply)

theorem patchVMChanges_roundtrip_witness:
  "\<exists>ops stored. patchVMChanges sample_vm (set_interfaces [sample_iface\<lparr>iface_MacAddress := ''02:00:00:00:00:07''\<rparr>] sample_vm) =
      Ret (patched ops) \<and> apply_patch apply_op_vm ops sample_vm = Some stored \<and>
    vm_Template stored = Some (sample_template\<lparr>Interfaces := [sample_iface\<lparr>iface_MacAddress := ''02:00:00:00:00:07''\<rparr>]\<rparr>)"
proof -
  let ?i = "sample_iface\<lparr>iface_MacAddress := ''02:00:00:00:00:07''\<rparr>"
  let ?vm = "set_interfaces [?i] sample_vm"
  have vm: "\<not> vm_DeletionTimestamp ?vm" "vm_Template ?vm = Some (sample_template\<lparr>Interfaces := [?i]\<rparr>)"
    "list_all2 same_but_mac (Interfaces sample_template) (Interfaces (sample_template\<lparr>Interfaces := [?i]\<rparr>))"
    by (simp_all add: set_interfaces_def sample_vm_def sample_template_def)
  obtain ops stored where r: "patchVMChanges sample_vm ?vm = Ret (patched ops)"
      "apply_patch apply_op_vm ops sample_vm = Some stored"
      "stored = sample_vm\<lparr>vm_Template := Some (sample_template\<lparr>Interfaces := [?i]\<rparr>), vm_Annotations := vm_Annotations stored\<rparr>"
    using patchVMChanges_roundtrip [OF vm(1) sample_vm_Template vm(2,3)] by auto
  from arg_cong [OF r(3), of vm_Template]
  have "vm_Template stored = Some (sample_template\<lparr>Interfaces := [?i]\<rparr>)" by simp
  with r(1,2) show ?thesis by blast
qed

lemma Handle_vm_answers:
  assumes "pool_ok p" "\<And>ns n previous. get ns n = Inr previous \<Longrightarrow> vm_Template previous \<noteq> None"
  shows "\<exists>resp p'. Handle_vm ord format now get req p = Ret (resp, p') \<and>
     (case areq_Object req of
        Inl _ \<Rightarrow> \<not> resp_Allowed resp \<and> p' = p
      | Inr vm \<Rightarrow> framed (VmNamespaced (prepared_vm req vm)) (is_not_dry_run req) p p' \<and>
          apply_patch apply_op_vm (resp_Patches resp) vm \<noteq> None) \<and>
     (\<not> resp_Allowed resp \<longrightarrow> resp_Patches resp = [])"
proof (cases "areq_Object req")
  case (Inl err)
  then show ?thesis by (simp add: Handle_vm_def)
next
  case (Inr vm)
  let ?vm = "prepared_vm req vm" and ?nd = "is_not_dry_run req"
  show ?thesis
  proof (cases "vm_Template vm")
    case None
    with Inr assms(1) show ?thesis by (simp add: Handle_vm_def Let_def prepared_vm_facts)
  next
    case (Some t)
    obtain a where a: "vm_Annotations ?vm = Some a" using prepared_vm_facts(1) by blast
    have t: "vm_Template ?vm = Some t" by (simp add: prepared_vm_facts Some)
    have patch: "\<exists>ops. patchVMChanges vm vm' = Ret (patched ops) \<and> apply_patch apply_op_vm ops vm \<noteq> None"
      if "mac_variant ?vm vm'" for vm'
      using patchVMChanges_variant that by simp
    have self: "mac_variant ?vm ?vm" unfolding mac_variant_refl t by simp
    from mutateCreate_handled [OF a t assms(1), of ?nd ord format now get] obtain e1 vm1 p1 where c:
      "mutateCreateVirtualMachinesFn ord format now get ?vm ?nd p = Ret (e1, vm1, p1)"
      "framed (VmNamespaced ?vm) ?nd p p1" "mac_variant ?vm vm1"
      unfolding handled_def by blast
    from mutateUpdate_handled [OF a t assms(1), of get ?nd ord format now] assms(2) obtain e2 vm2 p2 where u:
      "mutateUpdateVirtualMachinesFn ord format now get ?vm ?nd p = Ret (e2, vm2, p2)"
      "framed (VmNamespaced ?vm) ?nd p p2" "mac_variant ?vm vm2"
      unfolding handled_def by blast
    obtain ops ops1 ops2 where "patchVMChanges vm ?vm = Ret (patched ops)" "apply_patch apply_op_vm ops vm \<noteq> None"
        "patchVMChanges vm vm1 = Ret (patched ops1)" "apply_patch apply_op_vm ops1 vm \<noteq> None"
        "patchVMChanges vm vm2 = Ret (patched ops2)" "apply_patch apply_op_vm ops2 vm \<noteq> None"
      using patch [OF self] patch [OF c(3)] patch [OF u(3)] by blast
    then show ?thesis
      using Inr t assms(1) c(1,2) u(1,2)
      by (cases "areq_Operation req"; cases e1; cases e2) (simp_all add: Handle_vm_def Let_def)
  qed
qed

text \<open>C16: The handler of virtual machines always answers, on any request, when the stored machines have a
  template. It touches at most the entries of the machine of the request, keeps the pool well formed, and in
  a dry run leaves the pool map alone. A refusal has no patch, and the patch of an admitted request
  applies to the object of the request.\<close>

theorem Handle_vm_safe:
  assumes "pool_ok p" "\<And>ns n previous. get ns n = Inr previous \<Longrightarrow> vm_Template previous \<noteq> None"
  shows "\<exists>resp p'. Handle_vm ord format now get req p = Ret (resp, p') \<and>
     (case areq_Object req of
        Inl _ \<Rightarrow> \<not> resp_Allowed resp \<and> p' = p
      | Inr vm \<Rightarrow> framed (VmNamespaced (prepared_vm req vm)) (is_not_dry_run req) p p' \<and>
          apply_patch apply_op_vm (resp_Patches resp) vm \<noteq> None) \<and>
     (\<not> resp_Allowed resp \<longrightarrow> resp_Patches resp = [])"
  using assms by (rule Handle_vm_answers)

definition sample_creation_request :: "virtual_machine admission_request" where
  "sample_creation_request = \<lparr>areq_Operation = Create, areq_Namespace = ''default'', areq_DryRun = None,
     areq_Object = Inr sample_vm\<rparr>"

lemma sample_request_facts:
  "prepared_vm sample_creation_request sample_vm = sample_vm" "vm_Annotations sample_vm = Some []"
  "\<not> vm_DeletionTimestamp sample_vm" "Interfaces sample_template = [sample_iface]" "Networks sample_template \<noteq> []"
  by (simp_all add: prepared_vm_def sample_vm_def sample_template_def)

lemma sample_admission:
  assumes "mac_free m [2, 0, 0, 0, 0, 7]"
  shows "\<exists>ops p' stored. Handle_vm (\<lambda>xs. xs) (\<lambda>_. ''t'') 5 (\<lambda>_ _. Inl NotFound) sample_creation_request (sample_with b m g) =
      Ret (patched ops, p') \<and> apply_patch apply_op_vm ops sample_vm = Some stored \<and>
    vm_Template stored = Some (sample_template\<lparr>Interfaces := [sample_iface\<lparr>iface_MacAddress := ''02:00:00:00:00:07''\<rparr>]\<rparr>)"
proof -
  let ?ifaces = "[sample_iface\<lparr>iface_MacAddress := ''02:00:00:00:00:07''\<rparr>]"
  let ?vm = "sample_vm\<lparr>vm_Annotations := Some [(TransactionTimestampAnnotation, ''t'')]\<rparr>"
  obtain p' where "AllocateVirtualMachineMac (\<lambda>xs. xs) ?vm (Some 5) True (sample_with b m g) = Ret (None, set_interfaces ?ifaces ?vm, p')"
    using sample_creation [OF assms] by blast
  moreover obtain ops stored where patch: "patchVMChanges sample_vm (set_interfaces ?ifaces ?vm) = Ret (patched ops)"
      "apply_patch apply_op_vm ops sample_vm = Some stored"
      "stored = sample_vm\<lparr>vm_Template := Some (sample_template\<lparr>Interfaces := ?ifaces\<rparr>), vm_Annotations := vm_Annotations stored\<rparr>"
    using patchVMChanges_apply [of "set_interfaces ?ifaces ?vm" sample_vm sample_template "sample_template\<lparr>Interfaces := ?ifaces\<rparr>"]
      sample_request_facts by (auto simp: set_interfaces_def same_but_mac_def)
  moreover have "vm_Template stored = Some (sample_template\<lparr>Interfaces := ?ifaces\<rparr>)"
    using arg_cong [OF patch(3), of vm_Template] by simp
  ultimately show ?thesis
    using sample_request_facts unfolding sample_creation_request_def
    by (intro exI [of _ ops] exI [of _ p'] exI [of _ stored])
       (simp add: Handle_vm_def Let_def is_not_dry_run_def mutateCreateVirtualMachinesFn_def
          SetTransactionTimestampAnnotationToVm_def IsVirtualMachineDeletionInProgress_def)
qed

theorem Handle_vm_safe_witness:
  "\<exists>resp p'. Handle_vm rev (\<lambda>_. ''t'') 5 (\<lambda>_ _. Inl NotFound) sample_creation_request sample_pool = Ret (resp, p') \<and>
     apply_patch apply_op_vm (resp_Patches resp) sample_vm \<noteq> None"
  using Handle_vm_safe [OF sample_pool_pool_ok, of "\<lambda>_ _. Inl NotFound" rev "\<lambda>_. ''t''" 5 sample_creation_request]
  by (auto simp: sample_creation_request_def)

text \<open>What the API server stores when the handler has stamped the machine and set its interfaces.\<close>

lemma patchVMChanges_stores:
  assumes "vm_Template vm = Some t" "\<not> vm_DeletionTimestamp vm" "stamp \<noteq> []"
    and vm1: "vm1 = (prepared_vm req vm)\<lparr>vm_Annotations := Some (AList.update TransactionTimestampAnnotation (stamp) a)\<rparr>"
    and "only_macs vm1 (set_interfaces ifaces vm1)"
  shows "\<exists>ops stored. patchVMChanges vm (set_interfaces ifaces vm1) = Ret (patched ops) \<and>
     apply_patch apply_op_vm ops vm = Some stored \<and> vm_Template stored = Some (t\<lparr>Interfaces := ifaces\<rparr>) \<and>
     lookup_nil (vm_Annotations stored) TransactionTimestampAnnotation = Some (stamp)"
proof -
  let ?vm = "set_interfaces ifaces vm1"
  have t: "vm_Template vm1 = Some t" by (simp add: vm1 prepared_vm_facts assms(1))
  have shape: "list_all2 same_but_mac (Interfaces t) (Interfaces (t\<lparr>Interfaces := ifaces\<rparr>))"
    using only_macs_variant [OF assms(5)] t by (fastforce simp: mac_variant_def set_interfaces_def)
  have cur: "\<not> vm_DeletionTimestamp ?vm" "vm_Template ?vm = Some (t\<lparr>Interfaces := ifaces\<rparr>)"
    "lookup_nil (vm_Annotations ?vm) TransactionTimestampAnnotation = Some (stamp)"
    using t assms(2) by (simp_all add: set_interfaces_def vm1 prepared_vm_facts lookup_nil_def update_conv')
  obtain ops stored where "patchVMChanges vm ?vm = Ret (patched ops)" "apply_patch apply_op_vm ops vm = Some stored"
      "stored = vm\<lparr>vm_Template := Some (t\<lparr>Interfaces := ifaces\<rparr>), vm_Annotations := vm_Annotations stored\<rparr>"
      "lookup_nil (vm_Annotations stored) TransactionTimestampAnnotation = patched_annotation vm ?vm TransactionTimestampAnnotation"
    using patchVMChanges_apply [OF cur(1) assms(1) cur(2) shape] by auto
  moreover from arg_cong [OF this(3), of vm_Template] have "vm_Template stored = Some (t\<lparr>Interfaces := ifaces\<rparr>)" by simp
  ultimately show ?thesis using assms(3) cur(3) by (auto simp: patched_annotation_def)
qed

text \<open>What the API server stores is what the pool holds. When a creation with interfaces and networks is
  admitted outside a dry run, applying the answer to the object of the request gives a machine with the
  timestamp of the transaction in its annotation and with all its supported interfaces served; the pool holds
  exactly these addresses for it, next to what it held, and their entries carry that same timestamp.\<close>

lemma Handle_vm_creates:
  assumes "areq_Object req = Inr vm" "areq_Operation req = Create" "is_not_dry_run req"
    and "vm_Template vm = Some t" "Interfaces t \<noteq> []" "Networks t \<noteq> []" "\<not> vm_DeletionTimestamp vm"
    and "get (vm_Namespace (prepared_vm req vm)) (vm_Name vm) = Inl NotFound"
    and "pool_ok p" "range_order ord" "format now \<noteq> []"
    and "Handle_vm ord format now get req p = Ret (resp, p')" "resp_Allowed resp"
  shows "\<exists>stored ifaces. apply_patch apply_op_vm (resp_Patches resp) vm = Some stored \<and>
     vm_Template stored = Some (t\<lparr>Interfaces := ifaces\<rparr>) \<and>
     lookup_nil (vm_Annotations stored) TransactionTimestampAnnotation = Some (format now) \<and>
     created (prepared_vm req vm) t (Some now) p ifaces p'"
proof -
  obtain a where a: "vm_Annotations (prepared_vm req vm) = Some a" using prepared_vm_facts(1) by blast
  define vm1 where "vm1 = (prepared_vm req vm)\<lparr>vm_Annotations :=
      Some (AList.update TransactionTimestampAnnotation (format now) a)\<rparr>"
  have t: "vm_Template vm1 = Some t" by (simp add: vm1_def prepared_vm_facts assms(4))
  have vm1: "SetTransactionTimestampAnnotationToVm format (prepared_vm req vm) now = Ret vm1"
    "get (vm_Namespace vm1) (vm_Name vm1) = Inl NotFound" "\<not> IsVirtualMachineDeletionInProgress vm1"
    using a assms(7,8)
    by (simp_all add: vm1_def SetTransactionTimestampAnnotationToVm_def IsVirtualMachineDeletionInProgress_def
          prepared_vm_facts)
  obtain e vm' q where alloc: "AllocateVirtualMachineMac ord vm1 (Some now) True p = Ret (e, vm', q)"
    using AllocateVirtualMachineMac_framed [OF t assms(9)] by blast
  have handle: "Handle_vm ord format now get req p = (case e of
      Some err \<Rightarrow> Ret (Errored 500 (ErrWrap ''Failed to create virtual machine allocation error''
        (ErrWrap ''Failed to allocate mac to the vm object'' err)), q)
    | None \<Rightarrow> bind_run (patchVMChanges vm vm') (\<lambda>resp. Ret (resp, q)))"
    using assms(1-4) vm1 alloc
    by (simp add: Handle_vm_def Let_def mutateCreateVirtualMachinesFn_def prepared_vm_facts split: option.split)
  have none: "e = None" using handle assms(12,13) by (cases e) auto
  obtain ifaces where i: "vm' = set_interfaces ifaces vm1" "created vm1 t (Some now) p ifaces q"
    using AllocateVirtualMachineMac_creates [OF t assms(9,10,5,6) alloc [unfolded none]] by blast
  have "only_macs vm1 vm'" using AllocateVirtualMachineMac_only_macs [OF t assms(9) alloc] .
  with patchVMChanges_stores [OF assms(4,7,11) vm1_def, of ifaces] obtain ops stored where
    "patchVMChanges vm vm' = Ret (patched ops)" "apply_patch apply_op_vm ops vm = Some stored"
    "vm_Template stored = Some (t\<lparr>Interfaces := ifaces\<rparr>)"
    "lookup_nil (vm_Annotations stored) TransactionTimestampAnnotation = Some (format now)" by (auto simp: i(1))
  moreover have "created (prepared_vm req vm) t (Some now) p ifaces q"
    using i(2) by (simp add: created_def vm1_def)
  ultimately show ?thesis using handle assms(12) none by auto
qed

text \<open>An update that changes nothing is answered without a patch and leaves the pool alone: same
  specification and labels as the stored machine, and the same annotations but for the transaction
  timestamp, whatever the two timestamps are.\<close>

theorem Handle_vm_update_unchanged:
  assumes "areq_Object req = Inr vm" "areq_Operation req = Update" "vm_Annotations vm = Some a" "vm_Namespace vm \<noteq> []"
    and "get (vm_Namespace vm) (vm_Name vm) = Inr previous" "vm_Template vm \<noteq> None"
    and "vm_Template previous = vm_Template vm" "vm_SpecOther previous = vm_SpecOther vm"
    and "deep_equal_map (vm_Labels previous) (vm_Labels vm)"
    and "vm_Annotations previous = Some b"
      "set (AList.delete TransactionTimestampAnnotation b) = set (AList.delete TransactionTimestampAnnotation a)"
  shows "Handle_vm ord format now get req p = Ret (patched [], p)"
proof -
  obtain t where t: "vm_Template vm = Some t" using assms(6) by blast
  let ?vm = "getAnnotationsWithoutTransactionTimestamp vm"
  have prep: "prepared_vm req vm = vm" using assms(3,4) by (simp add: prepared_vm_def)
  have "isVirtualMachineChanged previous vm = (False, getAnnotationsWithoutTransactionTimestamp previous, ?vm)"
    using assms(3,7-11)
    by (simp add: isVirtualMachineChanged_def isVirtualMachineSpecChanged_def isVirtualMachineMetadataChanged_def
          deep_equal_map_def getAnnotationsWithoutTransactionTimestamp_def)
  then have "mutateUpdateVirtualMachinesFn ord format now get vm (is_not_dry_run req) p = Ret (None, ?vm, p)"
    using assms(5) by (simp add: mutateUpdateVirtualMachinesFn_def)
  moreover have "patch_interfaces i (xs @ ifaces) ifaces = Ret []" if "length xs = i" for i xs ifaces
    using that
  proof (induction ifaces arbitrary: i xs)
    case (Cons x ifaces)
    then show ?case using Cons.IH [of "xs @ [x]" "Suc i"] by (simp add: nth_append patchChange_def)
  qed simp
  from this [of "[]" 0] have "patchVMChanges vm ?vm = Ret (patched [])"
    using t assms(3)
    by (auto simp: patchVMChanges_def IsVirtualMachineDeletionInProgress_def getVirtualMachineInterfaces_def
          getAnnotationsWithoutTransactionTimestamp_def patch_timestamp_def lookup_nil_def delete_conv' Let_def)
  ultimately show ?thesis using assms(1,2) t prep by (simp add: Handle_vm_def Let_def)
qed

text \<open>The handler of pods, for any pod.\<close>

lemma Handle_pod_ends:
  assumes "areq_Object req = Inr pd" "pool_ok p" "\<not> null_network js pd"
  shows "\<exists>resp p'. Handle_pod k js ord req p = Ret (resp, p') \<and> pool_ok p' \<and> same_config p p' \<and>
     others (podNamespaced pd) (others (pod_owner pd) (macPoolMap p')) =
       others (podNamespaced pd) (others (pod_owner pd) (macPoolMap p)) \<and>
     stamped_entries (macPoolMap p') \<subseteq> stamped_entries (macPoolMap p)"
proof -
  define pd0 where "pd0 = (if pod_Annotations pd = None then pd\<lparr>pod_Annotations := Some []\<rparr> else pd)"
  have same: "podNamespaced pd0 = podNamespaced pd" "pod_owner pd0 = pod_owner pd"
    by (simp_all add: pd0_def podNamespaced_def pod_owner_def)
  have "\<not> null_network js pd0"
    using assms(3) by (auto simp: pd0_def null_network_def lookup_nil_def split: option.splits)
  from AllocatePodMac_ends [OF assms(2) this, of k ord "is_not_dry_run req"]
  obtain e pd' p' where r: "AllocatePodMac k js ord pd0 (is_not_dry_run req) p = Ret (e, pd', p')"
      "pool_ok p'" "same_config p p'"
      "others (podNamespaced pd) (others (pod_owner pd) (macPoolMap p')) =
         others (podNamespaced pd) (others (pod_owner pd) (macPoolMap p))"
    unfolding same by auto
  have "Handle_pod k js ord req p = Ret (case e of Some err \<Rightarrow> Errored 500 err | None \<Rightarrow> patchPodChanges pd pd', p')"
    using assms(1) r(1) by (simp add: Handle_pod_def pd0_def [symmetric] split: option.split)
  with r AllocatePodMac_stamps [OF r(1) assms(2)] show ?thesis by blast
qed

text \<open>The patch for a pod that got its addresses.\<close>

lemma patchPodChanges_stores:
  assumes "AllocatePodMac k js ord pd nd p = Ret (e, pd', p')" "pod_Annotations pd = Some a"
  shows "\<exists>stored. apply_patch apply_op_pod (resp_Patches (patchPodChanges pd pd')) pd = Some stored \<and>
     stored = pd'\<lparr>pod_Annotations := pod_Annotations stored\<rparr> \<and>
     lookup_nil (pod_Annotations stored) = lookup_nil (pod_Annotations pd')"
proof -
  consider "pd' = pd" | v w where "pd' = set_pod_networks w pd" "map_of a NetworkAttachmentAnnot = Some v"
    using AllocatePodMac_result [OF assms(1)] assms(2) by (auto simp: lookup_nil_def)
  then show ?thesis
  proof cases
    case 1
    then show ?thesis by (cases pd) (simp add: patchPodChanges_def)
  next
    case (2 v w)
    with assms(2) show ?thesis
      by (cases pd) (auto simp: patchPodChanges_def set_pod_networks_def lookup_nil_def update_conv' Let_def
          apply_op_pod_def NewOperation_def)
  qed
qed

text \<open>C36: The handler of pods, for a pod that has its name and annotations, fails to answer exactly when the
  network annotation has a null element. Otherwise it touches at most the entries of the pod. A refusal has no
  patch; the patch of an admitted pod applies to the pod of the request and gives exactly the pod with the
  addresses that the pool manager returned.\<close>

theorem Handle_pod_roundtrip:
  assumes "areq_Object req = Inr pd" "pod_Name pd \<noteq> []" "pool_ok p" "pod_Annotations pd = Some a"
  shows "if null_network js pd then Handle_pod k js ord req p = Panics
     else \<exists>resp p'. Handle_pod k js ord req p = Ret (resp, p') \<and> framed (podNamespaced pd) (is_not_dry_run req) p p' \<and>
       (if resp_Allowed resp
        then \<exists>pd'. AllocatePodMac k js ord pd (is_not_dry_run req) p = Ret (None, pd', p') \<and>
               (\<exists>stored. apply_patch apply_op_pod (resp_Patches resp) pd = Some stored \<and>
                  stored = pd'\<lparr>pod_Annotations := pod_Annotations stored\<rparr> \<and>
                  lookup_nil (pod_Annotations stored) = lookup_nil (pod_Annotations pd'))
        else resp_Patches resp = [])"
proof (cases "null_network js pd")
  case True
  then show ?thesis
    using AllocatePodMac_framed [OF assms(2,3), of js k ord "is_not_dry_run req"] assms(1,4)
    by (simp add: Handle_pod_def Let_def)
next
  case False
  obtain e pd' p' where r: "AllocatePodMac k js ord pd (is_not_dry_run req) p = Ret (e, pd', p')"
      "framed (podNamespaced pd) (is_not_dry_run req) p p'"
    using AllocatePodMac_framed [OF assms(2,3), of js k ord "is_not_dry_run req"] False by auto
  have handle: "Handle_pod k js ord req p =
      (case e of Some err \<Rightarrow> Ret (Errored 500 err, p') | None \<Rightarrow> Ret (patchPodChanges pd pd', p'))"
    using assms(1,4) r(1) by (simp add: Handle_pod_def Let_def split: option.split)
  show ?thesis
  proof (cases e)
    case (Some err)
    with handle r(2) False show ?thesis by simp
  next
    case None
    note patchPodChanges_stores [OF r(1) assms(4)]
    with handle r None False show ?thesis by (auto simp: patchPodChanges_def Let_def)
  qed
qed

theorem Handle_pod_roundtrip_witness:
  "\<exists>resp p'. Handle_pod managed_kube sample_codec rev \<lparr>areq_Operation = Create, areq_Namespace = ''default'',
       areq_DryRun = Some True, areq_Object = Inr sample_pod\<rparr> sample_pool = Ret (resp, p') \<and>
     framed (podNamespaced sample_pod) False sample_pool p'"
  using Handle_pod_roundtrip [of "\<lparr>areq_Operation = Create, areq_Namespace = ''default'',
       areq_DryRun = Some True, areq_Object = Inr sample_pod\<rparr>" sample_pod sample_pool
       "[(NetworkAttachmentAnnot, ''[{}]'')]" sample_codec managed_kube rev]
    sample_pod_named sample_pod_no_null sample_pool_pool_ok
  by (auto simp: is_not_dry_run_def) (auto simp: sample_pod_def)

end
