(* ===== verification/ConfigMap.thy ===== *)
theory ConfigMap
  imports VmPool
begin

section \<open>The range ConfigMap: \<open>pkg/controller/configmap\<close>\<close>

text \<open>
  A ConfigMap holds the two ends of the range; the controller hands a changed one to the pool
  manager while it is running. The reconciler sees the pool manager through a Go interface of two
  methods, \<open>GetCurrentRanges\<close> and \<open>UpdateRanges\<close>: they are arguments of the definitions here, over
  any type of state, and the locale \<open>range_manager\<close> has what the reconciler relies on. The pool
  manager of \<open>pool.go\<close> is an instance of it.

  Shown: a reconciliation brings the range of the pool manager to the one of the ConfigMap or leaves
  the whole state alone and reports an error; repeating it changes nothing.
\<close>

type_synonym configmap = string_map

record range_config =
  Start_mac :: hwaddr
  End_mac :: hwaddr

record configmap_client =
  get_configmap :: "request \<Rightarrow> api_error + configmap"
  list_manager_pods :: "api_error + pod list"
  has_recorder :: bool

text \<open>An event: the pod it is recorded on and its reason.\<close>

type_synonym pod_event = "pod \<times> string"

definition newRangeConfig :: "hwaddr \<Rightarrow> hwaddr \<Rightarrow> range_config" where
  "newRangeConfig start end_mac = \<lparr>Start_mac = start, End_mac = end_mac\<rparr>"

definition extractRangesFromConfigMap :: "configmap \<Rightarrow> go_error + range_config" where
  "extractRangesFromConfigMap cm = (case map_of cm ''RANGE_START'' of
     None \<Rightarrow> Inl (ErrRangeKey ''RANGE_START'')
   | Some startStr \<Rightarrow>
       (case map_of cm ''RANGE_END'' of
          None \<Rightarrow> Inl (ErrRangeKey ''RANGE_END'')
        | Some endStr \<Rightarrow>
            (case ParseMAC startStr of
               Inl err \<Rightarrow> Inl (ErrWrap ''invalid RANGE_START'' err)
             | Inr start \<Rightarrow>
                 (case ParseMAC endStr of
                    Inl err \<Rightarrow> Inl (ErrWrap ''invalid RANGE_END'' err)
                  | Inr end_mac \<Rightarrow> Inr (newRangeConfig start end_mac)))))"

definition getManagerPod :: "configmap_client \<Rightarrow> go_error + pod" where
  "getManagerPod c = (case list_manager_pods c of
     Inl e \<Rightarrow> Inl (ErrWrap ''failed to list kubemacpool pods'' (ErrApi e))
   | Inr pods \<Rightarrow>
       (case pods of
          [] \<Rightarrow> Inl ErrNoManagerPods
        | first # _ \<Rightarrow>
            (case find (\<lambda>pd. pod_Phase pd = ''Running'') pods of Some pd \<Rightarrow> Inr pd | None \<Rightarrow> Inr first)))"

definition recordEvent :: "configmap_client \<Rightarrow> string \<Rightarrow> pod_event list" where
  "recordEvent c reason =
     (if has_recorder c then case getManagerPod c of Inl _ \<Rightarrow> [] | Inr managerPod \<Rightarrow> [(managerPod, reason)] else [])"

definition Reconcile_configmap ::
    "('s \<Rightarrow> string \<times> string) \<Rightarrow> (hwaddr \<Rightarrow> hwaddr \<Rightarrow> 's \<Rightarrow> (go_error option \<times> 's) run) \<Rightarrow> configmap_client \<Rightarrow>
     request \<Rightarrow> 's \<Rightarrow> (go_error option \<times> pod_event list \<times> 's) run" where
  "Reconcile_configmap current_ranges update_ranges c req s = (case get_configmap c req of
     Inl e \<Rightarrow> if IsNotFound (ErrApi e) then Ret (None, [], s) else Ret (Some (ErrApi e), [], s)
   | Inr configMap \<Rightarrow>
       (case extractRangesFromConfigMap configMap of
          Inl err \<Rightarrow> Ret (Some (ErrWrap ''invalid ConfigMap data'' err), recordEvent c ''InvalidRange'', s)
        | Inr rangeConfig \<Rightarrow>
            (let (currentStart, currentEnd) = current_ranges s in
             if hw_String (Start_mac rangeConfig) = currentStart \<and> hw_String (End_mac rangeConfig) = currentEnd
             then Ret (None, [], s)
             else bind_run (update_ranges (Start_mac rangeConfig) (End_mac rangeConfig) s) (\<lambda>(e, s').
                    case e of
                      Some err \<Rightarrow> Ret (Some (ErrWrap ''failed to apply new ranges'' err), recordEvent c ''UpdateFailed'', s')
                    | None \<Rightarrow> Ret (None, [], s')))))"

subsection \<open>What the reconciler relies on\<close>

locale range_manager =
  fixes current_ranges :: "'s \<Rightarrow> string \<times> string"
    and update_ranges :: "hwaddr \<Rightarrow> hwaddr \<Rightarrow> 's \<Rightarrow> (go_error option \<times> 's) run"
  assumes update_returns: "hw_length_ok a \<Longrightarrow> hw_length_ok b \<Longrightarrow> \<exists>e s'. update_ranges a b s = Ret (e, s')"
    and update_installs: "update_ranges a b s = Ret (None, s') \<Longrightarrow> current_ranges s' = (hw_String a, hw_String b)"
    and update_refuses: "update_ranges a b s = Ret (Some err, s') \<Longrightarrow> s' = s"
begin

abbreviation reconcile where
  "reconcile \<equiv> Reconcile_configmap current_ranges update_ranges"

lemma reconcile_outcome:
  assumes "get_configmap c req = Inr cm"
  shows "\<exists>e ev s'. reconcile c req s = Ret (e, ev, s') \<and>
     (if e = None then ev = [] \<and> (\<exists>rc. extractRangesFromConfigMap cm = Inr rc \<and>
        current_ranges s' = (hw_String (Start_mac rc), hw_String (End_mac rc))) else s' = s)"
proof (cases "extractRangesFromConfigMap cm")
  case (Inl err)
  with assms show ?thesis by (simp add: Reconcile_configmap_def)
next
  case (Inr rc)
  then have "hw_length_ok (Start_mac rc)" "hw_length_ok (End_mac rc)"
    by (auto simp: extractRangesFromConfigMap_def newRangeConfig_def split: option.splits sum.splits
          dest: ParseMAC_length_ok)
  then obtain e s' where u: "update_ranges (Start_mac rc) (End_mac rc) s = Ret (e, s')"
    using update_returns by blast
  show ?thesis
  proof (cases e)
    case None
    with u assms Inr show ?thesis
      using update_installs by (cases "current_ranges s") (auto simp: Reconcile_configmap_def)
  next
    case (Some err)
    with u assms Inr show ?thesis
      using update_refuses by (cases "current_ranges s") (auto simp: Reconcile_configmap_def)
  qed
qed

lemma reconcile_again:
  assumes "reconcile c req s = Ret (None, ev, s')"
  shows "reconcile c req s' = Ret (None, [], s')"
proof (cases "get_configmap c req")
  case (Inl err)
  with assms show ?thesis by (auto simp: Reconcile_configmap_def split: if_splits)
next
  case (Inr cm)
  with reconcile_outcome [OF this, of s] assms show ?thesis by (auto simp: Reconcile_configmap_def)
qed

end

subsection \<open>The pool manager is such a manager\<close>

lemma UpdateRanges_returns:
  assumes "6 \<le> length a" "6 \<le> length b"
  shows "\<exists>e p'. UpdateRanges rnd a b p = Ret (e, p')"
proof -
  have ne: "a \<noteq> []" "b \<noteq> []" using assms by auto
  have "\<exists>r. GetMacPoolSize a b = Ret r"
    using assms by (simp add: GetMacPoolSize_def checkRange_eq split: sum.split)
  then obtain r where size: "GetMacPoolSize a b = Ret r" by blast
  then have "\<exists>r. generateRandomMac rnd a b = Ret r"
    by (auto simp: generateRandomMac_def Let_def split: sum.split)
  then obtain r' where "generateRandomMac rnd a b = Ret r'" by blast
  then show ?thesis
    using assms ne by (auto simp: UpdateRanges_def checkRange_eq checkCast_eq Let_def split: sum.split)
qed

interpretation pool_ranges: range_manager GetCurrentRanges "UpdateRanges rnd" for rnd
proof
  fix a b s assume "hw_length_ok a" "hw_length_ok b"
  then show "\<exists>e s'. UpdateRanges rnd a b s = Ret (e, s')"
    by (intro UpdateRanges_returns) (auto simp: hw_length_ok_iff)
next
  fix a b s s' assume "UpdateRanges rnd a b s = Ret (None, s')"
  then show "GetCurrentRanges s' = (hw_String a, hw_String b)"
    by (auto simp: UpdateRanges_def GetCurrentRanges_def Let_def split: bind_run_splits sum.splits)
qed (rule UpdateRanges_Some)

text \<open>With ranges of six bytes the pool stays well formed, and only the range and the current address change.\<close>

definition six_byte_ranges :: "configmap_client \<Rightarrow> request \<Rightarrow> bool" where
  "six_byte_ranges c req \<longleftrightarrow> (\<forall>cm rc. get_configmap c req = Inr cm \<longrightarrow> extractRangesFromConfigMap cm = Inr rc \<longrightarrow>
     length (Start_mac rc) = 6 \<and> length (End_mac rc) = 6)"

lemma UpdateRanges_keeps:
  assumes "length a = 6" "length b = 6" "rand_Int_ok rnd" "pool_ok p"
  shows "\<exists>e s t c. UpdateRanges rnd a b p = Ret (e, p\<lparr>rangeStart := s, rangeEnd := t, currentMac := c\<rparr>) \<and>
     pool_ok (p\<lparr>rangeStart := s, rangeEnd := t, currentMac := c\<rparr>)"
proof (cases "range_acceptable rnd a b")
  case True
  obtain c where "UpdateRanges rnd a b p = Ret (None, p\<lparr>rangeStart := a, rangeEnd := b, currentMac := c\<rparr>)"
      "range_ok (p\<lparr>rangeStart := a, rangeEnd := b, currentMac := c\<rparr>)"
    using assms(1-3) True by (rule UpdateRanges_accepts)
  with assms(4) show ?thesis
    by (intro exI [of _ None] exI [of _ a] exI [of _ b] exI [of _ c]) (simp add: pool_ok_def)
next
  case False
  then obtain err where "UpdateRanges rnd a b p = Ret (Some err, p)" using UpdateRanges_refuses assms(1,2) by blast
  with assms(4) show ?thesis
    by (intro exI [of _ "Some err"] exI [of _ "rangeStart p"] exI [of _ "rangeEnd p"] exI [of _ "currentMac p"]) simp
qed

lemma Reconcile_configmap_keeps:
  assumes "six_byte_ranges c req" "rand_Int_ok rnd" "pool_ok p"
  shows "\<exists>e ev s t x. Reconcile_configmap GetCurrentRanges (UpdateRanges rnd) c req p =
       Ret (e, ev, p\<lparr>rangeStart := s, rangeEnd := t, currentMac := x\<rparr>) \<and>
     pool_ok (p\<lparr>rangeStart := s, rangeEnd := t, currentMac := x\<rparr>)"
proof -
  have same: ?thesis if "Reconcile_configmap GetCurrentRanges (UpdateRanges rnd) c req p = Ret (e, ev, p)" for e ev
    using that assms(3)
    by (intro exI [of _ e] exI [of _ ev] exI [of _ "rangeStart p"] exI [of _ "rangeEnd p"] exI [of _ "currentMac p"]) simp
  show ?thesis
  proof (cases "\<exists>cm rc. get_configmap c req = Inr cm \<and> extractRangesFromConfigMap cm = Inr rc")
    case False
    have "\<exists>e ev. Reconcile_configmap GetCurrentRanges (UpdateRanges rnd) c req p = Ret (e, ev, p)"
      using False by (auto simp: Reconcile_configmap_def split: sum.split)
    with same show ?thesis by blast
  next
    case True
    then obtain cm rc where rc: "get_configmap c req = Inr cm" "extractRangesFromConfigMap cm = Inr rc" by blast
    with assms(1) have "length (Start_mac rc) = 6" "length (End_mac rc) = 6" by (auto simp: six_byte_ranges_def)
    from UpdateRanges_keeps [OF this assms(2,3)] obtain e s t x where
      "UpdateRanges rnd (Start_mac rc) (End_mac rc) p = Ret (e, p\<lparr>rangeStart := s, rangeEnd := t, currentMac := x\<rparr>)"
      "pool_ok (p\<lparr>rangeStart := s, rangeEnd := t, currentMac := x\<rparr>)" by blast
    with rc same show ?thesis
      by (cases "GetCurrentRanges p = (hw_String (Start_mac rc), hw_String (End_mac rc))"; cases e)
         (auto simp: Reconcile_configmap_def split: prod.splits)
  qed
qed

subsection \<open>Properties\<close>

text \<open>C37: A reconciliation of the ConfigMap always returns. Without an error the pool manager then has the range
  the ConfigMap names, and reconciling once more changes nothing; with an error the pool manager is exactly
  as before. A ConfigMap that is gone changes nothing either.\<close>

theorem Reconcile_configmap_converges:
  "\<exists>e ev p'. Reconcile_configmap GetCurrentRanges (UpdateRanges rnd) c req p = Ret (e, ev, p') \<and>
     (case (e, get_configmap c req) of
        (None, Inr cm) \<Rightarrow>
          (\<exists>rc. extractRangesFromConfigMap cm = Inr rc \<and>
             GetCurrentRanges p' = (hw_String (Start_mac rc), hw_String (End_mac rc))) \<and>
          Reconcile_configmap GetCurrentRanges (UpdateRanges rnd) c req p' = Ret (None, [], p')
      | (None, Inl err) \<Rightarrow> err = NotFound \<and> p' = p
      | (Some _, _) \<Rightarrow> p' = p)"
proof (cases "get_configmap c req")
  case (Inl err)
  then show ?thesis by (cases err) (simp_all add: Reconcile_configmap_def)
next
  case (Inr cm)
  obtain e ev p' where r: "Reconcile_configmap GetCurrentRanges (UpdateRanges rnd) c req p = Ret (e, ev, p')"
    "if e = None then ev = [] \<and> (\<exists>rc. extractRangesFromConfigMap cm = Inr rc \<and>
        GetCurrentRanges p' = (hw_String (Start_mac rc), hw_String (End_mac rc))) else p' = p"
    using pool_ranges.reconcile_outcome [OF Inr] by blast
  show ?thesis
  proof (cases e)
    case None
    with r pool_ranges.reconcile_again [of rnd c req p ev p'] Inr show ?thesis by auto
  qed (use r Inr in auto)
qed

end
