(* ===== verification/System.thy ===== *)
theory System
  imports Startup Heal CollisionReconcilers Controllers Webhooks ConfigMap
begin

section \<open>The running program\<close>

text \<open>
  The handlers of the program run against one pool manager, one at a time: each takes the mutex of
  the pool for its whole work on the map. (The ConfigMap controller takes the mutex of the range only. It may change the range between two
  draws of one allocation, which is not seen here.) A run is a sequence of events, each the call of one handler
  with an environment of its own: what the API server answers, the order of the map iterations, the
  time, the random numbers.

  Shown: every handler returns from every state the program can reach and keeps the invariant of the
  whole state; an event that does not concern an object leaves its entries alone, so that an address
  an object holds is not handed out to another one; and the life of a virtual machine from the
  admission of its creation to the commit of what was stored.
\<close>

subsection \<open>Events\<close>

record world =
  w_kube :: kube
  w_codec :: codec
  w_ord :: "(string \<times> string) list \<Rightarrow> (string \<times> string) list"
  w_align_ord :: "(string \<times> virtual_machine list) list \<Rightarrow> (string \<times> virtual_machine list) list"
  w_key_ord :: "macKey set \<Rightarrow> macKey list"
  w_set_ord :: "string set \<Rightarrow> string list"
  w_format :: "time \<Rightarrow> string"
  w_parse :: "string \<Rightarrow> go_error + time"
  w_now :: time
  w_rand :: "int \<Rightarrow> go_error + int"
  w_vms :: vm_client
  w_pods :: "request \<Rightarrow> api_error + pod"
  w_objects :: collision_client
  w_configmaps :: configmap_client

datatype event =
    AdmitVm "virtual_machine admission_request"
  | AdmitPod "pod admission_request"
  | ReconcileVm request
  | ReconcilePod request
  | HealStale
  | ReconcileConfigMap request
  | ReconcileVmi request
  | ReconcilePodCollision request

text \<open>The pool manager after the handler of an event; the answer of the handler is dropped.\<close>

fun exec :: "world \<Rightarrow> event \<Rightarrow> pool_manager \<Rightarrow> pool_manager run" where
  "exec w (AdmitVm req) p =
     bind_run (Handle_vm (w_ord w) (w_format w) (w_now w) (get_vm (w_kube w)) req p) (\<lambda>(_, p'). Ret p')"
| "exec w (AdmitPod req) p =
     bind_run (Handle_pod (w_kube w) (w_codec w) (w_ord w) req p) (\<lambda>(_, p'). Ret p')"
| "exec w (ReconcileVm req) p =
     bind_run (Reconcile_vm (w_kube w) (w_parse w) (w_key_ord w) (w_vms w) req p) (\<lambda>(_, _, p'). Ret p')"
| "exec w (ReconcilePod req) p =
     bind_run (Reconcile_pod (w_kube w) (w_codec w) (w_ord w) (w_pods w) req p) (\<lambda>(_, p'). Ret p')"
| "exec w HealStale p =
     bind_run (healStaleMacEntries (w_kube w) (w_key_ord w) (w_ord w) (w_align_ord w) (w_now w) p) (\<lambda>(_, p'). Ret p')"
| "exec w (ReconcileConfigMap req) p =
     bind_run (Reconcile_configmap GetCurrentRanges (UpdateRanges (w_rand w)) (w_configmaps w) req p)
       (\<lambda>(_, _, p'). Ret p')"
| "exec w (ReconcileVmi req) p =
     bind_run (Reconcile_vmi (w_kube w) (w_set_ord w) (w_objects w) req p) (\<lambda>(_, _, p'). Ret p')"
| "exec w (ReconcilePodCollision req) p =
     bind_run (Reconcile_pod_collision (w_kube w) (w_set_ord w) (w_objects w) req p) (\<lambda>(_, _, p'). Ret p')"

text \<open>
  What the environment promises: Go's map iterations and \<open>crypto/rand\<close>, and of the API server that a
  read object has the name asked for and a virtual machine its template.
\<close>

definition world_ok :: "world \<Rightarrow> bool" where
  "world_ok w \<longleftrightarrow> kube_vm_ok (w_kube w) \<and> range_order (w_ord w) \<and> range_order (w_align_ord w) \<and>
     key_order (w_key_ord w) \<and> set_order (w_set_ord w) \<and> rand_Int_ok (w_rand w) \<and>
     (\<forall>req vm. read_vm (w_vms w) req = Inr vm \<longrightarrow> vm_Template vm \<noteq> None \<and>
        vm_Namespace vm = request_Namespace req \<and> vm_Name vm = request_Name req) \<and>
     (\<forall>req pd. w_pods w req = Inr pd \<longrightarrow>
        pod_Namespace pd = request_Namespace req \<and> pod_Name pd = request_Name req \<and> pod_Name pd \<noteq> [])"

text \<open>
  Names have no slash; the annotation of a pod lists no null element; the range of the ConfigMap has
  six bytes. Each of the last two is a case the code does not stand.
\<close>

fun event_ok :: "world \<Rightarrow> event \<Rightarrow> bool" where
  "event_ok w (AdmitVm req) \<longleftrightarrow> (\<forall>vm. areq_Object req = Inr vm \<longrightarrow>
     CHR ''/'' \<notin> set (vm_Namespace (prepared_vm req vm)) \<and> CHR ''/'' \<notin> set (vm_Name vm))"
| "event_ok w (AdmitPod req) \<longleftrightarrow> (\<forall>pd. areq_Object req = Inr pd \<longrightarrow> \<not> null_network (w_codec w) pd)"
| "event_ok w (ReconcilePod req) \<longleftrightarrow> (\<forall>pd. w_pods w req = Inr pd \<longrightarrow> \<not> null_network (w_codec w) pd)"
| "event_ok w (ReconcileConfigMap req) \<longleftrightarrow> six_byte_ranges (w_configmaps w) req"
| "event_ok w _ \<longleftrightarrow> True"

text \<open>
  The two parts of this. An event that reads a null element runs into a nil pointer, in \<open>parsePodNetworkAnnotation\<close> and so before it
  has changed anything, or does not come that far.
\<close>

fun input_ok :: "world \<Rightarrow> event \<Rightarrow> bool" where
  "input_ok w (AdmitVm req) \<longleftrightarrow> (\<forall>vm. areq_Object req = Inr vm \<longrightarrow>
     CHR ''/'' \<notin> set (vm_Namespace (prepared_vm req vm)) \<and> CHR ''/'' \<notin> set (vm_Name vm))"
| "input_ok w (ReconcileConfigMap req) \<longleftrightarrow> six_byte_ranges (w_configmaps w) req"
| "input_ok w _ \<longleftrightarrow> True"

fun reads_null :: "world \<Rightarrow> event \<Rightarrow> bool" where
  "reads_null w (AdmitPod req) \<longleftrightarrow> (\<exists>pd. areq_Object req = Inr pd \<and> null_network (w_codec w) pd)"
| "reads_null w (ReconcilePod req) \<longleftrightarrow> (\<exists>pd. w_pods w req = Inr pd \<and> null_network (w_codec w) pd)"
| "reads_null w _ \<longleftrightarrow> False"

lemma event_ok_iff: "event_ok w e \<longleftrightarrow> input_ok w e \<and> \<not> reads_null w e"
  by (cases e) auto

lemma null_network_annotated: "null_network js pd \<Longrightarrow> pod_Annotations pd \<noteq> None"
  by (cases "pod_Annotations pd") (simp_all add: null_network_def lookup_nil_def)

lemma AllocatePodMac_null: "null_network js pd \<Longrightarrow> AllocatePodMac k js ord pd isNotDryRun p = Panics"
  using pod_networks_returns [of js pd k] by (simp add: AllocatePodMac_eq)

lemma reads_null_exec:
  assumes "reads_null w e"
  shows "exec w e p = Panics \<or> exec w e p = Ret p"
proof (cases e)
  case (AdmitPod req)
  with assms obtain pd where pd: "areq_Object req = Inr pd" "null_network (w_codec w) pd" by auto
  then have "pod_Annotations pd \<noteq> None" by (simp add: null_network_annotated)
  with AdmitPod pd AllocatePodMac_null [OF pd(2)] show ?thesis by (auto simp: Handle_pod_def)
next
  case (ReconcilePod req)
  with assms obtain pd where pd: "w_pods w req = Inr pd" "null_network (w_codec w) pd" by auto
  then have "pod_Annotations pd \<noteq> None" by (simp add: null_network_annotated)
  with ReconcilePod pd AllocatePodMac_null [OF pd(2)] show ?thesis
    by (auto simp: Reconcile_pod_def split: sum.split)
qed (use assms in auto)

text \<open>
  The objects whose entries an event may touch: the object itself, for a release also the objects that
  share an address with it, and for healing the objects with a stale entry.
\<close>

definition shares :: "macMap \<Rightarrow> string \<Rightarrow> string \<Rightarrow> bool" where
  "shares m x owner \<longleftrightarrow> (\<exists>k j j'. (k, x, j) \<in> holders m \<and> (k, owner, j') \<in> holders m)"

definition pod_request_name :: "request \<Rightarrow> string" where
  "pod_request_name req = ''pod/'' @ request_Namespace req @ ''/'' @ request_Name req"

fun concerns :: "world \<Rightarrow> event \<Rightarrow> string \<Rightarrow> pool_manager \<Rightarrow> bool" where
  "concerns w (AdmitVm req) x p \<longleftrightarrow> (\<exists>vm. areq_Object req = Inr vm \<and> x = VmNamespaced (prepared_vm req vm))"
| "concerns w (AdmitPod req) x p \<longleftrightarrow> (\<exists>pd. areq_Object req = Inr pd \<and> x \<in> {pod_owner pd, podNamespaced pd})"
| "concerns w (ReconcileVm req) x p \<longleftrightarrow>
     x = VmNamespacedFromRequest req \<or> shares (macPoolMap p) x (VmNamespacedFromRequest req)"
| "concerns w (ReconcilePod req) x p \<longleftrightarrow> x = pod_request_name req \<or> shares (macPoolMap p) x (pod_request_name req)"
| "concerns w HealStale x p \<longleftrightarrow> (\<exists>k. stale_at (macPoolMap p) (w_now w) (waitTime p) k x)"
| "concerns w _ x p \<longleftrightarrow> False"

subsection \<open>The invariant\<close>

definition stamps_ok :: "macMap \<Rightarrow> bool" where
  "stamps_ok m \<longleftrightarrow> (\<forall>(k, e)\<in>stamped_entries m. vm_name (instanceName e))"

definition sys_ok :: "pool_manager \<Rightarrow> bool" where
  "sys_ok p \<longleftrightarrow> pool_ok p \<and> collisions_ok p \<and> stamps_ok (macPoolMap p)"

definition entries_kept :: "string \<Rightarrow> macMap \<Rightarrow> macMap \<Rightarrow> bool" where
  "entries_kept x m m' \<longleftrightarrow> (\<forall>k. entries_of m' k x = entries_of m k x)"

lemma stamps_ok_subset: "stamps_ok m \<Longrightarrow> stamped_entries m' \<subseteq> stamped_entries m \<Longrightarrow> stamps_ok m'"
  unfolding stamps_ok_def by blast

lemma stamps_ok_others:
  assumes "stamps_ok m" "others owner m' = others owner m" "vm_name owner"
  shows "stamps_ok m'"
  using assms(1,3) stamped_others [OF assms(2)] unfolding stamps_ok_def by (metis (mono_tags, lifting) case_prodD case_prodI2)

lemma collisions_ok_cong:
  "collidingObjectsPerMAC p' = collidingObjectsPerMAC p \<Longrightarrow> macCollisionMetric (pm_metrics p') = macCollisionMetric (pm_metrics p) \<Longrightarrow>
     collisions_ok p' = collisions_ok p"
  by (simp add: collisions_ok_def tracked_def)

lemma collisions_ok_same_config: "same_config p p' \<Longrightarrow> collisions_ok p' = collisions_ok p"
  unfolding same_config_def by (cases p; cases p') (simp add: collisions_ok_def tracked_def)

lemma sys_okI: "pool_ok p' \<Longrightarrow> same_config p p' \<Longrightarrow> stamps_ok (macPoolMap p') \<Longrightarrow> sys_ok p \<Longrightarrow> sys_ok p'"
  by (simp add: sys_ok_def collisions_ok_same_config)

lemma entries_kept_others: "others owner m' = others owner m \<Longrightarrow> x \<noteq> owner \<Longrightarrow> entries_kept x m m'"
  unfolding entries_kept_def by (blast intro: entries_of_others)

lemma entries_kept_others2:
  assumes "others a (others b m') = others a (others b m)" "x \<noteq> a" "x \<noteq> b"
  shows "entries_kept x m m'"
proof -
  have own: "entries_of (others b m) k x = entries_of m k x" for m k
    using assms(3) by (intro entries_of_others [of b]) (simp_all add: others_idem)
  have "entries_of (others b m') k x = entries_of (others b m) k x" for k
    using assms(1,2) by (rule entries_of_others)
  then show ?thesis by (simp add: own entries_kept_def)
qed

lemma entries_kept_released: "\<not> shares m x owner \<Longrightarrow> entries_kept x m (released m owner)"
  unfolding entries_kept_def
proof
  fix k assume "\<not> shares m x owner"
  then show "entries_of (released m owner) k x = entries_of m k x"
    using entries_of_Nil [of m k x] by (auto simp: shares_def released_def entries_of_def)
qed

lemma entries_kept_reconciled:
  "reconciled owner m m' \<Longrightarrow> x \<noteq> owner \<Longrightarrow> \<not> shares m x owner \<Longrightarrow> entries_kept x m m'"
  unfolding reconciled_def using entries_kept_released entries_kept_others by blast

subsection \<open>Every handler returns and keeps the invariant\<close>

definition handled_ok :: "world \<Rightarrow> event \<Rightarrow> pool_manager \<Rightarrow> bool" where
  "handled_ok w e p \<longleftrightarrow> (\<exists>p'. exec w e p = Ret p' \<and> sys_ok p' \<and> waitTime p' = waitTime p \<and> isPoolReady p' = isPoolReady p \<and> isKubevirt p' = isKubevirt p \<and>
     (\<forall>x. \<not> concerns w e x p \<longrightarrow> entries_kept x (macPoolMap p) (macPoolMap p')))"

lemma same_config_waitTime:
  "same_config p p' \<Longrightarrow> waitTime p' = waitTime p" "same_config p p' \<Longrightarrow> isPoolReady p' = isPoolReady p"
  "same_config p p' \<Longrightarrow> isKubevirt p' = isKubevirt p"
  unfolding same_config_def by (cases p; cases p'; simp)+

lemma AdmitVm_ok:
  assumes "sys_ok p" "world_ok w" "event_ok w (AdmitVm req)"
  shows "handled_ok w (AdmitVm req) p"
proof -
  have "\<exists>resp p'. Handle_vm (w_ord w) (w_format w) (w_now w) (get_vm (w_kube w)) req p = Ret (resp, p') \<and>
     (case areq_Object req of
        Inl _ \<Rightarrow> \<not> resp_Allowed resp \<and> p' = p
      | Inr vm \<Rightarrow> framed (VmNamespaced (prepared_vm req vm)) (is_not_dry_run req) p p' \<and>
          apply_patch apply_op_vm (resp_Patches resp) vm \<noteq> None) \<and>
     (\<not> resp_Allowed resp \<longrightarrow> resp_Patches resp = [])"
  proof (rule Handle_vm_answers)
    show "pool_ok p" using assms(1) by (simp add: sys_ok_def)
    show "\<And>ns n vm. get_vm (w_kube w) ns n = Inr vm \<Longrightarrow> vm_Template vm \<noteq> None"
      using assms(2) unfolding world_ok_def kube_vm_ok_def by blast
  qed
  then obtain resp p' where r: "Handle_vm (w_ord w) (w_format w) (w_now w) (get_vm (w_kube w)) req p = Ret (resp, p')"
    "case areq_Object req of Inl _ \<Rightarrow> p' = p
     | Inr vm \<Rightarrow> framed (VmNamespaced (prepared_vm req vm)) (is_not_dry_run req) p p'"
    by (cases "areq_Object req") auto
  have "sys_ok p' \<and> waitTime p' = waitTime p \<and> isPoolReady p' = isPoolReady p \<and> isKubevirt p' = isKubevirt p \<and>
      (\<forall>x. \<not> concerns w (AdmitVm req) x p \<longrightarrow> entries_kept x (macPoolMap p) (macPoolMap p'))"
  proof (cases "areq_Object req")
    case (Inl err)
    with r(2) assms(1) show ?thesis by (simp add: entries_kept_def)
  next
    case (Inr vm)
    let ?n = "VmNamespaced (prepared_vm req vm)"
    from Inr r(2) have f: "pool_ok p'" "same_config p p'" "others ?n (macPoolMap p') = others ?n (macPoolMap p)"
      by (simp_all add: framed_def)
    have "vm_name ?n"
      using assms(3) Inr by (auto simp: vm_name_def VmNamespaced_def prepared_vm_facts)
    with f(3) assms(1) have "stamps_ok (macPoolMap p')" by (auto simp: sys_ok_def intro: stamps_ok_others)
    with f assms(1) Inr show ?thesis
      by (auto simp: same_config_waitTime intro: sys_okI entries_kept_others)
  qed
  with r(1) show ?thesis by (simp add: handled_ok_def)
qed

lemma AdmitPod_ok:
  assumes "sys_ok p" "event_ok w (AdmitPod req)"
  shows "handled_ok w (AdmitPod req) p"
proof (cases "areq_Object req")
  case (Inl err)
  with assms(1) show ?thesis by (simp add: handled_ok_def Handle_pod_def entries_kept_def)
next
  case (Inr pd)
  with assms have "pool_ok p" "\<not> null_network (w_codec w) pd" by (auto simp: sys_ok_def)
  from Handle_pod_ends [OF Inr this, of "w_kube w" "w_ord w"]
  obtain resp p' where r: "Handle_pod (w_kube w) (w_codec w) (w_ord w) req p = Ret (resp, p')"
    "pool_ok p'" "same_config p p'" "stamped_entries (macPoolMap p') \<subseteq> stamped_entries (macPoolMap p)"
    "others (podNamespaced pd) (others (pod_owner pd) (macPoolMap p')) =
       others (podNamespaced pd) (others (pod_owner pd) (macPoolMap p))" by blast
  have "stamps_ok (macPoolMap p')" using assms(1) r(4) by (auto simp: sys_ok_def intro: stamps_ok_subset)
  with r assms(1) Inr show ?thesis
    by (auto simp: handled_ok_def same_config_waitTime intro: sys_okI entries_kept_others2)
qed

lemma reconcile_ok:
  assumes "sys_ok p" "exec w e p = Ret p'" "pool_ok p'" "same_config p p'" "reconciled owner (macPoolMap p) (macPoolMap p')"
    and "\<And>x. \<not> concerns w e x p \<Longrightarrow> x \<noteq> owner \<and> \<not> shares (macPoolMap p) x owner"
  shows "handled_ok w e p"
proof -
  have "stamps_ok (macPoolMap p')" using assms(1,5) by (auto simp: sys_ok_def reconciled_def intro: stamps_ok_subset)
  with assms show ?thesis
    by (auto simp: handled_ok_def same_config_waitTime intro: sys_okI entries_kept_reconciled)
qed

lemma ReconcileVm_ok:
  assumes "sys_ok p" "world_ok w"
  shows "handled_ok w (ReconcileVm req) p"
proof -
  have "macMap_ok (macPoolMap p)" "key_order (w_key_ord w)"
    "\<And>vm. read_vm (w_vms w) req = Inr vm \<Longrightarrow> vm_Template vm \<noteq> None \<and> VmNamespaced vm = VmNamespacedFromRequest req"
    using assms by (auto simp: sys_ok_def pool_ok_def world_ok_def VmNamespaced_def VmNamespacedFromRequest_eq)
  from Reconcile_vm_ends [OF this, where k = "w_kube w" and parse = "w_parse w"] obtain e sent m where
    r: "Reconcile_vm (w_kube w) (w_parse w) (w_key_ord w) (w_vms w) req p = Ret (e, sent, p\<lparr>macPoolMap := m\<rparr>)"
      "reconciled (VmNamespacedFromRequest req) (macPoolMap p) m" by blast
  have "pool_ok (p\<lparr>macPoolMap := m\<rparr>)"
    using assms(1) r(2) by (simp add: sys_ok_def reconciled_def pool_ok_macPoolMap)
  then show ?thesis using assms(1) r by (intro reconcile_ok) auto
qed

lemma ReconcilePod_ok:
  assumes "sys_ok p" "world_ok w" "event_ok w (ReconcilePod req)"
  shows "handled_ok w (ReconcilePod req) p"
proof -
  have "\<And>pd. w_pods w req = Inr pd \<Longrightarrow>
      pod_Namespace pd = request_Namespace req \<and> pod_Name pd = request_Name req \<and> pod_Name pd \<noteq> []"
    using assms(2) unfolding world_ok_def by blast
  with assms have "pool_ok p" "\<And>pd. w_pods w req = Inr pd \<Longrightarrow> \<not> null_network (w_codec w) pd \<and> pod_Name pd \<noteq> [] \<and>
      podNamespaced pd = ''pod/'' @ request_Namespace req @ ''/'' @ request_Name req"
    by (simp_all add: sys_ok_def podNamespaced_def) metis
  from Reconcile_pod_ends [OF this, where k = "w_kube w" and ord = "w_ord w"] obtain e p' where
    "Reconcile_pod (w_kube w) (w_codec w) (w_ord w) (w_pods w) req p = Ret (e, p')" "pool_ok p'" "same_config p p'"
    "reconciled (pod_request_name req) (macPoolMap p) (macPoolMap p')" unfolding pod_request_name_def by blast
  then show ?thesis using assms(1) by (intro reconcile_ok) auto
qed

lemma stamps_ok_stale: "stamps_ok m \<Longrightarrow> stale_names_ok m now wait"
  by (fastforce simp: stamps_ok_def stale_names_ok_def stale_at_def mem_entries_of stamped_entries_def
      hasExpiredTransaction_iff)

lemma HealStale_ok:
  assumes "sys_ok p" "world_ok w"
  shows "handled_ok w HealStale p"
proof -
  have "heal_ready (w_kube w) (w_key_ord w) (w_ord w) (w_align_ord w) (w_now w) p"
    using assms by (auto simp: heal_ready_def sys_ok_def world_ok_def pool_ok_def intro: stamps_ok_stale)
  from healStaleMacEntries_ends [OF this] obtain e m where
    r: "healStaleMacEntries (w_kube w) (w_key_ord w) (w_ord w) (w_align_ord w) (w_now w) p = Ret (e, p\<lparr>macPoolMap := m\<rparr>)"
      "macMap_ok m" "stamped_entries m \<subseteq> stamped_entries (macPoolMap p)"
      "\<And>k x. \<not> stale_at (macPoolMap p) (w_now w) (waitTime p) k x \<Longrightarrow> entries_of m k x = entries_of (macPoolMap p) k x"
    by blast
  have "stamps_ok m" using assms(1) r(3) unfolding sys_ok_def by (blast intro: stamps_ok_subset)
  moreover have "pool_ok (p\<lparr>macPoolMap := m\<rparr>)" using r(2) assms(1) by (simp add: sys_ok_def pool_ok_macPoolMap)
  ultimately have "sys_ok (p\<lparr>macPoolMap := m\<rparr>)" using assms(1) by (auto intro: sys_okI [of _ p])
  with r show ?thesis by (auto simp: handled_ok_def entries_kept_def)
qed

lemma ReconcileConfigMap_ok:
  assumes "sys_ok p" "world_ok w" "event_ok w (ReconcileConfigMap req)"
  shows "handled_ok w (ReconcileConfigMap req) p"
proof -
  have "six_byte_ranges (w_configmaps w) req" "rand_Int_ok (w_rand w)" "pool_ok p"
    using assms by (auto simp: sys_ok_def world_ok_def)
  from Reconcile_configmap_keeps [OF this] obtain e ev s t x where
    "Reconcile_configmap GetCurrentRanges (UpdateRanges (w_rand w)) (w_configmaps w) req p =
       Ret (e, ev, p\<lparr>rangeStart := s, rangeEnd := t, currentMac := x\<rparr>)"
    "pool_ok (p\<lparr>rangeStart := s, rangeEnd := t, currentMac := x\<rparr>)" by blast
  with assms(1) show ?thesis
    by (simp add: handled_ok_def sys_ok_def entries_kept_def collisions_ok_def tracked_def)
qed

lemma gauge_kept_ok:
  assumes "sys_ok p" "gauge_kept p p'"
  shows "sys_ok p'" "waitTime p' = waitTime p" "isPoolReady p' = isPoolReady p" "isKubevirt p' = isKubevirt p"
    "entries_kept x (macPoolMap p) (macPoolMap p')"
proof -
  from assms(2) obtain c g where p': "p' = p\<lparr>collidingObjectsPerMAC := c, pm_metrics := g\<rparr>" "collisions_ok p'"
    unfolding gauge_kept_def by blast
  with assms(1) show "sys_ok p'" by (simp add: sys_ok_def pool_ok_def range_ok_def in_range_def)
  show "waitTime p' = waitTime p" "isPoolReady p' = isPoolReady p" "isKubevirt p' = isKubevirt p" "entries_kept x (macPoolMap p) (macPoolMap p')" by (simp_all add: p'(1) entries_kept_def)
qed

lemma collision_ok:
  assumes "sys_ok p" "world_ok w"
  shows "handled_ok w (ReconcileVmi req) p" "handled_ok w (ReconcilePodCollision req) p"
proof -
  have "collisions_ok p" "set_order (w_set_ord w)" using assms by (auto simp: sys_ok_def world_ok_def)
  note keep = collision_reconcilers_keep [OF this, of "w_kube w" "w_objects w" req]
  show "handled_ok w (ReconcileVmi req) p"
    using keep gauge_kept_ok [OF assms(1)] by (fastforce simp: handled_ok_def)
  show "handled_ok w (ReconcilePodCollision req) p"
    using keep gauge_kept_ok [OF assms(1)] by (fastforce simp: handled_ok_def)
qed

lemma exec_ok:
  assumes "sys_ok p" "world_ok w" "event_ok w e"
  shows "handled_ok w e p"
proof (cases e)
  case (AdmitVm req)
  with AdmitVm_ok assms show ?thesis by blast
next
  case (AdmitPod req)
  with AdmitPod_ok assms show ?thesis by blast
next
  case (ReconcileVm req)
  with ReconcileVm_ok assms show ?thesis by blast
next
  case (ReconcilePod req)
  with ReconcilePod_ok assms show ?thesis by blast
next
  case HealStale
  with HealStale_ok assms show ?thesis by blast
next
  case (ReconcileConfigMap req)
  with ReconcileConfigMap_ok assms show ?thesis by blast
next
  case (ReconcileVmi req)
  with collision_ok assms show ?thesis by blast
next
  case (ReconcilePodCollision req)
  with collision_ok assms show ?thesis by blast
qed

text \<open>So a handler that panics has met a null element; otherwise it returns with the invariant.\<close>

lemma exec_input_ok:
  assumes "sys_ok p" "world_ok w" "input_ok w e"
  shows "case exec w e p of
     Ret p' \<Rightarrow> sys_ok p' \<and> isPoolReady p' = isPoolReady p \<and> (p' = p \<or> event_ok w e)
   | Panics \<Rightarrow> reads_null w e | Hangs \<Rightarrow> False"
proof (cases "reads_null w e")
  case True
  with reads_null_exec [OF True, of p] assms(1) show ?thesis by auto
next
  case False
  with assms(3) have "event_ok w e" by (simp add: event_ok_iff)
  with exec_ok [OF assms(1,2) this] show ?thesis by (auto simp: handled_ok_def)
qed

subsection \<open>Runs\<close>

text \<open>
  A step is a handler that returns, with an environment and an event as promised. The program starts
  with a new pool manager, for a range of six bytes, and the rebuild of its map, whatever the cluster
  answers to it; the gauge of the process is empty then.
\<close>

inductive step :: "pool_manager \<Rightarrow> world \<times> event \<Rightarrow> pool_manager \<Rightarrow> bool" where
  handle: "world_ok w \<Longrightarrow> event_ok w e \<Longrightarrow> exec w e p = Ret p' \<Longrightarrow> step p (w, e) p'"

inductive_cases stepE [elim!]: "step p (w, e) p'"

inductive reachable :: "pool_manager \<Rightarrow> bool" where
  start: "rand_Int_ok rnd \<Longrightarrow> length a = 6 \<Longrightarrow> length b = 6 \<Longrightarrow>
     NewPoolManager rnd \<lparr>macCollisionMetric = Map.empty, duplicateMacsMetric = 0\<rparr> a b namesp kubevirtExist wait
       [WithTLSConfig cfg] = Ret (Inr p0) \<Longrightarrow>
     Start k js p0 = Ret (err, cleanup, p) \<Longrightarrow> reachable p"
| next_step: "reachable p \<Longrightarrow> step p l p' \<Longrightarrow> reachable p'"

text \<open>A run in which no event concerns the object \<open>x\<close>.\<close>

inductive quiet :: "string \<Rightarrow> pool_manager \<Rightarrow> (world \<times> event) list \<Rightarrow> pool_manager \<Rightarrow> bool" for x where
  quiet_Nil: "quiet x p [] p"
| quiet_Cons: "step p (w, e) p1 \<Longrightarrow> \<not> concerns w e x p \<Longrightarrow> quiet x p1 ls p' \<Longrightarrow> quiet x p ((w, e) # ls) p'"

lemma sys_ok_new:
  assumes "rand_Int_ok rnd" "length a = 6" "length b = 6"
    and "NewPoolManager rnd \<lparr>macCollisionMetric = Map.empty, duplicateMacsMetric = 0\<rparr> a b namesp kubevirtExist wait
       [WithTLSConfig cfg] = Ret (Inr p0)"
  shows "sys_ok p0" "\<not> isPoolReady p0"
proof -
  define q where "q = WithTLSConfig cfg \<lparr>rangeStart = [], rangeEnd = [], currentMac = [], managerNamespace = namesp,
      macPoolMap = Map.empty, podToMacPoolMap = Map.empty, collidingObjectsPerMAC = None,
      pm_metrics = \<lparr>macCollisionMetric = Map.empty, duplicateMacsMetric = 0\<rparr>, isKubevirt = kubevirtExist,
      waitTime = wait, isPoolReady = False, tlsConfig = \<lparr>MinTLSVersion = 0, CipherSuites = [], GroupPreferences = []\<rparr>\<rparr>"
  have range: "range_acceptable rnd a b"
  proof (rule ccontr)
    assume "\<not> range_acceptable rnd a b"
    then obtain err where "UpdateRanges rnd a b q = Ret (Some err, q)"
      using UpdateRanges_refuses assms(2,3) by blast
    with assms(4) show False by (simp add: NewPoolManager_def Let_def q_def)
  qed
  obtain c where c: "UpdateRanges rnd a b q = Ret (None, q\<lparr>rangeStart := a, rangeEnd := b, currentMac := c\<rparr>)"
      "range_ok (q\<lparr>rangeStart := a, rangeEnd := b, currentMac := c\<rparr>)"
    using assms(2,3,1) range by (rule UpdateRanges_accepts)
  have p0: "p0 = q\<lparr>rangeStart := a, rangeEnd := b, currentMac := c\<rparr>"
    using assms(4) c(1) by (simp add: NewPoolManager_def Let_def q_def)
  have "pool_ok p0" using c(2) by (simp add: p0 pool_ok_def) (simp add: q_def WithTLSConfig_def)
  moreover have "stamped_entries (macPoolMap p0) = {}" "collisions_ok p0"
    by (simp_all add: p0 q_def WithTLSConfig_def collisions_ok_def tracked_def)
  ultimately show "sys_ok p0" by (simp add: sys_ok_def stamps_ok_def)
  show "\<not> isPoolReady p0" by (simp add: p0 q_def WithTLSConfig_def)
qed

text \<open>The rebuild keeps the invariant whenever it returns, also on a map that is not empty.\<close>

lemma sys_ok_start_frame:
  assumes "sys_ok p" "start_frame p q"
  shows "sys_ok q"
proof -
  note frame = start_frameD [OF assms(2)]
  have "collisions_ok q" using assms(1) collisions_ok_cong [OF frame(4,2)] by (simp add: sys_ok_def)
  with assms(1) frame(1,3) show ?thesis by (auto simp: sys_ok_def intro: stamps_ok_subset)
qed

lemma sys_ok_ready [simp]: "sys_ok (p\<lparr>isPoolReady := b\<rparr>) = sys_ok p"
  by (simp add: sys_ok_def pool_ok_def range_ok_def in_range_def collisions_ok_def tracked_def)

lemma sys_ok_Start:
  assumes "sys_ok p0" "Start k js p0 = Ret (err, cleanup, p)"
  shows "sys_ok p"
proof -
  have "pool_ok p0" using assms(1) by (simp add: sys_ok_def)
  then obtain q where "start_frame p0 q" "p = q\<lparr>isPoolReady := err = None \<or> isPoolReady p0\<rparr>"
    using assms(2) by (rule Start_keeps)
  with assms(1) show ?thesis by (simp add: sys_ok_start_frame)
qed

lemma reachable_sys_ok: "reachable p \<Longrightarrow> sys_ok p"
proof (induction rule: reachable.induct)
  case (next_step p l p')
  obtain w e where l: "l = (w, e)" by (cases l)
  with next_step.hyps(2) have "world_ok w" "event_ok w e" "exec w e p = Ret p'" by auto
  with exec_ok [OF next_step.IH] show ?case by (fastforce simp: handled_ok_def)
qed (blast intro: sys_ok_new sys_ok_Start)

lemma quiet_keeps:
  assumes "quiet x p ls p'" "reachable p"
  shows "reachable p' \<and> entries_kept x (macPoolMap p) (macPoolMap p')"
  using assms
proof (induction rule: quiet.induct)
  case (quiet_Cons p w e p1 ls p')
  have "entries_kept x (macPoolMap p) (macPoolMap p1)"
    using quiet_Cons.hyps(1,2) exec_ok [OF reachable_sys_ok [OF quiet_Cons.prems], of w e]
    by (fastforce simp: handled_ok_def)
  moreover have "reachable p1" using quiet_Cons.prems quiet_Cons.hyps(1) by (rule reachable.next_step)
  ultimately show ?case using quiet_Cons.IH by (auto simp: entries_kept_def)
qed (simp add: entries_kept_def)

subsection \<open>From the admission of a creation to its commit\<close>

text \<open>A creation with interfaces and networks, of a machine that does not exist yet, is admitted.\<close>

definition creation_admitted ::
    "world \<Rightarrow> virtual_machine admission_request \<Rightarrow> virtual_machine \<Rightarrow> vm_template \<Rightarrow> pool_manager \<Rightarrow>
     admission_response \<Rightarrow> pool_manager \<Rightarrow> bool" where
  "creation_admitted w req vm t p resp p' \<longleftrightarrow>
     areq_Object req = Inr vm \<and> areq_Operation req = Create \<and> is_not_dry_run req \<and>
     vm_Template vm = Some t \<and> Interfaces t \<noteq> [] \<and> Networks t \<noteq> [] \<and> \<not> vm_DeletionTimestamp vm \<and>
     get_vm (w_kube w) (vm_Namespace (prepared_vm req vm)) (vm_Name vm) = Inl NotFound \<and> w_format w (w_now w) \<noteq> [] \<and>
     Handle_vm (w_ord w) (w_format w) (w_now w) (get_vm (w_kube w)) req p = Ret (resp, p') \<and> resp_Allowed resp"

definition supported_ifaces :: "vm_template \<Rightarrow> vm_interface list" where
  "supported_ifaces t = filter (\<lambda>i. IsInterfaceSupported i (networks_by_name (Networks t))) (Interfaces t)"

lemma creation_admitted_created:
  assumes "creation_admitted w req vm t p resp p'" "sys_ok p" "world_ok w"
  obtains stored ifaces where "apply_patch apply_op_vm (resp_Patches resp) vm = Some stored"
    "vm_Template stored = Some (t\<lparr>Interfaces := ifaces\<rparr>)"
    "lookup_nil (vm_Annotations stored) TransactionTimestampAnnotation = Some (w_format w (w_now w))"
    "created (prepared_vm req vm) t (Some (w_now w)) p ifaces p'"
proof -
  have "pool_ok p" "range_order (w_ord w)" using assms(2,3) by (auto simp: sys_ok_def world_ok_def)
  with assms(1) have "\<exists>stored ifaces. apply_patch apply_op_vm (resp_Patches resp) vm = Some stored \<and>
     vm_Template stored = Some (t\<lparr>Interfaces := ifaces\<rparr>) \<and>
     lookup_nil (vm_Annotations stored) TransactionTimestampAnnotation = Some (w_format w (w_now w)) \<and>
     created (prepared_vm req vm) t (Some (w_now w)) p ifaces p'"
    unfolding creation_admitted_def by (intro Handle_vm_creates [where get = "get_vm (w_kube w)"]) auto
  with that show thesis by blast
qed

lemma mem_holders_entries_of: "(k, x, j) \<in> holders m \<longleftrightarrow> (\<exists>e\<in>set (entries_of m k x). macInstanceKey e = j)"
  by (cases "m k") (auto simp: mem_holders entries_of_def)

lemma entries_kept_holders: "entries_kept x m m' \<Longrightarrow> (k, x, j) \<in> holders m' \<longleftrightarrow> (k, x, j) \<in> holders m"
  by (simp add: mem_holders_entries_of entries_kept_def)

lemma ready_at_entries_of: "ready_at m x t k \<longleftrightarrow> (\<exists>e\<in>set (entries_of m k x). hasReadyTransaction e t)"
  by (cases "m k") (auto simp: ready_at_def entries_of_def)

lemma stamped_ready: "stamped m x (Some t) mac \<Longrightarrow> ready_at m x t (NewMacKey mac)"
  unfolding stamped_def ready_at_def
  by (auto simp: hasReadyTransaction_iff elim!: find_instance_InrD) (metis nth_mem order_refl)

lemma stored_single_holder:
  assumes "\<And>k j. (k, x, j) \<in> holders m \<longleftrightarrow> (\<exists>i\<in>set is. k = NewMacKey (iface_MacAddress i) \<and> j = iface_Name i)"
    and "distinct (map (\<lambda>i. NewMacKey (iface_MacAddress i)) is)"
  shows "single_holder m x"
  using assms unfolding single_holder_def by (auto simp: distinct_map dest: inj_onD)

text \<open>The commit of a machine whose every address carries the persisted timestamp.\<close>

lemma commit_all:
  assumes "macMap_ok (macPoolMap p)" "key_order kord" "vm_Template vm = Some t"
    and held: "\<And>k j. (k, VmNamespaced vm, j) \<in> holders (macPoolMap p) \<longleftrightarrow>
      (\<exists>i\<in>set (supported_ifaces t). k = NewMacKey (iface_MacAddress i) \<and> j = iface_Name i)"
    and "distinct (map (\<lambda>i. NewMacKey (iface_MacAddress i)) (supported_ifaces t))"
    and ready: "\<And>i. i \<in> set (supported_ifaces t) \<Longrightarrow> ready_at (macPoolMap p) (VmNamespaced vm) ts (NewMacKey (iface_MacAddress i))"
  shows "\<exists>m. MarkVMAsReady kord vm ts p = Ret (None, p\<lparr>macPoolMap := m\<rparr>) \<and> macMap_ok m \<and>
     others (VmNamespaced vm) m = others (VmNamespaced vm) (macPoolMap p) \<and>
     (\<forall>k j. (k, VmNamespaced vm, j) \<in> holders m \<longleftrightarrow> (k, VmNamespaced vm, j) \<in> holders (macPoolMap p)) \<and>
     (\<forall>k. settled m (VmNamespaced vm) k)"
proof -
  let ?x = "VmNamespaced vm"
  obtain m where m: "MarkVMAsReady kord vm ts p = Ret (None, p\<lparr>macPoolMap := m\<rparr>)"
      "committed ?x (Interfaces t) ts (macPoolMap p) m"
    using MarkVMAsReady_commits [OF assms(3,1,2) stored_single_holder [OF held assms(5)]] by blast
  have one: "(\<forall>j. (k, ?x, j) \<in> holders m \<longleftrightarrow> (k, ?x, j) \<in> holders (macPoolMap p)) \<and> settled m ?x k" for k
  proof (cases "ready_at (macPoolMap p) ?x ts k")
    case True
    moreover have "uses_mac (Interfaces t) k j" if "(k, ?x, j) \<in> holders (macPoolMap p)" for j
      using that unfolding held by (auto simp: uses_mac_def supported_ifaces_def)
    ultimately show ?thesis using m(2) by (auto simp: committed_def)
  next
    case False
    with held ready have "(k, ?x, j) \<notin> holders (macPoolMap p)" for j by auto
    moreover have "m k = macPoolMap p k" using False m(2) by (simp add: committed_def)
    ultimately show ?thesis by (auto simp: mem_holders settled_def)
  qed
  with m show ?thesis by (auto simp: committed_def)
qed

subsection \<open>A run\<close>

definition sample_rand :: "int \<Rightarrow> go_error + int" where
  "sample_rand n = Inr (min 7 (n - 1))"

definition sample_world :: world where
  "sample_world = \<lparr>w_kube = managed_kube, w_codec = sample_codec, w_ord = \<lambda>xs. xs, w_align_ord = \<lambda>xs. xs,
     w_key_ord = sorted_list_of_set, w_set_ord = sorted_list_of_set, w_format = \<lambda>_. ''t'', w_parse = \<lambda>_. Inr 5,
     w_now = 5, w_rand = sample_rand,
     w_vms = \<lparr>read_vm = \<lambda>req. if req = sample_request
         then Inr (stored_vm\<lparr>vm_Annotations := Some [(TransactionTimestampAnnotation, ''t'')]\<rparr>) else Inl NotFound,
       reread_vm = \<lambda>_. Inl NotFound, update_vm = \<lambda>_ _. None\<rparr>,
     w_pods = \<lambda>_. Inl NotFound, w_objects = sample_client,
     w_configmaps = \<lparr>get_configmap = \<lambda>_. Inl NotFound, list_manager_pods = Inr [], has_recorder = False\<rparr>\<rparr>"

lemma sample_rand_ok: "rand_Int_ok sample_rand"
  by (auto simp: rand_Int_ok_def sample_rand_def min_def)

lemma sample_world_ok: "world_ok sample_world"
  unfolding world_ok_def
proof (intro conjI)
  show "kube_vm_ok (w_kube sample_world)" by (simp add: sample_world_def kube_vm_ok_def managed_kube_def)
  show "\<forall>req vm. read_vm (w_vms sample_world) req = Inr vm \<longrightarrow> vm_Template vm \<noteq> None \<and>
      vm_Namespace vm = request_Namespace req \<and> vm_Name vm = request_Name req"
    by (auto simp: sample_world_def stored_vm_def set_interfaces_def sample_vm_def sample_request_def)
qed (simp_all add: sample_world_def key_order_sorted set_order_sorted sample_rand_ok)

lemma reachable_after_Start:
  assumes "Start k sample_codec (sample_pool\<lparr>isPoolReady := False\<rparr>) = Ret (err, cleanup, p)"
  shows "reachable p"
proof -
  let ?a = "[2, 0, 0, 0, 0, 0] :: hwaddr" and ?b = "[2, 0, 0, 0, 0, 9] :: hwaddr"
  have "UpdateRanges sample_rand ?a ?b p = Ret (None, p\<lparr>rangeStart := ?a, rangeEnd := ?b, currentMac := [2, 0, 0, 0, 0, 7]\<rparr>)" for p
  proof -
    have "generateRandomMac sample_rand ?a ?b = Ret (Inr (mac_of_nat (mac_val ?a + nat 7)))"
      by (rule generateRandomMac_6) (simp_all add: sample_rand_ok, simp add: sample_rand_def)
    moreover have "mac_of_nat (mac_val ?a + nat 7) = [2, 0, 0, 0, 0, 7]"
      using mac_of_nat_mac_val [of "[2, 0, 0, 0, 0, 7]"] by simp
    ultimately show ?thesis
      by (simp add: UpdateRanges_def checkRange_def checkCast_def Let_def)
  qed
  then have "NewPoolManager sample_rand \<lparr>macCollisionMetric = Map.empty, duplicateMacsMetric = 0\<rparr> ?a ?b ''ns'' True 600
      [WithTLSConfig \<lparr>MinTLSVersion = 0, CipherSuites = [], GroupPreferences = []\<rparr>] = Ret (Inr (sample_pool\<lparr>isPoolReady := False\<rparr>))"
    by (simp add: NewPoolManager_def Let_def WithTLSConfig_def sample_pool_def)
  with assms sample_rand_ok show ?thesis by (intro reachable.start [of sample_rand ?a ?b]) simp_all
qed

lemma reachable_sample: "reachable sample_pool"
proof (rule reachable_after_Start)
  show "Start managed_kube sample_codec (sample_pool\<lparr>isPoolReady := False\<rparr>) = Ret (None, True, sample_pool)"
    by (simp add: Start_empty sample_pool_def)
qed

text \<open>A start in a cluster with another machine, which holds an address.\<close>

definition other_vm :: virtual_machine where
  "other_vm = set_interfaces [sample_iface\<lparr>iface_MacAddress := ''02:00:00:00:00:01''\<rparr>] (sample_vm\<lparr>vm_Name := ''vm0''\<rparr>)"

definition other_key :: macKey where
  "other_key = NewMacKey ''02:00:00:00:00:01''"

lemma one_interface_held:
  assumes "vm = set_interfaces [sample_iface\<lparr>iface_MacAddress := mac\<rparr>] (sample_vm\<lparr>vm_Name := n\<rparr>)"
    and "ParseMAC mac = Inr a" "mac \<noteq> []"
  shows "vm_valid vm" "vm_holdings vm = {(NewMacKey mac, ''vm/default/'' @ n, ''br1'')}"
proof -
  have req: "vm_requests vm = [sample_iface\<lparr>iface_MacAddress := mac\<rparr>]"
    using assms by (simp add: vm_requests_def set_interfaces_def sample_template_def sample_iface_def
        IsInterfaceSupported_def networks_by_name_def)
  then show "vm_valid vm" using assms(2) by (simp add: vm_valid_def)
  have "VmNamespaced vm = ''vm/default/'' @ n"
    by (simp add: VmNamespaced_def assms(1) set_interfaces_def sample_vm_def)
  then show "vm_holdings vm = {(NewMacKey mac, ''vm/default/'' @ n, ''br1'')}"
    by (simp add: vm_holdings_def req) (simp add: sample_iface_def)
qed

lemma other_vm_held: "vm_valid other_vm" "vm_holdings other_vm = {(other_key, ''vm/default/vm0'', ''br1'')}"
proof -
  have "ParseMAC ''02:00:00:00:00:01'' = Inr [2, 0, 0, 0, 0, 1]"
    using ParseMAC_hw_String [of "[2, 0, 0, 0, 0, 1]"] by (simp add: hex2_def hexDigit_def hw_length_ok_def hw_lengths_def)
  from one_interface_held [OF other_vm_def this]
  show "vm_valid other_vm" "vm_holdings other_vm = {(other_key, ''vm/default/vm0'', ''br1'')}"
    by (simp_all add: other_key_def)
qed

lemma reachable_other:
  obtains m g where "reachable (sample_with True m g)" "holders m = {(other_key, ''vm/default/vm0'', ''br1'')}"
    "mac_free m [2, 0, 0, 0, 0, 7]" "stamped_entries m = {}"
proof -
  let ?k = "managed_kube\<lparr>list_vms := \<lambda>_ _. Inr ([other_vm], []), list_pods := \<lambda>_ _. Inr ([], [])\<rparr>"
  let ?p = "sample_pool\<lparr>isPoolReady := False\<rparr>"
  have view: "cluster_view ?k sample_codec [other_vm] []"
    by (rule managed_kube_view) (simp_all add: other_vm_def set_interfaces_def sample_vm_def)
  have "pool_ok ?p" using sample_pool_pool_ok by (simp add: pool_ok_def range_ok_def in_range_def)
  moreover have "isKubevirt ?p" "\<not> isPoolReady ?p" by (simp_all add: sample_pool_def)
  ultimately obtain p' where p': "Start ?k sample_codec ?p = Ret (None, True, p'\<lparr>isPoolReady := True\<rparr>)" "start_frame ?p p'"
      "holders (macPoolMap p') = {(other_key, ''vm/default/vm0'', ''br1'')}"
    using Start_takes [OF view, of ?p] other_vm_held by auto
  have eq: "p'\<lparr>isPoolReady := True\<rparr> = sample_with True (macPoolMap p') (pm_metrics p')"
    using p'(2) unfolding start_frame_def by (cases p') (simp add: sample_pool_def)
  have "macPoolMap p' (MacKey (hw_String [2, 0, 0, 0, 0, 7])) = None"
  proof (rule ccontr)
    assume "macPoolMap p' (MacKey (hw_String [2, 0, 0, 0, 0, 7])) \<noteq> None"
    then obtain es where es: "macPoolMap p' (MacKey (hw_String [2, 0, 0, 0, 0, 7])) = Some es" by auto
    then have "es \<noteq> []" using p'(2) by (auto simp: start_frame_def pool_ok_def macMap_ok_def entries_ok_def)
    with es have "\<exists>h. (MacKey (hw_String [2, 0, 0, 0, 0, 7]), h) \<in> holders (macPoolMap p')" by (cases es) (auto simp: holders_def holder_def)
    moreover have "other_key = MacKey (hw_String [2, 0, 0, 0, 0, 1])"
      using NewMacKey_valid [OF ParseMAC_hw_String [of "[2, 0, 0, 0, 0, 1]"]]
      by (simp add: other_key_def hex2_def hexDigit_def hw_length_ok_def hw_lengths_def)
    ultimately have "MacKey (hw_String [2, 0, 0, 0, 0, 7]) = MacKey (hw_String [2, 0, 0, 0, 0, 1])" using p'(3) by auto
    then show False unfolding macKey.inject hw_String_inject by simp
  qed
  moreover have "stamped_entries (macPoolMap p') = {}" using start_frameD(3) [OF p'(2)] by (simp add: sample_pool_def)
  ultimately show thesis using that [of "pm_metrics p'" "macPoolMap p'"] reachable_after_Start [OF p'(1)] p'(3) eq
    by (simp add: mac_free_def)
qed

subsection \<open>Properties\<close>

text \<open>C1: Whatever sequence of events the program handles after its start, its state is well formed: the
  current address lies in the range, whose ends are unicast, every entry list of the pool map is non-empty, without repetition and
  under a normalised key; the gauge shows exactly the tracked collisions, of two objects at least; and
  only entries of virtual machines are in a transaction.\<close>

theorem reachable_invariant:
  assumes "reachable p"
  shows "range_ok p \<and> macMap_ok (macPoolMap p) \<and> collisions_ok p \<and>
     (\<forall>k es e. macPoolMap p k = Some es \<longrightarrow> e \<in> set es \<longrightarrow> transactionTimestamp e \<noteq> None \<longrightarrow> vm_name (instanceName e))"
  using reachable_sys_ok [OF assms]
  by (auto simp: sys_ok_def pool_ok_def stamps_ok_def stamped_entries_def)

theorem reachable_invariant_witness: "range_ok sample_pool \<and> collisions_ok sample_pool"
  using reachable_invariant [OF reachable_sample] by simp


text \<open>A creation is admitted; a pod with a null element is not.\<close>

definition null_pod_request :: "pod admission_request" where
  "null_pod_request = \<lparr>areq_Operation = Create, areq_Namespace = ''default'', areq_DryRun = None,
     areq_Object = Inr (sample_pod\<lparr>pod_Annotations := Some [(NetworkAttachmentAnnot, ''[null]'')]\<rparr>)\<rparr>"


text \<open>C3: An address that an object holds is not handed out to another one: after any run in which no
  event concerns the object (its own requests, the release of an object it shares an address with, the healing
  of its stale entries), a machine created then gets for an interface without an address one that differs
  from every address of the object.\<close>

theorem held_address_not_handed_out:
  assumes "reachable p" "(k, x, j) \<in> holders (macPoolMap p)" "quiet x p ls p1" "world_ok w"
    and "creation_admitted w req vm t p1 resp p2"
    and "apply_patch apply_op_vm (resp_Patches resp) vm = Some stored" "vm_Template stored = Some t'"
    and "n < length (Interfaces t)" "IsInterfaceSupported (Interfaces t ! n) (networks_by_name (Networks t))"
    and "iface_MacAddress (Interfaces t ! n) = []"
  shows "n < length (Interfaces t') \<and> NewMacKey (iface_MacAddress (Interfaces t' ! n)) \<noteq> k"
proof -
  have p1: "reachable p1" "(k, x, j) \<in> holders (macPoolMap p1)"
    using quiet_keeps [OF assms(3,1)] assms(2) entries_kept_holders by blast+
  obtain ifaces where "t' = t\<lparr>Interfaces := ifaces\<rparr>" "created (prepared_vm req vm) t (Some (w_now w)) p1 ifaces p2"
    using creation_admitted_created [OF assms(5) reachable_sys_ok [OF p1(1)] assms(4)] assms(6,7) by (metis option.inject)
  then have served: "list_all2 (iface_served p1 (networks_by_name (Networks t))) (Interfaces t) (Interfaces t')"
    by (simp add: created_def)
  then have len: "n < length (Interfaces t')" using assms(8) by (simp add: list_all2_lengthD)
  obtain a where a: "iface_MacAddress (Interfaces t' ! n) = hw_String a" "mac_free (macPoolMap p1) a" "in_range p1 a"
    using list_all2_nthD [OF served assms(8)] assms(9,10) by (auto simp: iface_served_def)
  have "NewMacKey (hw_String a) = MacKey (hw_String a)" using in_range_ParseMAC [OF a(3)] by (rule NewMacKey_valid)
  with p1(2) len a(1,2) show ?thesis by (auto simp: mac_free_def mem_holders)
qed

lemma sample_world_facts:
  "w_ord sample_world = (\<lambda>xs. xs)" "w_format sample_world = (\<lambda>_. ''t'')" "w_now sample_world = 5"
  "get_vm (w_kube sample_world) = (\<lambda>_ _. Inl NotFound)"
  by (simp_all add: sample_world_def managed_kube_def)

lemma sample_creation_admitted:
  assumes "mac_free m [2, 0, 0, 0, 0, 7]"
  obtains resp p' stored where
    "creation_admitted sample_world sample_creation_request sample_vm sample_template (sample_with b m g) resp p'"
    "apply_patch apply_op_vm (resp_Patches resp) sample_vm = Some stored"
    "vm_Template stored = Some (sample_template\<lparr>Interfaces := [sample_iface\<lparr>iface_MacAddress := ''02:00:00:00:00:07''\<rparr>]\<rparr>)"
proof -
  obtain ops p' stored where "Handle_vm (\<lambda>xs. xs) (\<lambda>_. ''t'') 5 (\<lambda>_ _. Inl NotFound) sample_creation_request (sample_with b m g) =
      Ret (patched ops, p')" "apply_patch apply_op_vm ops sample_vm = Some stored"
    "vm_Template stored = Some (sample_template\<lparr>Interfaces := [sample_iface\<lparr>iface_MacAddress := ''02:00:00:00:00:07''\<rparr>]\<rparr>)"
    using sample_admission [OF assms] by blast
  then show thesis using sample_request_facts
    by (intro that [of "patched ops" p' stored])
       (simp_all add: creation_admitted_def sample_world_facts, simp_all add: sample_creation_request_def is_not_dry_run_def)
qed

theorem held_address_not_handed_out_witness:
  "NewMacKey ''02:00:00:00:00:07'' \<noteq> other_key"
proof -
  obtain m g where m: "reachable (sample_with True m g)" "holders m = {(other_key, ''vm/default/vm0'', ''br1'')}"
      "mac_free m [2, 0, 0, 0, 0, 7]" by (rule reachable_other)
  obtain resp p' stored where r:
      "creation_admitted sample_world sample_creation_request sample_vm sample_template (sample_with True m g) resp p'"
      "apply_patch apply_op_vm (resp_Patches resp) sample_vm = Some stored"
      "vm_Template stored = Some (sample_template\<lparr>Interfaces := [sample_iface\<lparr>iface_MacAddress := ''02:00:00:00:00:07''\<rparr>]\<rparr>)"
    using m(3) by (rule sample_creation_admitted)
  have "(other_key, ''vm/default/vm0'', ''br1'') \<in> holders (macPoolMap (sample_with True m g))" by (simp add: m(2))
  from held_address_not_handed_out [OF m(1) this quiet_Nil sample_world_ok r, of 0] show ?thesis
    by (simp add: sample_template_def sample_iface_def IsInterfaceSupported_def networks_by_name_def)
qed

text \<open>C9: The life of a created machine: the API server stores what the webhook answered; after any events
  that do not concern the machine, the controller reconciles the stored object, and then the pool holds for
  the machine exactly the addresses of its supported interfaces, none of them in a transaction any more. Asked
  for: the machine held nothing before, no two of its supported interfaces have the same address, its
  namespace is managed, and reading a printed timestamp gives it back.\<close>

theorem creation_lifecycle:
  assumes "reachable p" "world_ok w" "event_ok w (AdmitVm req)" "creation_admitted w req vm t p resp p1"
    and "x = VmNamespaced (prepared_vm req vm)" "\<forall>k j. (k, x, j) \<notin> holders (macPoolMap p)"
    and "apply_patch apply_op_vm (resp_Patches resp) vm = Some stored" "vm_Template stored = Some t'"
    and "distinct (map (\<lambda>i. NewMacKey (iface_MacAddress i)) (supported_ifaces t'))"
    and "quiet x p1 ls p2" "world_ok w'" "read_vm (w_vms w') rq = Inr vm'" "\<not> vm_DeletionTimestamp vm'"
    and "VmNamespaced vm' = x" "vm_Template vm' = Some t'"
    and "lookup_nil (vm_Annotations vm') TransactionTimestampAnnotation =
       lookup_nil (vm_Annotations stored) TransactionTimestampAnnotation"
    and "IsVirtualMachineManaged (w_kube w') (request_Namespace rq) = Inr True"
    and "w_parse w' (w_format w (w_now w)) = Inr (w_now w)"
  shows "\<exists>p3. exec w' (ReconcileVm rq) p2 = Ret p3 \<and>
     (\<forall>k j. (k, x, j) \<in> holders (macPoolMap p3) \<longleftrightarrow>
        (\<exists>i\<in>set (supported_ifaces t'). k = NewMacKey (iface_MacAddress i) \<and> j = iface_Name i)) \<and>
     (\<forall>k. settled (macPoolMap p3) x k)"
proof -
  obtain ifaces where t': "t' = t\<lparr>Interfaces := ifaces\<rparr>"
      "lookup_nil (vm_Annotations stored) TransactionTimestampAnnotation = Some (w_format w (w_now w))"
      and created: "created (prepared_vm req vm) t (Some (w_now w)) p ifaces p1"
    using creation_admitted_created [OF assms(4) reachable_sys_ok [OF assms(1)] assms(2)] assms(7,8) by (metis option.inject)
  have "exec w (AdmitVm req) p = Ret p1" using assms(4) by (simp add: creation_admitted_def)
  with assms(2,3) have "step p (w, AdmitVm req) p1" by (intro step.handle)
  with assms(1) have "reachable p1" by (rule reachable.next_step)
  with quiet_keeps [OF assms(10)] have p2: "sys_ok p2" "entries_kept x (macPoolMap p1) (macPoolMap p2)"
    by (auto intro: reachable_sys_ok)
  have held: "(k, x, j) \<in> holders (macPoolMap p2) \<longleftrightarrow>
      (\<exists>i\<in>set (supported_ifaces t'). k = NewMacKey (iface_MacAddress i) \<and> j = iface_Name i)" for k j
    unfolding entries_kept_holders [OF p2(2)]
    using created assms(5,6) by (auto simp: created_def supported_ifaces_def t'(1))
  have ready: "ready_at (macPoolMap p2) x (w_now w) (NewMacKey (iface_MacAddress i))" if "i \<in> set (supported_ifaces t')" for i
  proof -
    have "stamped (macPoolMap p1) x (Some (w_now w)) (iface_MacAddress i)"
      using created that assms(5) by (auto simp: created_def supported_ifaces_def t'(1))
    then have "ready_at (macPoolMap p1) x (w_now w) (NewMacKey (iface_MacAddress i))" by (rule stamped_ready)
    with p2(2) show ?thesis by (simp add: ready_at_entries_of entries_kept_def)
  qed
  have "macMap_ok (macPoolMap p2)" "key_order (w_key_ord w')"
    using p2(1) assms(11) by (auto simp: sys_ok_def pool_ok_def world_ok_def)
  from commit_all [OF this assms(15), unfolded assms(14), OF held assms(9) ready]
  obtain m where m: "MarkVMAsReady (w_key_ord w') vm' (w_now w) p2 = Ret (None, p2\<lparr>macPoolMap := m\<rparr>)"
      "\<forall>k j. (k, x, j) \<in> holders m \<longleftrightarrow> (k, x, j) \<in> holders (macPoolMap p2)" "\<forall>k. settled m x k" by blast
  have "GetTransactionTimestampAnnotationFromVm (w_parse w') vm' = Inr (w_now w)"
    using assms(16,18) t'(2) by (simp add: GetTransactionTimestampAnnotationFromVm_def)
  with m(1) assms(12,13,17) have "exec w' (ReconcileVm rq) p2 = Ret (p2\<lparr>macPoolMap := m\<rparr>)"
    by (simp add: Reconcile_vm_def IsVirtualMachineDeletionInProgress_def)
  with m(2,3) held show ?thesis by simp
qed

theorem creation_lifecycle_witness:
  "\<exists>p1 p3. exec sample_world (AdmitVm sample_creation_request) sample_pool = Ret p1 \<and>
     exec sample_world (ReconcileVm sample_request) p1 = Ret p3 \<and>
     (NewMacKey ''02:00:00:00:00:07'', ''vm/default/vm1'', ''br1'') \<in> holders (macPoolMap p3)"
proof -
  let ?t = "sample_template\<lparr>Interfaces := [sample_iface\<lparr>iface_MacAddress := ''02:00:00:00:00:07''\<rparr>]\<rparr>"
  let ?vm = "stored_vm\<lparr>vm_Annotations := Some [(TransactionTimestampAnnotation, ''t'')]\<rparr>"
  have "mac_free Map.empty [2, 0, 0, 0, 0, 7]" by (simp add: mac_free_def)
  then obtain resp p1 stored where r:
      "creation_admitted sample_world sample_creation_request sample_vm sample_template sample_pool resp p1"
      "apply_patch apply_op_vm (resp_Patches resp) sample_vm = Some stored" "vm_Template stored = Some ?t"
    using sample_creation_admitted [where m = Map.empty and g = "pm_metrics sample_pool" and b = True] unfolding sample_with_own [symmetric] by blast
  have ts: "lookup_nil (vm_Annotations stored) TransactionTimestampAnnotation = Some ''t''"
    using creation_admitted_created [OF r(1) reachable_sys_ok [OF reachable_sample] sample_world_ok] r(2)
    by (metis option.inject sample_world_facts(2))
  have sup: "supported_ifaces ?t = [sample_iface\<lparr>iface_MacAddress := ''02:00:00:00:00:07''\<rparr>]"
    by (simp add: supported_ifaces_def sample_template_def sample_iface_def IsInterfaceSupported_def networks_by_name_def)
  have name: "VmNamespaced (prepared_vm sample_creation_request sample_vm) = ''vm/default/vm1''"
    by (simp add: sample_request_facts VmNamespaced_sample)
  have ev: "event_ok sample_world (AdmitVm sample_creation_request)"
    by (simp add: sample_creation_request_def prepared_vm_def sample_vm_def)
  have "\<exists>p3. exec sample_world (ReconcileVm sample_request) p1 = Ret p3 \<and>
     (\<forall>k j. (k, ''vm/default/vm1'', j) \<in> holders (macPoolMap p3) \<longleftrightarrow>
        (\<exists>i\<in>set (supported_ifaces ?t). k = NewMacKey (iface_MacAddress i) \<and> j = iface_Name i)) \<and>
     (\<forall>k. settled (macPoolMap p3) ''vm/default/vm1'' k)"
  proof (rule creation_lifecycle [OF reachable_sample sample_world_ok ev r(1) name [symmetric] _ r(2,3) _ quiet_Nil sample_world_ok])
    show "read_vm (w_vms sample_world) sample_request = Inr ?vm" by (simp add: sample_world_def)
    show "\<not> vm_DeletionTimestamp ?vm" "VmNamespaced ?vm = ''vm/default/vm1''" "vm_Template ?vm = Some ?t"
      by (simp_all add: stored_vm_def set_interfaces_def sample_vm_def VmNamespaced_def)
    show "IsVirtualMachineManaged (w_kube sample_world) (request_Namespace sample_request) = Inr True"
      by (simp add: sample_world_def)
    show "w_parse sample_world (w_format sample_world (w_now sample_world)) = Inr (w_now sample_world)"
      by (simp add: sample_world_def)
    show "lookup_nil (vm_Annotations ?vm) TransactionTimestampAnnotation =
        lookup_nil (vm_Annotations stored) TransactionTimestampAnnotation" unfolding ts by (simp add: lookup_nil_def)
  qed (simp_all add: sup)
  moreover have "exec sample_world (AdmitVm sample_creation_request) sample_pool = Ret p1"
    using r(1) by (simp add: creation_admitted_def)
  ultimately show ?thesis by (auto simp: sup) (simp add: sample_iface_def)
qed

end
