(* ===== verification/Lifecycle.thy ===== *)
theory Lifecycle
  imports System
begin

section \<open>Updates, deletions, and what is handed out\<close>

text \<open>
  An update of a machine passes through three hands: the webhook reserves what the new interfaces need and
  stamps what they leave, the API server stores the answer, and the controller commits it. In between any
  events may be handled that do not concern the machine.

  Shown: when the pool was in step with the stored machine before, it is in step with the newly stored one
  afterwards, so that updates can follow one another; in between, every address is reserved that the old or
  the new version of the machine uses. When an object is gone, its addresses can be handed out again. What is
  handed out is a well-formed address.
\<close>

subsection \<open>The pool in step with a machine\<close>

definition mac_key :: "vm_interface \<Rightarrow> macKey" where
  "mac_key i = NewMacKey (iface_MacAddress i)"

text \<open>The pool holds for the object exactly the addresses of the interfaces, none of them in a transaction.\<close>

definition in_step :: "macMap \<Rightarrow> string \<Rightarrow> vm_interface list \<Rightarrow> bool" where
  "in_step m x ifaces \<longleftrightarrow> (\<forall>k j. (k, x, j) \<in> holders m \<longleftrightarrow> uses_mac ifaces k j) \<and> (\<forall>k. settled m x k)"

text \<open>
  A transaction towards the interfaces is pending: what they use is held, and an address they do not use is
  marked with a timestamp that is not later than \<open>ts\<close>.
\<close>

definition pending :: "macMap \<Rightarrow> string \<Rightarrow> vm_interface list \<Rightarrow> time \<Rightarrow> bool" where
  "pending m x ifaces ts \<longleftrightarrow> single_holder m x \<and>
     (\<forall>k j. uses_mac ifaces k j \<longrightarrow> (k, x, j) \<in> holders m) \<and>
     (\<forall>k j. (k, x, j) \<in> holders m \<longrightarrow> ready_at m x ts k \<or> uses_mac ifaces k j \<and> settled m x k)"

lemma uses_mac_key: "uses_mac ifaces k j \<longleftrightarrow> (\<exists>i\<in>set ifaces. mac_key i = k \<and> iface_Name i = j)"
  by (simp add: uses_mac_def mac_key_def)

lemma settled_entries_of: "settled m x k \<longleftrightarrow> (\<forall>e\<in>set (entries_of m k x). transactionTimestamp e = None)"
  by (cases "m k") (auto simp: settled_def entries_of_def)

lemma pending_kept: "pending m x ifaces ts \<Longrightarrow> entries_kept x m m' \<Longrightarrow> pending m' x ifaces ts"
  unfolding pending_def single_holder_def
  by (simp add: entries_kept_holders ready_at_entries_of settled_entries_of) (simp add: entries_kept_def)

lemma in_step_kept: "in_step m x ifaces \<Longrightarrow> entries_kept x m m' \<Longrightarrow> in_step m' x ifaces"
  unfolding in_step_def settled_entries_of by (simp add: entries_kept_holders) (simp add: entries_kept_def)

text \<open>The commit brings the pool in step.\<close>

lemma commit_pending:
  assumes "macMap_ok (macPoolMap p)" "key_order kord" "vm_Template vm = Some t"
    and "pending (macPoolMap p) (VmNamespaced vm) (Interfaces t) ts"
  shows "\<exists>m. MarkVMAsReady kord vm ts p = Ret (None, p\<lparr>macPoolMap := m\<rparr>) \<and> in_step m (VmNamespaced vm) (Interfaces t)"
proof -
  let ?x = "VmNamespaced vm"
  have pend: "single_holder (macPoolMap p) ?x" "\<And>k j. uses_mac (Interfaces t) k j \<Longrightarrow> (k, ?x, j) \<in> holders (macPoolMap p)"
    "\<And>k j. (k, ?x, j) \<in> holders (macPoolMap p) \<Longrightarrow>
       ready_at (macPoolMap p) ?x ts k \<or> uses_mac (Interfaces t) k j \<and> settled (macPoolMap p) ?x k"
    using assms(4) unfolding pending_def by blast+
  obtain m where m: "MarkVMAsReady kord vm ts p = Ret (None, p\<lparr>macPoolMap := m\<rparr>)"
      "committed ?x (Interfaces t) ts (macPoolMap p) m"
    using MarkVMAsReady_commits [OF assms(3,1,2) pend(1)] by blast
  have "(\<forall>j. (k, ?x, j) \<in> holders m \<longleftrightarrow> uses_mac (Interfaces t) k j) \<and> settled m ?x k" for k
  proof (cases "ready_at (macPoolMap p) ?x ts k")
    case True
    with m(2) pend(2) show ?thesis unfolding committed_def by metis
  next
    case False
    then have same: "m k = macPoolMap p k" using m(2) by (simp add: committed_def)
    then have "(k, ?x, j) \<in> holders m \<longleftrightarrow> (k, ?x, j) \<in> holders (macPoolMap p)" for j by (rule holders_key)
    moreover have "settled m ?x k \<longleftrightarrow> settled (macPoolMap p) ?x k" by (simp add: settled_def same)
    moreover have "settled (macPoolMap p) ?x k" if "\<And>j. (k, ?x, j) \<notin> holders (macPoolMap p)"
      using that entries_of_Nil [of "macPoolMap p" k ?x] by (simp add: settled_entries_of)
    ultimately show ?thesis using False pend(2,3) by blast
  qed
  with m(1) show ?thesis unfolding in_step_def by blast
qed

subsection \<open>What the webhook leaves\<close>

lemma interface_macs_snoc:
  "interface_macs (ifaces @ [i]) = AList.update (iface_Name i) (iface_MacAddress i) (interface_macs ifaces)"
  by (simp add: interface_macs_def)

lemma map_of_interface_macs:
  assumes "distinct (map iface_Name ifaces)"
  shows "map_of (interface_macs ifaces) j = Some s \<longleftrightarrow> (\<exists>i\<in>set ifaces. iface_Name i = j \<and> iface_MacAddress i = s)"
  using assms
proof (induction ifaces rule: rev_induct)
  case Nil
  then show ?case by (simp add: interface_macs_def)
next
  case (snoc i ifaces)
  from snoc.prems have "\<forall>i'\<in>set ifaces. iface_Name i' \<noteq> iface_Name i" by (auto simp: image_iff)
  with snoc show ?case by (auto simp: interface_macs_snoc update_conv')
qed

lemma stamped_entries_stamping:
  "(k, e) \<in> stamped_entries (snd (updateMacTransactionTimestampForUpdatedMacs m inst ts macs)) \<Longrightarrow>
     (k, e) \<in> stamped_entries m \<or> k \<in> NewMacKey ` set macs"
proof (induction macs arbitrary: m)
  case (Cons mac macs)
  show ?case
  proof (cases "findByMacAddressAndInstanceName m mac inst")
    case (Inr r)
    then obtain e' i where r: "findByMacAddressAndInstanceName m mac inst = Inr (e', i)" by (cases r) auto
    have "(k, e) \<in> stamped_entries (store_entry m mac i (setTransaction e' ts)) \<Longrightarrow>
        (k, e) \<in> stamped_entries m \<or> k = NewMacKey mac"
      by (auto simp: stamped_entries_def store_entry_def split: if_splits)
    with Cons.IH [of "store_entry m mac i (setTransaction e' ts)"] Cons.prems r show ?thesis by auto
  qed (use Cons.prems in simp)
qed simp

lemma stamped_entries_reserve_all: "stamped_entries (pool_store.reserve_all i xs m) \<subseteq> stamped_entries m"
proof (induction xs arbitrary: m)
  case (Cons x xs)
  obtain j mac where x: "x = (j, mac)" by (cases x)
  show ?case using Cons.IH [of "createOrUpdateEntry m mac i j"] stamped_createOrUpdateEntry [of m mac i j] by (auto simp: x)
qed simp

lemma stamped_entries_update:
  assumes "range_order ord" "(k, e) \<in> stamped_entries (macPoolMap (stamp_update ord vm ts u q))"
  shows "(k, e) \<in> stamped_entries (macPoolMap q) \<or> k \<in> NewMacKey ` all_values u"
proof -
  have one: "(k, e) \<in> stamped_entries (macPoolMap (set_transaction_timestamps ord inst ts al q)) \<Longrightarrow>
      (k, e) \<in> stamped_entries (macPoolMap q) \<or> k \<in> NewMacKey ` snd ` set al" for inst al q
    using stamped_entries_stamping [of k e "macPoolMap q" inst ts "map snd (ord al)"] range_order_set [OF assms(1), of al]
    by (simp add: set_transaction_timestamps_def)
  show ?thesis using assms(2) unfolding all_values_def by (blast dest!: one)
qed

lemma settled_stamped_entries: "settled m x k \<longleftrightarrow> (\<forall>e. (k, e) \<in> stamped_entries m \<longrightarrow> instanceName e \<noteq> x)"
  by (auto simp: settled_def stamped_entries_def)

text \<open>Where nothing is to be reserved, the interface keeps the address of its predecessor.\<close>

lemma kept_iface:
  assumes "iface_updated p (map_of (interface_macs ifaces)) i i'" "\<not> needs_reservation (map_of (interface_macs ifaces)) i"
    and "distinct (map iface_Name ifaces)"
  shows "uses_mac ifaces (mac_key i') (iface_Name i')"
proof -
  obtain c where c: "map_of (interface_macs ifaces) (iface_Name i) = Some c"
    using assms(2) by (auto simp: needs_reservation_def split: option.splits)
  then obtain i0 where i0: "i0 \<in> set ifaces" "iface_Name i0 = iface_Name i" "iface_MacAddress i0 = c"
    using map_of_interface_macs [OF assms(3)] by blast
  have "iface_Name i' = iface_Name i" "mac_key i' = NewMacKey c"
    using assms(1,2) c NewMacKey_again [of "iface_MacAddress i"]
    by (auto simp: iface_updated_def needs_reservation_def mac_key_def split: if_splits)
  with i0 show ?thesis by (auto simp: uses_mac_def)
qed

text \<open>
  What an admitted update of the machine leaves: the transaction towards its new interfaces is pending. No two
  interfaces of a version share an address, and no address moves from one interface to another.
\<close>

definition no_move :: "vm_interface list \<Rightarrow> vm_interface list \<Rightarrow> bool" where
  "no_move old new \<longleftrightarrow> distinct (map iface_Name old) \<and> distinct (map mac_key old) \<and> distinct (map mac_key new) \<and>
     (\<forall>i\<in>set old. \<forall>i'\<in>set new. mac_key i = mac_key i' \<longrightarrow> iface_Name i = iface_Name i')"

lemma no_move_single:
  assumes "no_move old new" "\<And>k j. (k, x, j) \<in> holders m \<Longrightarrow> uses_mac old k j \<or> uses_mac new k j"
  shows "single_holder m x"
proof -
  have inj: "distinct (map mac_key is) \<Longrightarrow> i \<in> set is \<Longrightarrow> i' \<in> set is \<Longrightarrow> mac_key i = mac_key i' \<Longrightarrow> i = i'" for "is" i i'
    by (auto simp: distinct_map dest: inj_onD)
  have "j = j'" if "uses_mac old k j \<or> uses_mac new k j" "uses_mac old k j' \<or> uses_mac new k j'" for k j j'
    using that assms(1) unfolding uses_mac_key no_move_def by (metis inj)
  with assms(2) show ?thesis unfolding single_holder_def by blast
qed

text \<open>The state after a successful update from the interfaces \<open>old\<close>, asked for \<open>req\<close> and given \<open>new\<close>.\<close>

definition update_done ::
    "vm_interface list \<Rightarrow> vm_interface list \<Rightarrow> vm_interface list \<Rightarrow> string \<Rightarrow> time \<Rightarrow> pool_manager \<Rightarrow> pool_manager \<Rightarrow> bool" where
  "update_done old req new x ts p p' \<longleftrightarrow>
     list_all2 (iface_updated p (map_of (interface_macs old))) req new \<and>
     holders (macPoolMap p') = holders (macPoolMap p) \<union> {(mac_key i', x, iface_Name i) | i i'.
        (i, i') \<in> set (zip req new) \<and> needs_reservation (map_of (interface_macs old)) i} \<and>
     (\<forall>(i, i')\<in>set (zip req new). needs_reservation (map_of (interface_macs old)) i \<longrightarrow>
        ready_at (macPoolMap p') x ts (mac_key i')) \<and>
     (\<forall>i0\<in>set old. ready_at (macPoolMap p') x ts (mac_key i0) \<or>
        (\<exists>i\<in>set req. iface_Name i = iface_Name i0 \<and> \<not> needs_reservation (map_of (interface_macs old)) i)) \<and>
     (\<forall>k. settled (macPoolMap p) x k \<longrightarrow> ready_at (macPoolMap p') x ts k \<or> settled (macPoolMap p') x k)"

lemma all_values_old:
  assumes d: "distinct (map iface_Name req)" "length new = length req"
    and u: "u = advance_all (map_of (interface_macs old)) (zip req new)
      \<lparr>upd_newAllocations = [], upd_releaseOldAllocations = [], upd_deltaInterfacesMap = interface_macs old\<rparr>"
    and "distinct (map iface_Name old)" "i0 \<in> set old"
  shows "iface_MacAddress i0 \<in> all_values u \<or>
     (\<exists>i\<in>set req. iface_Name i = iface_Name i0 \<and> \<not> needs_reservation (map_of (interface_macs old)) i)"
proof -
  have i0: "map_of (interface_macs old) (iface_Name i0) = Some (iface_MacAddress i0)"
    using assms(5) by (auto simp: map_of_interface_macs [OF assms(4)])
  consider "iface_Name i0 \<notin> iface_Name ` set req" | i where "i \<in> set req" "iface_Name i = iface_Name i0" by (metis imageE)
  then show ?thesis
  proof cases
    case 1
    then show ?thesis using all_values_cover(3) [OF d u i0] by simp
  next
    case (2 i)
    then show ?thesis using all_values_cover(2) [OF d u 2(1)] i0 by auto
  qed
qed

lemma update_done:
  assumes "vm_Template previous = Some prev" "vm_Template vm = Some t" "pool_ok p" "range_order ord"
    and "UpdateMacAddressesForVirtualMachine ord (Some previous) vm (Some ts) True p = Ret (None, set_interfaces ifaces vm, p')"
    and "distinct (map iface_Name (Interfaces prev))"
    and held: "\<And>i. i \<in> set (Interfaces prev) \<Longrightarrow> \<exists>j. (mac_key i, VmNamespaced vm, j) \<in> holders (macPoolMap p)"
  shows "update_done (Interfaces prev) (Interfaces t) ifaces (VmNamespaced vm) ts p p'"
  using assms(1-3,5)
proof (rule UpdateMacAddressesForVirtualMachine_success)
  let ?x = "VmNamespaced vm" and ?cur = "map_of (interface_macs (Interfaces prev))"
  fix ifaces' u p1
  assume set: "set_interfaces ifaces vm = set_interfaces ifaces' vm" and p': "p' = stamp_update ord vm (Some ts) u p1"
    and d: "distinct (map iface_Name (Interfaces t))"
    and l2': "list_all2 (iface_updated p ?cur) (Interfaces t) ifaces'"
    and u': "u = advance_all ?cur (zip (Interfaces t) ifaces') \<lparr>upd_newAllocations = [], upd_releaseOldAllocations = [],
           upd_deltaInterfacesMap = interface_macs (Interfaces prev)\<rparr>"
    and p1': "macPoolMap p1 = pool_store.reserve_all ?x (new_reservations ?cur (zip (Interfaces t) ifaces')) (macPoolMap p)"
  have eq: "ifaces' = ifaces" using set unfolding set_interfaces_inject [OF assms(2)] by (rule sym)
  note l2 = l2' [unfolded eq] and u = u' [unfolded eq] and p1 = p1' [unfolded eq]
  note cur = map_of_interface_macs [OF assms(6)]
  note cover = all_values_cover [OF d list_all2_lengthD [OF l2, symmetric] u]
  have old: "\<exists>j'. (NewMacKey s, ?x, j') \<in> holders (macPoolMap p)" if "?cur j = Some s" for j s
    using that held by (auto simp: cur mac_key_def)
  have stamped: "ready_at (macPoolMap p') ?x ts (NewMacKey s)" if "s \<in> all_values u" for s
    unfolding p' by (rule stamped_ready, rule stamp_update_all [OF assms(4) old l2 u p1 that])
  show ?thesis
    unfolding update_done_def
  proof (intro conjI allI impI ballI)
    show "list_all2 (iface_updated p ?cur) (Interfaces t) ifaces" by (fact l2)
    show "holders (macPoolMap p') = holders (macPoolMap p) \<union> {(mac_key i', ?x, iface_Name i) | i i'.
        (i, i') \<in> set (zip (Interfaces t) ifaces) \<and> needs_reservation ?cur i}"
      by (auto simp: p' p1 pool_store.rel_reserve_all mem_new_reservations mac_key_def)
    show "case z of (i, i') \<Rightarrow> needs_reservation ?cur i \<longrightarrow> ready_at (macPoolMap p') ?x ts (mac_key i')"
      if "z \<in> set (zip (Interfaces t) ifaces)" for z
      using that cover(1) stamped by (auto simp: mac_key_def)
    show "ready_at (macPoolMap p') ?x ts (mac_key i0) \<or> (\<exists>i\<in>set (Interfaces t). iface_Name i = iface_Name i0 \<and> \<not> needs_reservation ?cur i)"
      if "i0 \<in> set (Interfaces prev)" for i0
      using all_values_old [OF d list_all2_lengthD [OF l2, symmetric] u assms(6) that] stamped by (auto simp: mac_key_def)
    show "ready_at (macPoolMap p') ?x ts k \<or> settled (macPoolMap p') ?x k" if "settled (macPoolMap p) ?x k" for k
    proof (cases "k \<in> NewMacKey ` all_values u")
      case True
      then show ?thesis using stamped by blast
    next
      case False
      then show ?thesis
        using that stamped_entries_update [OF assms(4)] stamped_entries_reserve_all
        unfolding settled_stamped_entries p' p1 by (metis (no_types, lifting) p1 subsetD)
    qed
  qed
qed

lemma update_done_iface:
  assumes "update_done old req new x ts p p'" "distinct (map iface_Name old)" "(i, i') \<in> set (zip req new)"
  shows "iface_Name i' = iface_Name i"
    and "\<not> needs_reservation (map_of (interface_macs old)) i \<Longrightarrow> uses_mac old (mac_key i') (iface_Name i')"
proof -
  have up: "iface_updated p (map_of (interface_macs old)) i i'" using assms(1,3) by (auto simp: update_done_def list_all2_iff)
  then show "iface_Name i' = iface_Name i" by (auto simp: iface_updated_def split: if_splits option.splits)
  show "\<not> needs_reservation (map_of (interface_macs old)) i \<Longrightarrow> uses_mac old (mac_key i') (iface_Name i')"
    using up _ assms(2) by (rule kept_iface)
qed

lemma update_done_holders:
  assumes "update_done old req new x ts p p'" "in_step (macPoolMap p) x old" "distinct (map iface_Name old)"
  shows "(k, x, j) \<in> holders (macPoolMap p') \<longleftrightarrow> uses_mac old k j \<or>
     (\<exists>i i'. (i, i') \<in> set (zip req new) \<and> needs_reservation (map_of (interface_macs old)) i \<and> k = mac_key i' \<and> j = iface_Name i')"
proof -
  have "holders (macPoolMap p') = holders (macPoolMap p) \<union> {(mac_key i', x, iface_Name i) | i i'.
      (i, i') \<in> set (zip req new) \<and> needs_reservation (map_of (interface_macs old)) i}" using assms(1) by (simp add: update_done_def)
  then have "(k, x, j) \<in> holders (macPoolMap p') \<longleftrightarrow> uses_mac old k j \<or>
      (\<exists>i i'. (i, i') \<in> set (zip req new) \<and> needs_reservation (map_of (interface_macs old)) i \<and> k = mac_key i' \<and> j = iface_Name i)"
    using assms(2) by (simp add: in_step_def) blast
  then show ?thesis using update_done_iface(1) [OF assms(1,3)] by metis
qed

lemma update_pending:
  assumes "update_done old req new x ts p p'" "in_step (macPoolMap p) x old" "no_move old new"
  shows "pending (macPoolMap p') x new ts"
proof -
  let ?cur = "map_of (interface_macs old)"
  have len: "length req = length new" using assms(1) by (simp add: update_done_def list_all2_iff)
  have upd: "\<And>i i'. (i, i') \<in> set (zip req new) \<Longrightarrow> needs_reservation ?cur i \<Longrightarrow> ready_at (macPoolMap p') x ts (mac_key i')"
    "\<And>i0. i0 \<in> set old \<Longrightarrow> ready_at (macPoolMap p') x ts (mac_key i0) \<or>
       (\<exists>i\<in>set req. iface_Name i = iface_Name i0 \<and> \<not> needs_reservation ?cur i)"
    "\<And>k. ready_at (macPoolMap p') x ts k \<or> settled (macPoolMap p') x k"
    using assms(1,2) unfolding update_done_def in_step_def by blast+
  have names: "distinct (map iface_Name old)" using assms(3) by (simp add: no_move_def)
  note i' = update_done_iface [OF assms(1) names] and held = update_done_holders [OF assms(1,2) names]
  have pair: "\<exists>i. (i, i') \<in> set (zip req new)" if "i' \<in> set new" for i'
    using that len by (auto simp: in_set_conv_nth set_zip)
  have pair': "\<exists>i'. (i, i') \<in> set (zip req new)" if "i \<in> set req" for i
    using that len by (auto simp: in_set_conv_nth set_zip)
  show ?thesis
    unfolding pending_def
  proof (intro conjI allI impI)
    show "single_holder (macPoolMap p') x"
      using assms(3) by (rule no_move_single) (auto simp: held uses_mac_key dest: set_zip_rightD)
    show "(k, x, j) \<in> holders (macPoolMap p')" if "uses_mac new k j" for k j
      using that pair i' unfolding held uses_mac_key by metis
    show "ready_at (macPoolMap p') x ts k \<or> uses_mac new k j \<and> settled (macPoolMap p') x k"
      if "(k, x, j) \<in> holders (macPoolMap p')" for k j
    proof (cases "ready_at (macPoolMap p') x ts k")
      case False
      with that upd(1) obtain i0 where i0: "i0 \<in> set old" "mac_key i0 = k" "iface_Name i0 = j"
        unfolding held uses_mac_key by blast
      with False upd(2) obtain i i' where i: "(i, i') \<in> set (zip req new)" "iface_Name i = j" "\<not> needs_reservation ?cur i"
        using pair' by metis
      obtain i1 where "i1 \<in> set old" "mac_key i1 = mac_key i'" "iface_Name i1 = j"
        using i'[OF i(1)] i(2,3) unfolding uses_mac_key by metis
      moreover from this(1,3) i0 have "i1 = i0" using assms(3) by (auto simp: no_move_def distinct_map dest: inj_onD)
      ultimately have "uses_mac new k j"
        using i0(2) i(1,2) i'(1) [OF i(1)] unfolding uses_mac_key by (metis set_zip_rightD)
      with False upd(3) show ?thesis by blast
    qed simp
  qed
qed

subsection \<open>From the admission of an update to its commit\<close>

text \<open>An update of a stored machine that changes its interfaces is admitted.\<close>

definition update_admitted ::
    "world \<Rightarrow> virtual_machine admission_request \<Rightarrow> virtual_machine \<Rightarrow> vm_template \<Rightarrow> vm_template \<Rightarrow> pool_manager \<Rightarrow>
     admission_response \<Rightarrow> pool_manager \<Rightarrow> bool" where
  "update_admitted w req vm old t p resp p' \<longleftrightarrow>
     areq_Object req = Inr vm \<and> areq_Operation req = Update \<and> is_not_dry_run req \<and>
     vm_Template vm = Some t \<and> \<not> vm_DeletionTimestamp vm \<and> w_format w (w_now w) \<noteq> [] \<and>
     (\<exists>previous. get_vm (w_kube w) (vm_Namespace (prepared_vm req vm)) (vm_Name vm) = Inr previous \<and>
        vm_Template previous = Some old) \<and> Interfaces t \<noteq> Interfaces old \<and>
     Handle_vm (w_ord w) (w_format w) (w_now w) (get_vm (w_kube w)) req p = Ret (resp, p') \<and> resp_Allowed resp"

lemma update_admitted_done:
  assumes "update_admitted w req vm old t p resp p'" "sys_ok p" "world_ok w"
    and names: "distinct (map iface_Name (Interfaces old))"
    and held: "\<And>i. i \<in> set (Interfaces old) \<Longrightarrow> \<exists>j. (mac_key i, VmNamespaced (prepared_vm req vm), j) \<in> holders (macPoolMap p)"
  obtains stored ifaces where "apply_patch apply_op_vm (resp_Patches resp) vm = Some stored"
    "vm_Template stored = Some (t\<lparr>Interfaces := ifaces\<rparr>)"
    "lookup_nil (vm_Annotations stored) TransactionTimestampAnnotation = Some (w_format w (w_now w))"
    "update_done (Interfaces old) (Interfaces t) ifaces (VmNamespaced (prepared_vm req vm)) (w_now w) p p'"
proof -
  let ?s = "w_format w (w_now w)"
  obtain previous where req: "areq_Object req = Inr vm" "areq_Operation req = Update" "is_not_dry_run req"
      "vm_Template vm = Some t" "\<not> vm_DeletionTimestamp vm" "?s \<noteq> []"
      "get_vm (w_kube w) (vm_Namespace (prepared_vm req vm)) (vm_Name vm) = Inr previous"
      "vm_Template previous = Some old" "Interfaces t \<noteq> Interfaces old"
      "Handle_vm (w_ord w) (w_format w) (w_now w) (get_vm (w_kube w)) req p = Ret (resp, p')" "resp_Allowed resp"
    using assms(1) unfolding update_admitted_def by blast
  have ok: "pool_ok p" "range_order (w_ord w)" using assms(2,3) by (auto simp: sys_ok_def world_ok_def)
  obtain a where a: "vm_Annotations (prepared_vm req vm) = Some a" using prepared_vm_facts(1) by blast
  define vm1 where "vm1 = (prepared_vm req vm)\<lparr>vm_Annotations := Some (AList.update TransactionTimestampAnnotation ?s a)\<rparr>"
  have t: "vm_Template vm1 = Some t" "VmNamespaced vm1 = VmNamespaced (prepared_vm req vm)"
    by (simp_all add: vm1_def prepared_vm_facts req(4))
  obtain e vm' q where alloc: "UpdateMacAddressesForVirtualMachine (w_ord w) (Some previous) vm1 (Some (w_now w)) True p = Ret (e, vm', q)"
    using UpdateMacAddressesForVirtualMachine_framed [OF req(8) t(1) ok(1)] by blast
  have changed: "isVirtualMachineChanged previous (prepared_vm req vm) = (True, previous, prepared_vm req vm)"
    using req(4,8,9) by (auto simp: isVirtualMachineChanged_def isVirtualMachineSpecChanged_def prepared_vm_facts)
  have "SetTransactionTimestampAnnotationToVm (w_format w) (prepared_vm req vm) (w_now w) = Ret vm1"
    by (simp add: SetTransactionTimestampAnnotationToVm_def a vm1_def)
  moreover have "isVirtualMachineInterfacesChanged previous vm1 = Ret True"
    using req(9) by (auto simp: isVirtualMachineInterfacesChanged_def getVirtualMachineInterfaces_def req(8) t(1))
  ultimately have "mutateUpdateVirtualMachinesFn (w_ord w) (w_format w) (w_now w) (get_vm (w_kube w)) (prepared_vm req vm) True p =
      Ret (e, vm', q)"
    using req(7) changed alloc by (simp add: mutateUpdateVirtualMachinesFn_def prepared_vm_facts)
  then have handle: "Handle_vm (w_ord w) (w_format w) (w_now w) (get_vm (w_kube w)) req p = (case e of
      Some err \<Rightarrow> Ret (Errored 500 (ErrWrap ''Failed to update virtual machine allocation error'' err), q)
    | None \<Rightarrow> bind_run (patchVMChanges vm vm') (\<lambda>resp. Ret (resp, q)))"
    using req(1-4) by (simp add: Handle_vm_def Let_def prepared_vm_facts)
  have none: "e = None" using handle req(10,11) by (cases e) auto
  obtain ifaces where i: "vm' = set_interfaces ifaces vm1"
    using UpdateMacAddressesForVirtualMachine_success [OF req(8) t(1) ok(1) alloc [unfolded none]] by metis
  have "only_macs vm1 vm'" using UpdateMacAddressesForVirtualMachine_only_macs [OF req(8) t(1) ok(1) alloc] .
  with patchVMChanges_stores [OF req(4-6) vm1_def, of ifaces] obtain ops stored where
    st: "patchVMChanges vm vm' = Ret (patched ops)" "apply_patch apply_op_vm ops vm = Some stored"
    "vm_Template stored = Some (t\<lparr>Interfaces := ifaces\<rparr>)"
    "lookup_nil (vm_Annotations stored) TransactionTimestampAnnotation = Some ?s" by (auto simp: i)
  have resp: "resp = patched ops" "p' = q" using handle req(10) none st(1) by auto
  have "update_done (Interfaces old) (Interfaces t) ifaces (VmNamespaced vm1) (w_now w) p q"
    by (rule update_done [OF req(8) t(1) ok alloc [unfolded none i] names held [folded t(2)]])
  then show thesis using that st resp t(2) by simp
qed

text \<open>C10: The life of an update: when the pool holds exactly the addresses of the stored machine, and an update of its
  interfaces is admitted, then already with the admission every address is reserved that the old or the new
  version uses. After any events that do not concern the machine, the controller reconciles the newly stored
  object, and then the pool holds exactly its addresses, none of them in a transaction: what was replaced or dropped
  is free again. Asked for: no two interfaces of a version share an address and none moves from one interface to another,
  the namespace is managed, and reading a printed timestamp gives it back.\<close>

theorem update_lifecycle:
  assumes "reachable p" "world_ok w" "event_ok w (AdmitVm req)" "update_admitted w req vm old t p resp p1"
    and "x = VmNamespaced (prepared_vm req vm)" "in_step (macPoolMap p) x (Interfaces old)"
    and "apply_patch apply_op_vm (resp_Patches resp) vm = Some stored" "vm_Template stored = Some t'"
    and "no_move (Interfaces old) (Interfaces t')"
    and "quiet x p1 ls p2" "world_ok w'" "read_vm (w_vms w') rq = Inr vm'" "\<not> vm_DeletionTimestamp vm'"
    and "VmNamespaced vm' = x" "vm_Template vm' = Some t'"
    and "lookup_nil (vm_Annotations vm') TransactionTimestampAnnotation =
       lookup_nil (vm_Annotations stored) TransactionTimestampAnnotation"
    and "IsVirtualMachineManaged (w_kube w') (request_Namespace rq) = Inr True"
    and "w_parse w' (w_format w (w_now w)) = Inr (w_now w)"
  shows "(\<forall>k j. uses_mac (Interfaces old) k j \<or> uses_mac (Interfaces t') k j \<longrightarrow> (k, x, j) \<in> holders (macPoolMap p2)) \<and>
     (\<exists>p3. exec w' (ReconcileVm rq) p2 = Ret p3 \<and> in_step (macPoolMap p3) x (Interfaces t'))"
proof -
  have held: "\<exists>j. (mac_key i, x, j) \<in> holders (macPoolMap p)" if "i \<in> set (Interfaces old)" for i
    using assms(6) that by (auto simp: in_step_def uses_mac_key)
  have names: "distinct (map iface_Name (Interfaces old))" using assms(9) by (simp add: no_move_def)
  obtain ifaces where t': "t' = t\<lparr>Interfaces := ifaces\<rparr>"
      "lookup_nil (vm_Annotations stored) TransactionTimestampAnnotation = Some (w_format w (w_now w))"
      and upd: "update_done (Interfaces old) (Interfaces t) ifaces x (w_now w) p p1"
    using update_admitted_done [OF assms(4) reachable_sys_ok [OF assms(1)] assms(2) names held [unfolded assms(5)]] assms(5,7,8)
    by (metis option.inject)
  have "pending (macPoolMap p1) x (Interfaces t') (w_now w)"
    using update_pending [OF upd assms(6)] assms(9) by (simp add: t'(1))
  moreover have "exec w (AdmitVm req) p = Ret p1" using assms(4) by (simp add: update_admitted_def)
  with assms(1-3) have "reachable p1" by (blast intro: step.handle reachable.next_step)
  with quiet_keeps [OF assms(10)] have p2: "sys_ok p2" "entries_kept x (macPoolMap p1) (macPoolMap p2)"
    by (auto intro: reachable_sys_ok)
  ultimately have pend: "pending (macPoolMap p2) x (Interfaces t') (w_now w)" using pending_kept by blast
  have "(k, x, j) \<in> holders (macPoolMap p2)" if "uses_mac (Interfaces old) k j" for k j
    unfolding entries_kept_holders [OF p2(2)] using upd assms(6) that by (auto simp: update_done_def in_step_def)
  moreover have "(k, x, j) \<in> holders (macPoolMap p2)" if "uses_mac (Interfaces t') k j" for k j
    using pend that by (simp add: pending_def)
  moreover have "macMap_ok (macPoolMap p2)" "key_order (w_key_ord w')"
    using p2(1) assms(11) by (auto simp: sys_ok_def pool_ok_def world_ok_def)
  from commit_pending [OF this assms(15), unfolded assms(14), OF pend]
  obtain m where m: "MarkVMAsReady (w_key_ord w') vm' (w_now w) p2 = Ret (None, p2\<lparr>macPoolMap := m\<rparr>)"
      "in_step m x (Interfaces t')" by blast
  have "GetTransactionTimestampAnnotationFromVm (w_parse w') vm' = Inr (w_now w)"
    using assms(16,18) t'(2) by (simp add: GetTransactionTimestampAnnotationFromVm_def)
  with m(1) assms(12,13,17) have "exec w' (ReconcileVm rq) p2 = Ret (p2\<lparr>macPoolMap := m\<rparr>)"
    by (simp add: Reconcile_vm_def IsVirtualMachineDeletionInProgress_def)
  with m(2) have "\<exists>p3. exec w' (ReconcileVm rq) p2 = Ret p3 \<and> in_step (macPoolMap p3) x (Interfaces t')" by simp
  ultimately show ?thesis by blast
qed

text \<open>The machine of \<open>reachable_other\<close> gets another address.\<close>

definition renamed_vm :: virtual_machine where
  "renamed_vm = set_interfaces [sample_iface\<lparr>iface_MacAddress := ''02:00:00:00:00:02''\<rparr>] (sample_vm\<lparr>vm_Name := ''vm0''\<rparr>)"

definition renaming_request :: "virtual_machine admission_request" where
  "renaming_request = \<lparr>areq_Operation = Update, areq_Namespace = ''default'', areq_DryRun = None, areq_Object = Inr renamed_vm\<rparr>"

definition renaming_world :: world where
  "renaming_world = sample_world\<lparr>w_kube := managed_kube\<lparr>get_vm := \<lambda>ns n.
     if ns = ''default'' \<and> n = ''vm0'' then Inr other_vm else Inl NotFound\<rparr>\<rparr>"

definition renamed_world :: world where
  "renamed_world = sample_world\<lparr>w_vms := \<lparr>read_vm = \<lambda>req. if req = \<lparr>request_Namespace = ''default'', request_Name = ''vm0''\<rparr>
         then Inr (renamed_vm\<lparr>vm_Annotations := Some [(TransactionTimestampAnnotation, ''t'')]\<rparr>) else Inl NotFound,
       reread_vm = \<lambda>_. Inl NotFound, update_vm = \<lambda>_ _. None\<rparr>\<rparr>"

lemma world_ok_kube: "world_ok w \<Longrightarrow> kube_vm_ok k \<Longrightarrow> world_ok (w\<lparr>w_kube := k\<rparr>)"
  unfolding world_ok_def by fastforce

lemma world_ok_vms:
  "world_ok w \<Longrightarrow> (\<And>req vm. read_vm c req = Inr vm \<Longrightarrow> vm_Template vm \<noteq> None \<and>
     vm_Namespace vm = request_Namespace req \<and> vm_Name vm = request_Name req) \<Longrightarrow> world_ok (w\<lparr>w_vms := c\<rparr>)"
  unfolding world_ok_def by fastforce

abbreviation br1_with :: "string \<Rightarrow> vm_template" where
  "br1_with mac \<equiv> sample_template\<lparr>Interfaces := [sample_iface\<lparr>iface_MacAddress := mac\<rparr>]\<rparr>"

lemma renaming_vms:
  "vm_Name other_vm = ''vm0''" "vm_Namespace other_vm = ''default''" "vm_Template other_vm = Some (br1_with ''02:00:00:00:00:01'')"
  "vm_Name renamed_vm = ''vm0''" "vm_Namespace renamed_vm = ''default''" "vm_Template renamed_vm = Some (br1_with ''02:00:00:00:00:02'')"
  "vm_Annotations renamed_vm = Some []" "\<not> vm_DeletionTimestamp renamed_vm"
  by (simp_all add: other_vm_def renamed_vm_def set_interfaces_def sample_vm_def)

lemma renaming_worlds_ok: "world_ok renaming_world" "world_ok renamed_world"
  unfolding renaming_world_def renamed_world_def
  by (rule world_ok_kube [OF sample_world_ok] world_ok_vms [OF sample_world_ok],
      auto simp: kube_vm_ok_def renaming_vms split: if_splits)+

lemma renaming_update:
  "\<exists>p'. UpdateMacAddressesForVirtualMachine (\<lambda>xs. xs) (Some other_vm) (renamed_vm\<lparr>vm_Annotations := a\<rparr>) (Some 5) True p =
     Ret (None, renamed_vm\<lparr>vm_Annotations := a\<rparr>, p')"
proof -
  have parse: "ParseMAC ''02:00:00:00:00:02'' = Inr [2, 0, 0, 0, 0, 2]"
    using ParseMAC_hw_String [of "[2, 0, 0, 0, 0, 2]"] by (simp add: hex2_def hexDigit_def hw_length_ok_def hw_lengths_def)
  then have key: "macKey_String (NewMacKey ''02:00:00:00:00:02'') = ''02:00:00:00:00:02''"
    by (simp add: NewMacKey_def hex2_def hexDigit_def)
  show ?thesis
    by (simp add: UpdateMacAddressesForVirtualMachine_def getVirtualMachineInterfaces_def check_vm_def
          checkIntraVMDuplicateMACs_def checkVmForInterfaceDuplication_def other_vm_def renamed_vm_def set_interfaces_def
          sample_template_def sample_iface_def interface_macs_def Let_def allocateRequestedVirtualMachineInterfaceMac_def parse key)
qed

lemma renaming_admitted:
  "\<exists>resp p'. update_admitted renaming_world renaming_request renamed_vm (br1_with ''02:00:00:00:00:01'') (br1_with ''02:00:00:00:00:02'')
     p resp p'"
proof -
  let ?vm = "renamed_vm\<lparr>vm_Annotations := Some [(TransactionTimestampAnnotation, ''t'')]\<rparr>"
  have prep: "prepared_vm renaming_request renamed_vm = renamed_vm"
    by (simp add: prepared_vm_def renaming_vms)
  have w: "w_ord renaming_world = (\<lambda>xs. xs)" "w_format renaming_world = (\<lambda>_. ''t'')" "w_now renaming_world = 5"
    "get_vm (w_kube renaming_world) ''default'' ''vm0'' = Inr other_vm"
    by (simp_all add: renaming_world_def sample_world_def)
  obtain q where q: "UpdateMacAddressesForVirtualMachine (\<lambda>xs. xs) (Some other_vm) ?vm (Some 5) True p = Ret (None, ?vm, q)"
    using renaming_update by blast
  have req: "areq_Object renaming_request = Inr renamed_vm" "areq_Operation renaming_request = Update"
    "is_not_dry_run renaming_request"
    by (simp_all add: renaming_request_def is_not_dry_run_def)
  have differ: "br1_with ''02:00:00:00:00:02'' \<noteq> br1_with ''02:00:00:00:00:01''"
    "sample_iface\<lparr>iface_MacAddress := ''02:00:00:00:00:01''\<rparr> \<noteq> sample_iface\<lparr>iface_MacAddress := ''02:00:00:00:00:02''\<rparr>"
    by (simp_all add: sample_template_def sample_iface_def)
  then have "mutateUpdateVirtualMachinesFn (\<lambda>xs. xs) (\<lambda>_. ''t'') 5 (get_vm (w_kube renaming_world)) renamed_vm True p = Ret (None, ?vm, q)"
    using q by (simp add: mutateUpdateVirtualMachinesFn_def renaming_vms w isVirtualMachineChanged_def isVirtualMachineSpecChanged_def
        SetTransactionTimestampAnnotationToVm_def isVirtualMachineInterfacesChanged_def getVirtualMachineInterfaces_def)
  moreover obtain ops where "patchVMChanges renamed_vm ?vm = Ret (patched ops)"
    using patchVMChanges_variant [of renamed_vm ?vm] by (auto simp: mac_variant_refl renaming_vms)
  ultimately have "Handle_vm (w_ord renaming_world) (w_format renaming_world) (w_now renaming_world) (get_vm (w_kube renaming_world))
      renaming_request p = Ret (patched ops, q)"
    by (simp add: Handle_vm_def prep w Let_def renaming_vms req)
  then show ?thesis
    using differ by (intro exI [of _ "patched ops"] exI [of _ q]) (simp add: update_admitted_def w prep renaming_vms req)
qed

theorem update_lifecycle_witness:
  "\<exists>p p1 p3. in_step (macPoolMap p) ''vm/default/vm0'' [sample_iface\<lparr>iface_MacAddress := ''02:00:00:00:00:01''\<rparr>] \<and>
     exec renaming_world (AdmitVm renaming_request) p = Ret p1 \<and>
     exec renamed_world (ReconcileVm \<lparr>request_Namespace = ''default'', request_Name = ''vm0''\<rparr>) p1 = Ret p3 \<and>
     in_step (macPoolMap p3) ''vm/default/vm0'' [sample_iface\<lparr>iface_MacAddress := ''02:00:00:00:00:02''\<rparr>]"
proof -
  let ?old = "br1_with ''02:00:00:00:00:01''" and ?new = "br1_with ''02:00:00:00:00:02''"
  obtain m g where m: "reachable (sample_with True m g)" "holders m = {(other_key, ''vm/default/vm0'', ''br1'')}" "stamped_entries m = {}"
    by (rule reachable_other)
  let ?p = "sample_with True m g"
  have x: "''vm/default/vm0'' = VmNamespaced (prepared_vm renaming_request renamed_vm)"
    by (simp add: prepared_vm_def renaming_vms VmNamespaced_def)
  have step: "in_step (macPoolMap ?p) ''vm/default/vm0'' (Interfaces ?old)"
    using m(2,3) by (auto simp: in_step_def settled_stamped_entries uses_mac_def other_key_def sample_iface_def)
  obtain resp p1 where adm: "update_admitted renaming_world renaming_request renamed_vm ?old ?new ?p resp p1"
    using renaming_admitted by blast
  obtain stored ifaces where st: "apply_patch apply_op_vm (resp_Patches resp) renamed_vm = Some stored"
      "vm_Template stored = Some (?new\<lparr>Interfaces := ifaces\<rparr>)"
      "lookup_nil (vm_Annotations stored) TransactionTimestampAnnotation = Some (w_format renaming_world (w_now renaming_world))"
      and upd: "update_done (Interfaces ?old) (Interfaces ?new) ifaces ''vm/default/vm0'' (w_now renaming_world) ?p p1"
  proof (rule update_admitted_done [OF adm reachable_sys_ok [OF m(1)] renaming_worlds_ok(1), folded x])
    show "\<exists>j. (mac_key i, ''vm/default/vm0'', j) \<in> holders (macPoolMap ?p)" if "i \<in> set (Interfaces ?old)" for i
      using step that by (auto simp: in_step_def uses_mac_key)
  qed simp_all
  have "ifaces = Interfaces ?new"
    using upd by (auto simp: update_done_def iface_updated_def list_all2_Cons1)
  then have t': "vm_Template stored = Some ?new" using st(2) by simp
  let ?rq = "\<lparr>request_Namespace = ''default'', request_Name = ''vm0''\<rparr>"
  let ?vm = "renamed_vm\<lparr>vm_Annotations := Some [(TransactionTimestampAnnotation, ''t'')]\<rparr>"
  have life: "(\<forall>k j. uses_mac (Interfaces ?old) k j \<or> uses_mac (Interfaces ?new) k j \<longrightarrow> (k, ''vm/default/vm0'', j) \<in> holders (macPoolMap p1)) \<and>
     (\<exists>p3. exec renamed_world (ReconcileVm ?rq) p1 = Ret p3 \<and> in_step (macPoolMap p3) ''vm/default/vm0'' (Interfaces ?new))"
  proof (rule update_lifecycle [OF m(1) renaming_worlds_ok(1) _ adm x step st(1) t' _ quiet_Nil renaming_worlds_ok(2)])
    show "event_ok renaming_world (AdmitVm renaming_request)"
      by (simp add: renaming_request_def prepared_vm_def renaming_vms)
    show "no_move (Interfaces ?old) (Interfaces ?new)" by (simp add: no_move_def)
    show "read_vm (w_vms renamed_world) ?rq = Inr ?vm" by (simp add: renamed_world_def)
    show "\<not> vm_DeletionTimestamp ?vm" "VmNamespaced ?vm = ''vm/default/vm0''" "vm_Template ?vm = Some ?new"
      by (simp_all add: renaming_vms VmNamespaced_def)
    show "IsVirtualMachineManaged (w_kube renamed_world) (request_Namespace ?rq) = Inr True"
      by (simp add: renamed_world_def sample_world_def)
    show "w_parse renamed_world (w_format renaming_world (w_now renaming_world)) = Inr (w_now renaming_world)"
      by (simp add: renamed_world_def renaming_world_def sample_world_def)
    show "lookup_nil (vm_Annotations ?vm) TransactionTimestampAnnotation = lookup_nil (vm_Annotations stored) TransactionTimestampAnnotation"
      unfolding st(3) by (simp add: lookup_nil_def renaming_world_def sample_world_def)
  qed
  have "Interfaces (br1_with mac) = [sample_iface\<lparr>iface_MacAddress := mac\<rparr>]" for mac by simp
  moreover have "exec renaming_world (AdmitVm renaming_request) ?p = Ret p1" using adm by (simp add: update_admitted_def)
  ultimately show ?thesis using step life by metis
qed

subsection \<open>After the deletion\<close>

text \<open>
  The events in which a controller finds its object gone. A pod is released only while its namespace is managed; a
  machine always.
\<close>

fun found_gone :: "world \<Rightarrow> event \<Rightarrow> string \<Rightarrow> bool" where
  "found_gone w (ReconcileVm rq) x \<longleftrightarrow> read_vm (w_vms w) rq = Inl NotFound \<and> x = VmNamespacedFromRequest rq"
| "found_gone w (ReconcilePod rq) x \<longleftrightarrow> w_pods w rq = Inl NotFound \<and> x = pod_request_name rq \<and>
     IsPodManaged (w_kube w) (request_Namespace rq) = Inr True"
| "found_gone w _ x \<longleftrightarrow> False"

lemma found_gone_releases: "found_gone w e x \<Longrightarrow> exec w e p = Ret (p\<lparr>macPoolMap := released (macPoolMap p) x\<rparr>)"
  by (cases e) (simp_all add: Reconcile_vm_def Reconcile_pod_def ReleaseAllVirtualMachineMacs_eq ReleaseAllPodMacs_eq
      pod_request_name_def)

text \<open>The addresses of a pod stay allocated when its namespace is no longer managed, or is gone as well.\<close>

lemma unmanaged_pod_not_released:
  assumes "IsPodManaged (w_kube w) (request_Namespace rq) \<noteq> Inr True"
  shows "exec w (ReconcilePod rq) p = Ret p"
  using assms by (auto simp: Reconcile_pod_def split: sum.split)

lemma gone_namespace_not_managed: "get_namespace k ns = Inl e \<Longrightarrow> IsPodManaged k ns \<noteq> Inr True"
  by (auto simp: IsPodManaged_def IsNamespaceManaged_def split: sum.splits option.splits)

text \<open>C6: The pool recovers: when the controller of machines or pods finds an object gone, then afterwards the pool holds
  nothing for it; an address of the range that it held is free again, so that the next request for an address is served,
  even where the pool was exhausted before; and the entries of objects that share no address with it are untouched.\<close>

theorem pool_recovers:
  assumes "reachable p" "found_gone w e x" "(MacKey (hw_String a), x, j) \<in> holders (macPoolMap p)" "in_range p a"
  shows "\<exists>p'. exec w e p = Ret p' \<and> (\<forall>k j. (k, x, j) \<notin> holders (macPoolMap p')) \<and> mac_free (macPoolMap p') a \<and>
     (\<exists>b p''. getFreeMac p' = Ret (Inr b, p'')) \<and>
     (\<forall>y. \<not> shares (macPoolMap p) y x \<longrightarrow> entries_kept y (macPoolMap p) (macPoolMap p'))"
proof -
  let ?p = "p\<lparr>macPoolMap := released (macPoolMap p) x\<rparr>"
  have "range_ok ?p" using reachable_sys_ok [OF assms(1)] by (simp add: sys_ok_def pool_ok_def range_ok_def)
  moreover have free: "mac_free (macPoolMap ?p) a" using assms(3) by (auto simp: mac_free_def released_def)
  moreover have "in_range ?p a" using assms(4) by (simp add: in_range_def)
  ultimately have "\<exists>b p''. getFreeMac ?p = Ret (Inr b, p'')" by (cases rule: getFreeMac_returns) blast+
  moreover have "(k, x, j) \<notin> holders (macPoolMap ?p)" for k j by (auto simp: mem_holders_released)
  ultimately show ?thesis
    using found_gone_releases [OF assms(2)] free entries_kept_released by (intro exI [of _ ?p]) simp
qed

theorem pool_recovers_witness:
  "\<exists>p p'. (other_key, ''vm/default/vm0'', ''br1'') \<in> holders (macPoolMap p) \<and>
     exec sample_world (ReconcileVm \<lparr>request_Namespace = ''default'', request_Name = ''vm0''\<rparr>) p = Ret p' \<and>
     (\<forall>k j. (k, ''vm/default/vm0'', j) \<notin> holders (macPoolMap p'))"
proof -
  let ?rq = "\<lparr>request_Namespace = ''default'', request_Name = ''vm0''\<rparr>"
  obtain m g where m: "reachable (sample_with True m g)" "holders m = {(other_key, ''vm/default/vm0'', ''br1'')}"
    by (rule reachable_other)
  have key: "other_key = MacKey (hw_String [2, 0, 0, 0, 0, 1])"
    using NewMacKey_valid [OF ParseMAC_hw_String [of "[2, 0, 0, 0, 0, 1]"]]
    by (simp add: other_key_def hex2_def hexDigit_def hw_length_ok_def hw_lengths_def)
  have "found_gone sample_world (ReconcileVm ?rq) ''vm/default/vm0''"
    by (simp add: sample_world_def sample_request_def VmNamespacedFromRequest_eq)
  moreover have held: "(MacKey (hw_String [2, 0, 0, 0, 0, 1]), ''vm/default/vm0'', ''br1'') \<in> holders (macPoolMap (sample_with True m g))"
    using m(2) key by simp
  moreover have "in_range (sample_with True m g) [2, 0, 0, 0, 0, 1]" by (simp add: in_range_def sample_pool_def)
  ultimately obtain p' where "exec sample_world (ReconcileVm ?rq) (sample_with True m g) = Ret p'"
      "\<forall>k j. (k, ''vm/default/vm0'', j) \<notin> holders (macPoolMap p')"
    using pool_recovers [OF m(1)] by blast
  with held key show ?thesis by metis
qed

subsection \<open>What is handed out\<close>

lemma in_range_first_byte:
  assumes "range_ok p" "in_range p a" "rangeStart p ! 0 = rangeEnd p ! 0"
  shows "a ! 0 = rangeStart p ! 0"
proof -
  have six: "\<exists>x xs. b = x # xs \<and> length xs = 5" if "length b = 6" for b :: hwaddr using that by (cases b) auto
  have "length (rangeStart p) = 6" "length (rangeEnd p) = 6" "length a = 6" using assms(1,2) by (simp_all add: range_ok_def in_range_def)
  then obtain x xs y ys z zs where c: "rangeStart p = x # xs" "rangeEnd p = y # ys" "a = z # zs"
      "length xs = 5" "length ys = 5" "length zs = 5" using six by metis
  have "\<not> mac_val (z # zs) < mac_val (x # xs)" "\<not> mac_val (y # ys) < mac_val (z # zs)" "x = y"
    using assms(2,3) unfolding in_range_def c(1-3) not_less nth_Cons_0 by blast+
  then have "\<not> z < x" "\<not> x < z" using c(4-6) mac_val_less_Cons by metis+
  then show ?thesis by (simp add: c(1,3))
qed

text \<open>C25: An address that the pool hands out is a well-formed one, in every state the program can reach: six bytes in the range and
  free, printed in a form that reads back as the same address; and it is a unicast address when the two ends of
  the range have the same first byte.\<close>

theorem handed_out_wellformed:
  assumes "reachable p" "getFreeMac p = Ret (Inr a, p')"
  shows "length a = 6 \<and> ParseMAC (hw_String a) = Inr a \<and> mac_free (macPoolMap p) a \<and>
     mac_val (rangeStart p) \<le> mac_val a \<and> mac_val a \<le> mac_val (rangeEnd p) \<and>
     (rangeStart p ! 0 = rangeEnd p ! 0 \<longrightarrow> unicast a)"
proof -
  have ok: "range_ok p" using reachable_sys_ok [OF assms(1)] by (simp add: sys_ok_def pool_ok_def)
  then have "in_range p a \<and> mac_free (macPoolMap p) a"
    by (cases rule: getFreeMac_returns) (use assms(2) in auto)
  then have a: "in_range p a" "mac_free (macPoolMap p) a" by simp_all
  have "unicast a" if "rangeStart p ! 0 = rangeEnd p ! 0"
    using in_range_first_byte [OF ok a(1) that] ok by (simp add: unicast_def range_ok_def)
  with a in_range_ParseMAC [OF a(1)] show ?thesis by (simp add: in_range_def)
qed

theorem handed_out_wellformed_witness:
  "\<exists>a p'. getFreeMac sample_pool = Ret (Inr a, p') \<and> ParseMAC (hw_String a) = Inr a \<and> unicast a"
  using handed_out_wellformed [OF reachable_sample sample_getFreeMac_own] sample_getFreeMac_own
  by (auto simp: sample_pool_def)

text \<open>Otherwise it may be a multicast address, since only the ends of the range are checked.\<close>

lemma multicast_handed_out:
  assumes "range_ok p" "rangeEnd p = [4, 0, 0, 0, 0, 0]" "currentMac p = [3, 0, 0, 0, 0, 0]" "macPoolMap p = Map.empty"
  shows "\<exists>p'. getFreeMac p = Ret (Inr [3, 0, 0, 0, 0, 0], p') \<and> \<not> unicast [3, 0, 0, 0, 0, 0]"
proof -
  have "mac_upto [3, 0, 0, 0, 0, 0] [4, 0, 0, 0, 0, 0] =
      [3, 0, 0, 0, 0, 0] # mac_upto (mac_of_nat (mac_val [3, 0, 0, 0, 0, 0] + 1)) [4, 0, 0, 0, 0, 0]"
    by (rule mac_upto_Cons) simp_all
  then have "first_free p = Some [3, 0, 0, 0, 0, 0]" by (simp add: first_free_def assms(2-4) mac_free_def)
  then show ?thesis using getFreeMac_eq_first_free [OF assms(1)] by (simp add: unicast_def)
qed

end
