(* ===== verification/PodLife.thy ===== *)
theory PodLife
  imports Lifecycle
begin

section \<open>The life of a pod whose name is generated\<close>

text \<open>
  A pod of a controller such as a \<open>ReplicaSet\<close> has no name yet when the webhook sees it, so its addresses are reserved
  under a common temporary name. The pod controller later reads the stored pod, with its name.

  Shown: the controller does not give the temporary entries the name of the pod, as the comments in \<open>pod_pool.go\<close> say, but adds entries of
  that name next to them; these make the addresses free again when the pod is gone. When the controller sees the pod only after its
  networks were set up, it adds nothing, and the addresses stay reserved under the temporary name after the pod is gone.
\<close>

subsection \<open>Admission\<close>

text \<open>The admission of a pod without a name, and the networks it asks for.\<close>

definition unnamed_admitted ::
    "world \<Rightarrow> pod admission_request \<Rightarrow> pod \<Rightarrow> network_selection list \<Rightarrow> pool_manager \<Rightarrow> admission_response \<Rightarrow> pool_manager \<Rightarrow> bool" where
  "unnamed_admitted w req pd ns p resp p' \<longleftrightarrow> areq_Object req = Inr pd \<and> pod_Name pd = [] \<and> is_not_dry_run req \<and>
     pod_networks (w_kube w) (w_codec w) pd = Ret (Inr ns) \<and> ns \<noteq> [] \<and> distinct (map sel_Name ns) \<and>
     Handle_pod (w_kube w) (w_codec w) (w_ord w) req p = Ret (resp, p') \<and> resp_Allowed resp"

definition asked_for :: "network_selection list \<Rightarrow> network_selection list \<Rightarrow> bool" where
  "asked_for ns ns' \<longleftrightarrow> list_all2 (\<lambda>n n'. (\<exists>s. n' = n\<lparr>sel_MacRequest := s\<rparr>) \<and> (sel_MacRequest n \<noteq> [] \<longrightarrow> n' = n)) ns ns'"

definition network_keys :: "network_selection list \<Rightarrow> string \<Rightarrow> (macKey \<times> string \<times> string) set" where
  "network_keys ns x = (\<lambda>n. (NewMacKey (sel_MacRequest n), x, sel_Name n)) ` set ns"

lemma unnamed_admitted_holds:
  assumes "unnamed_admitted w req pd ns p resp p'" "pool_ok p"
  obtains ns' v stored where "asked_for ns ns'" "\<forall>n\<in>set ns'. \<exists>a. ParseMAC (sel_MacRequest n) = Inr a"
    "marshal (w_codec w) ns' = Inr v" "apply_patch apply_op_pod (resp_Patches resp) pd = Some stored"
    "lookup_nil (pod_Annotations stored) NetworkAttachmentAnnot = Some v"
    "holders (macPoolMap p') = holders (macPoolMap p) \<union> network_keys ns' tempPodName"
proof -
  note adm = assms(1) [unfolded unnamed_admitted_def]
  obtain a where a: "pod_Annotations pd = Some a"
    using adm by (cases "pod_Annotations pd") (auto simp: pod_networks_def lookup_nil_def)
  obtain e pd' where r: "AllocatePodMac (w_kube w) (w_codec w) (w_ord w) pd True p = Ret (e, pd', p')"
      "resp = (case e of Some err \<Rightarrow> Errored 500 err | None \<Rightarrow> patchPodChanges pd pd')"
    using adm a by (auto simp: Handle_pod_def Let_def bind_run_eq_Ret split: option.splits)
  then have e: "e = None" using adm by (cases e) auto
  from AllocatePodMac_allocates [OF assms(2) _ _ _ r(1) [unfolded e]] adm obtain ns' v where
    s: "marshal (w_codec w) ns' = Inr v" "pd' = set_pod_networks v pd"
      "list_all2 (\<lambda>n n'. if sel_MacRequest n \<noteq> [] then n' = n
        else \<exists>x. n' = n\<lparr>sel_MacRequest := hw_String x\<rparr> \<and> in_range p x \<and> mac_free (macPoolMap p) x) ns ns'"
      "holders (macPoolMap p') = holders (macPoolMap p) \<union>
        {(NewMacKey (sel_MacRequest n'), pod_owner pd, sel_Name n') | n'. n' \<in> set ns'}"
      "\<forall>n'\<in>set ns'. \<exists>a. ParseMAC (sel_MacRequest n') = Inr a" by blast
  have self: "n\<lparr>sel_MacRequest := sel_MacRequest n\<rparr> = n" for n :: network_selection by simp
  have "asked_for ns ns'" unfolding asked_for_def using s(3)
    by (rule list_all2_mono) (metis self)
  moreover obtain stored where "apply_patch apply_op_pod (resp_Patches resp) pd = Some stored"
      "lookup_nil (pod_Annotations stored) = lookup_nil (pod_Annotations pd')"
    using patchPodChanges_stores [OF r(1) a] r(2) e by auto
  moreover have "lookup_nil (pod_Annotations pd') NetworkAttachmentAnnot = Some v"
    by (simp add: s(2) set_pod_networks_def a lookup_nil_def update_conv')
  moreover have "holders (macPoolMap p') = holders (macPoolMap p) \<union> network_keys ns' tempPodName"
    using s(4) adm by (auto simp: network_keys_def pod_owner_def)
  ultimately show thesis using that s(1,5) by metis
qed

subsection \<open>The controller\<close>

text \<open>
  The controller reads the stored pod before the network status is set, and its JSON codec gives back the list that the
  webhook wrote for the networks \<open>ns\<close>.
\<close>

definition reads_back :: "world \<Rightarrow> world \<Rightarrow> network_selection list \<Rightarrow> pod \<Rightarrow> pod \<Rightarrow> bool" where
  "reads_back w w' ns stored pd' \<longleftrightarrow> (\<forall>v ns'. lookup_nil (pod_Annotations stored) NetworkAttachmentAnnot = Some v \<longrightarrow>
     marshal (w_codec w) ns' = Inr v \<longrightarrow> asked_for ns ns' \<longrightarrow>
     pod_networks (w_kube w') (w_codec w') pd' = Ret (Inr ns') \<and> (\<exists>v'. marshal (w_codec w') ns' = Inr v'))"

lemma holders_fold_hold:
  "holders (macPoolMap (fold (\<lambda>n. hold True (sel_MacRequest n) x (sel_Name n)) ns p)) = holders (macPoolMap p) \<union> network_keys ns x"
  by (induction ns arbitrary: p) (auto simp: network_keys_def holders_hold)

lemma ReconcilePod_adds:
  assumes "IsPodManaged (w_kube w) (request_Namespace rq) = Inr True" "w_pods w rq = Inr pd" "world_ok w"
    and "pod_networks (w_kube w) (w_codec w) pd = Ret (Inr ns)" "ns \<noteq> []" "\<forall>n\<in>set ns. \<exists>a. ParseMAC (sel_MacRequest n) = Inr a"
    and "marshal (w_codec w) ns = Inr v"
  shows "\<exists>p'. exec w (ReconcilePod rq) p = Ret p' \<and>
     holders (macPoolMap p') = holders (macPoolMap p) \<union> network_keys ns (pod_request_name rq)"
proof -
  have "pod_Namespace pd = request_Namespace rq" "pod_Name pd = request_Name rq" "pod_Name pd \<noteq> []"
    using assms(2,3) unfolding world_ok_def by blast+
  then have owner: "pod_owner pd = pod_request_name rq" by (simp add: pod_owner_def podNamespaced_def pod_request_name_def)
  have "pod_Annotations pd \<noteq> None" using assms(4,5) by (cases "pod_Annotations pd") (auto simp: pod_networks_def lookup_nil_def)
  with assms(1,2) AllocatePodMac_requests [OF assms(4-7), of "w_ord w" p] holders_fold_hold [where x = "pod_owner pd"] show ?thesis
    by (auto simp: Reconcile_pod_def owner)
qed

text \<open>What the temporary name holds when the controller comes too late, and the pod goes.\<close>

lemma unnamed_pod_leaks:
  assumes "IsPodManaged (w_kube w) (request_Namespace rq) = Inr True" "w_pods w rq = Inr pd"
    and "lookup_nil (pod_Annotations pd) NetworkStatusAnnot \<noteq> None"
    and "found_gone w' (ReconcilePod rq) (pod_request_name rq)" "\<not> shares (macPoolMap p) tempPodName (pod_request_name rq)"
  shows "\<exists>p'. exec w (ReconcilePod rq) p = Ret p \<and> exec w' (ReconcilePod rq) p = Ret p' \<and>
     entries_kept tempPodName (macPoolMap p) (macPoolMap p')"
proof -
  have "AllocatePodMac (w_kube w) (w_codec w) (w_ord w) pd True p = Ret (None, pd, p)"
    using assms(3) by (simp add: AllocatePodMac_def split: option.split)
  with assms(1,2) have "exec w (ReconcilePod rq) p = Ret p"
    by (auto simp: Reconcile_pod_def split: option.split)
  with found_gone_releases [OF assms(4)] entries_kept_released [OF assms(5)] show ?thesis by simp
qed

subsection \<open>Properties\<close>

text \<open>C18: The life of a pod whose name is generated after its admission: the webhook reserves the addresses under a temporary name;
  after any events that do not concern that name the controller reconciles the stored pod, which adds an entry of the pod's name for every
  network and keeps the temporary ones; and when, after any events that do not concern the pod, the controller finds the pod gone, all its
  addresses are free.\<close>

theorem unnamed_pod_lifecycle:
  assumes "reachable p" "world_ok w" "event_ok w (AdmitPod req)" "unnamed_admitted w req pd ns p resp p1"
    and "apply_patch apply_op_pod (resp_Patches resp) pd = Some stored" "quiet tempPodName p1 ls p2"
    and "world_ok w'" "event_ok w' (ReconcilePod rq)" "w_pods w' rq = Inr pd'" "reads_back w w' ns stored pd'"
    and "IsPodManaged (w_kube w') (request_Namespace rq) = Inr True"
  shows "\<exists>ns' p3. asked_for ns ns' \<and> exec w' (ReconcilePod rq) p2 = Ret p3 \<and>
     network_keys ns' tempPodName \<union> network_keys ns' (pod_request_name rq) \<subseteq> holders (macPoolMap p3) \<and>
     (\<forall>ls' p4 w''. quiet (pod_request_name rq) p3 ls' p4 \<longrightarrow> found_gone w'' (ReconcilePod rq) (pod_request_name rq) \<longrightarrow>
        (\<exists>p5. exec w'' (ReconcilePod rq) p4 = Ret p5 \<and> (\<forall>n\<in>set ns'. macPoolMap p5 (NewMacKey (sel_MacRequest n)) = None)))"
proof -
  have "pool_ok p" using reachable_sys_ok [OF assms(1)] by (simp add: sys_ok_def)
  with assms(4,5) obtain ns' v where ns': "asked_for ns ns'" "\<forall>n\<in>set ns'. \<exists>a. ParseMAC (sel_MacRequest n) = Inr a"
      "marshal (w_codec w) ns' = Inr v" "lookup_nil (pod_Annotations stored) NetworkAttachmentAnnot = Some v"
      "holders (macPoolMap p1) = holders (macPoolMap p) \<union> network_keys ns' tempPodName"
    by (metis unnamed_admitted_holds option.inject)
  have "exec w (AdmitPod req) p = Ret p1" using assms(4) by (simp add: unnamed_admitted_def)
  with assms(2,3) have "step p (w, AdmitPod req) p1" by (intro step.handle)
  with assms(1) have "reachable p1" by (rule reachable.next_step)
  with quiet_keeps [OF assms(6)] have p2: "reachable p2" "entries_kept tempPodName (macPoolMap p1) (macPoolMap p2)" by simp_all
  have "ns' \<noteq> []" using ns'(1) assms(4) by (auto simp: asked_for_def unnamed_admitted_def)
  moreover obtain v' where "pod_networks (w_kube w') (w_codec w') pd' = Ret (Inr ns')" "marshal (w_codec w') ns' = Inr v'"
    using assms(10) ns'(1,3,4) unfolding reads_back_def by blast
  ultimately obtain p3 where p3: "exec w' (ReconcilePod rq) p2 = Ret p3"
      "holders (macPoolMap p3) = holders (macPoolMap p2) \<union> network_keys ns' (pod_request_name rq)"
    using ReconcilePod_adds [OF assms(11,9,7) _ _ ns'(2)] by blast
  have "network_keys ns' tempPodName \<subseteq> holders (macPoolMap p2)"
    using ns'(5) entries_kept_holders [OF p2(2)] by (auto simp: network_keys_def)
  moreover have "step p2 (w', ReconcilePod rq) p3" using assms(7,8) p3(1) by (rule step.handle)
  with p2(1) have "reachable p3" by (rule reachable.next_step)
  then have "\<exists>p5. exec w'' (ReconcilePod rq) p4 = Ret p5 \<and> (\<forall>n\<in>set ns'. macPoolMap p5 (NewMacKey (sel_MacRequest n)) = None)"
    if q: "quiet (pod_request_name rq) p3 ls' p4" and gone: "found_gone w'' (ReconcilePod rq) (pod_request_name rq)" for ls' p4 w''
  proof -
    have "entries_kept (pod_request_name rq) (macPoolMap p3) (macPoolMap p4)" using quiet_keeps [OF q \<open>reachable p3\<close>] by simp
    then have "network_keys ns' (pod_request_name rq) \<subseteq> holders (macPoolMap p4)"
      using p3(2) entries_kept_holders by (auto simp: network_keys_def)
    with found_gone_releases [OF gone, of p4] show ?thesis by (auto simp: network_keys_def released_def)
  qed
  ultimately show ?thesis using ns'(1) p3 by blast
qed

subsection \<open>A run\<close>

definition sample_network :: network_selection where
  "sample_network = \<lparr>sel_Name = ''net1'', sel_Namespace = ''default'', sel_MacRequest = [], sel_Other = []\<rparr>"

definition pod_codec :: codec where
  "pod_codec = \<lparr>
     unmarshal = (\<lambda>s. if s = ''[{}]'' then Inr [Some sample_network]
       else if s = ''[02:00:00:00:00:07]'' then Inr [Some (sample_network\<lparr>sel_MacRequest := ''02:00:00:00:00:07''\<rparr>)]
       else Inl (ErrSyntax s)),
     marshal = (\<lambda>ns. Inr (''['' @ concat (map sel_MacRequest ns) @ '']''))\<rparr>"

definition unnamed_pod :: pod where
  "unnamed_pod = sample_pod\<lparr>pod_Name := []\<rparr>"

definition named_pod :: pod where
  "named_pod = sample_pod\<lparr>pod_Annotations := Some [(NetworkAttachmentAnnot, ''[02:00:00:00:00:07]'')]\<rparr>"

definition unnamed_request :: "pod admission_request" where
  "unnamed_request = \<lparr>areq_Operation = Create, areq_Namespace = ''default'', areq_DryRun = None, areq_Object = Inr unnamed_pod\<rparr>"

definition pod1_request :: request where
  "pod1_request = \<lparr>request_Namespace = ''default'', request_Name = ''pod1''\<rparr>"

definition unnamed_world :: world where
  "unnamed_world = sample_world\<lparr>w_codec := pod_codec\<rparr>"

definition named_world :: world where
  "named_world = unnamed_world\<lparr>w_pods := (\<lambda>rq. if rq = pod1_request then Inr named_pod else Inl NotFound)\<rparr>"

lemma pod_worlds_ok: "world_ok unnamed_world" "world_ok named_world"
proof -
  have "pod_Namespace named_pod = ''default''" "pod_Name named_pod = ''pod1''" by (simp_all add: named_pod_def sample_pod_def)
  then show "world_ok unnamed_world" "world_ok named_world"
    using sample_world_ok by (simp_all add: world_ok_def unnamed_world_def named_world_def pod1_request_def sample_world_def)
qed

lemma sample_networks:
  "pod_networks k pod_codec unnamed_pod = Ret (Inr [sample_network])"
  "pod_networks k pod_codec named_pod = Ret (Inr [sample_network\<lparr>sel_MacRequest := ''02:00:00:00:00:07''\<rparr>])"
  by (simp_all add: pod_networks_def unnamed_pod_def named_pod_def sample_pod_def lookup_nil_def NetworkAttachmentAnnot_def
      NetworkStatusAnnot_def parsePodNetworkAnnotation_def pod_codec_def isRelatedToKubevirt_def sample_network_def)

lemma pod_events_ok: "event_ok unnamed_world (AdmitPod unnamed_request)" "event_ok named_world (ReconcilePod pod1_request)"
proof -
  have "\<not> null_network pod_codec unnamed_pod" "\<not> null_network pod_codec named_pod"
    using pod_networks_returns [of pod_codec unnamed_pod managed_kube] pod_networks_returns [of pod_codec named_pod managed_kube]
    by (simp_all add: sample_networks)
  then show "event_ok unnamed_world (AdmitPod unnamed_request)" "event_ok named_world (ReconcilePod pod1_request)"
    by (simp_all add: unnamed_request_def unnamed_world_def named_world_def)
qed

lemma sample_unnamed_admitted:
  obtains resp p1 stored where "unnamed_admitted unnamed_world unnamed_request unnamed_pod [sample_network] sample_pool resp p1"
    "apply_patch apply_op_pod (resp_Patches resp) unnamed_pod = Some stored"
    "lookup_nil (pod_Annotations stored) NetworkAttachmentAnnot = Some ''[02:00:00:00:00:07]''"
proof -
  let ?pd = "set_pod_networks ''[02:00:00:00:00:07]'' unnamed_pod"
  have req: "sel_MacRequest sample_network = []" "sel_Name sample_network = ''net1''" by (simp_all add: sample_network_def)
  have marshal: "marshal pod_codec ns = Inr (''['' @ concat (map sel_MacRequest ns) @ '']'')" for ns by (simp add: pod_codec_def)
  obtain p1 where r: "AllocatePodMac k pod_codec (\<lambda>xs. xs) unnamed_pod True sample_pool = Ret (None, ?pd, p1)" for k
    by (simp add: AllocatePodMac_eq sample_networks req marshal allocatePodFromPool_def sample_getFreeMac_own Let_def hex2_def hexDigit_def)
  have a: "pod_Annotations unnamed_pod = Some [(NetworkAttachmentAnnot, ''[{}]'')]" by (simp add: unnamed_pod_def sample_pod_def)
  obtain stored where st: "apply_patch apply_op_pod (resp_Patches (patchPodChanges unnamed_pod ?pd)) unnamed_pod = Some stored"
      "lookup_nil (pod_Annotations stored) = lookup_nil (pod_Annotations ?pd)"
    using patchPodChanges_stores [OF r a] by blast
  have "Handle_pod managed_kube pod_codec (\<lambda>xs. xs) unnamed_request sample_pool = Ret (patchPodChanges unnamed_pod ?pd, p1)"
    using r a by (simp add: Handle_pod_def unnamed_request_def Let_def is_not_dry_run_def)
  then have "unnamed_admitted unnamed_world unnamed_request unnamed_pod [sample_network] sample_pool (patchPodChanges unnamed_pod ?pd) p1"
    by (simp add: unnamed_admitted_def unnamed_world_def sample_world_def sample_networks)
       (simp add: unnamed_request_def unnamed_pod_def is_not_dry_run_def patchPodChanges_def Let_def)
  moreover have "lookup_nil (pod_Annotations stored) NetworkAttachmentAnnot = Some ''[02:00:00:00:00:07]''"
    unfolding st(2) by (simp add: set_pod_networks_def a lookup_nil_def)
  ultimately show thesis using that st(1) by blast
qed

lemma sample_reads_back:
  assumes "lookup_nil (pod_Annotations stored) NetworkAttachmentAnnot = Some ''[02:00:00:00:00:07]''"
  shows "reads_back unnamed_world named_world [sample_network] stored named_pod"
  unfolding reads_back_def
proof (intro allI impI)
  fix v ns' assume v: "lookup_nil (pod_Annotations stored) NetworkAttachmentAnnot = Some v" "marshal (w_codec unnamed_world) ns' = Inr v"
    and ns: "asked_for [sample_network] ns'"
  from ns obtain s where s: "ns' = [sample_network\<lparr>sel_MacRequest := s\<rparr>]" by (auto simp: asked_for_def list_all2_Cons1)
  have "s @ '']'' = ''02:00:00:00:00:07'' @ '']''"
  proof -
    have "CHR ''['' # s @ '']'' = ''[02:00:00:00:00:07]''" using v assms by (simp add: unnamed_world_def pod_codec_def s)
    then show ?thesis by (simp del: append_same_eq)
  qed
  then have "s = ''02:00:00:00:00:07''" unfolding append_same_eq .
  then show "pod_networks (w_kube named_world) (w_codec named_world) named_pod = Ret (Inr ns') \<and> (\<exists>v'. marshal (w_codec named_world) ns' = Inr v')"
    by (simp add: s named_world_def unnamed_world_def sample_networks) (simp add: pod_codec_def)
qed

theorem unnamed_pod_lifecycle_witness:
  "\<exists>p1 p3 p5 k. exec unnamed_world (AdmitPod unnamed_request) sample_pool = Ret p1 \<and>
     exec named_world (ReconcilePod pod1_request) p1 = Ret p3 \<and>
     {(k, tempPodName, ''net1''), (k, ''pod/default/pod1'', ''net1'')} \<subseteq> holders (macPoolMap p3) \<and>
     exec sample_world (ReconcilePod pod1_request) p3 = Ret p5 \<and> macPoolMap p5 k = None"
proof -
  obtain resp p1 stored where adm: "unnamed_admitted unnamed_world unnamed_request unnamed_pod [sample_network] sample_pool resp p1"
    "apply_patch apply_op_pod (resp_Patches resp) unnamed_pod = Some stored"
    "lookup_nil (pod_Annotations stored) NetworkAttachmentAnnot = Some ''[02:00:00:00:00:07]''" by (rule sample_unnamed_admitted)
  have read: "w_pods named_world pod1_request = Inr named_pod" by (simp add: named_world_def)
  have managed: "IsPodManaged (w_kube named_world) (request_Namespace pod1_request) = Inr True"
    by (simp add: named_world_def unnamed_world_def sample_world_def)
  have gone: "found_gone sample_world (ReconcilePod pod1_request) (pod_request_name pod1_request)" by (simp add: sample_world_def)
  from unnamed_pod_lifecycle [OF reachable_sample pod_worlds_ok(1) pod_events_ok(1) adm(1,2) quiet_Nil pod_worlds_ok(2) pod_events_ok(2) read
      sample_reads_back [OF adm(3)] managed]
  obtain ns' p3 where p3: "asked_for [sample_network] ns'" "exec named_world (ReconcilePod pod1_request) p1 = Ret p3"
      "network_keys ns' tempPodName \<union> network_keys ns' (pod_request_name pod1_request) \<subseteq> holders (macPoolMap p3)"
      "\<exists>p5. exec sample_world (ReconcilePod pod1_request) p3 = Ret p5 \<and> (\<forall>n\<in>set ns'. macPoolMap p5 (NewMacKey (sel_MacRequest n)) = None)"
    using gone quiet_Nil by blast
  from p3(1) obtain s where "ns' = [sample_network\<lparr>sel_MacRequest := s\<rparr>]" by (auto simp: asked_for_def list_all2_Cons1)
  moreover have "pod_request_name pod1_request = ''pod/default/pod1''" by (simp add: pod_request_name_def pod1_request_def)
  moreover have "exec unnamed_world (AdmitPod unnamed_request) sample_pool = Ret p1" using adm(1) by (simp add: unnamed_admitted_def)
  moreover obtain p5 where "exec sample_world (ReconcilePod pod1_request) p3 = Ret p5"
      "\<forall>n\<in>set ns'. macPoolMap p5 (NewMacKey (sel_MacRequest n)) = None" using p3(4) by blast
  ultimately show ?thesis using p3(2,3)
    by (intro exI [of _ p1] exI [of _ p3] exI [of _ p5] exI [of _ "NewMacKey s"]) (simp add: network_keys_def sample_network_def)
qed

end
