(* ===== verification/Rebuild.thy ===== *)
theory Rebuild
  imports System
begin

section \<open>The rebuild of the pool among the handlers\<close>

text \<open>
  \<open>Start\<close> runs in a goroutine of its own and takes no mutex, so that handlers may run between any two of its
  accesses to the pool map. The loops of \<open>Startup\<close> do not depend on the type of their state; here they run on
  the pool manager together with the handlers that are still to come, one batch before every access of the rebuild
  to the pool manager and one before the pool is marked ready, and with a record of the handlers that have run.

  Shown: with no handlers in between this is the \<open>Start\<close> of \<open>Startup\<close>; with any handlers the rebuild returns, every handler
  sees a well-formed pool manager that is not ready, and in the end the pool has for every object that no handler
  concerned exactly what it had before and what the object uses; but an admission that comes before the rebuild
  has reached a machine may hand out the address of that machine.

  An access to the pool map (the entry of one interface or network) is taken to be atomic.
\<close>

subsection \<open>Handlers between the steps of the rebuild\<close>

record rebuild =
  r_pool :: pool_manager
  r_coming :: "(world \<times> event) list list"
  r_past :: "(world \<times> event \<times> pool_manager) list"

definition rebuild_of :: "pool_manager \<Rightarrow> (world \<times> event) list list \<Rightarrow> rebuild" where
  "rebuild_of p batches = \<lparr>r_pool = p, r_coming = batches, r_past = []\<rparr>"

fun run_handlers :: "(world \<times> event) list \<Rightarrow> rebuild \<Rightarrow> rebuild run" where
  "run_handlers [] s = Ret s"
| "run_handlers ((w, e) # es) s =
     bind_run (exec w e (r_pool s)) (\<lambda>p. run_handlers es (s\<lparr>r_pool := p, r_past := (w, e, r_pool s) # r_past s\<rparr>))"

definition next_batch :: "rebuild \<Rightarrow> rebuild run" where
  "next_batch s = (case r_coming s of
     [] \<Rightarrow> Ret s
   | es # batches \<Rightarrow> run_handlers es (s\<lparr>r_coming := batches\<rparr>))"

definition among :: "(pool_manager \<Rightarrow> (go_error option \<times> pool_manager) run) \<Rightarrow> rebuild \<Rightarrow> (go_error option \<times> rebuild) run" where
  "among f s = bind_run (next_batch s) (\<lambda>s1. bind_run (f (r_pool s1)) (\<lambda>(e, p). Ret (e, s1\<lparr>r_pool := p\<rparr>)))"

definition initPodMap_among :: "kube \<Rightarrow> codec \<Rightarrow> rebuild \<Rightarrow> (go_error option \<times> rebuild) run" where
  "initPodMap_among k js s =
     bind_run (paginatePodsInManagedNamespaces k 500
         (for_each (forEachNetworkOfPod k js (\<lambda>pd network. among (initMacFromNetwork pd network)))) s)
       (\<lambda>(e, s'). Ret (map_option (ErrWrap ''failed iterating over pods in managed namespaces'') e, s'))"

definition initMacMapFromCluster_among :: "kube \<Rightarrow> rebuild \<Rightarrow> (go_error option \<times> rebuild) run" where
  "initMacMapFromCluster_among k s =
     bind_run (forEachManagedVmInterfaceInClusterRunFunction k
         (\<lambda>vmFullName networks iface. among (initMacFromInterface vmFullName networks iface)) s)
       (\<lambda>(e, s'). Ret (map_option (ErrWrap ''failed to iterate the cluster vm interfaces'') e, s'))"

definition initVirtualMachineMap_among :: "kube \<Rightarrow> rebuild \<Rightarrow> (go_error option \<times> rebuild) run" where
  "initVirtualMachineMap_among k s =
     (if \<not> isKubevirt (r_pool s) then Ret (None, s)
      else bind_run (initMacMapFromCluster_among k s)
             (\<lambda>(e, s'). Ret (map_option (ErrWrap ''failed to init MacPoolMap From Cluster'') e, s')))"

definition InitMaps_among :: "kube \<Rightarrow> codec \<Rightarrow> rebuild \<Rightarrow> (go_error option \<times> rebuild) run" where
  "InitMaps_among k js s =
     bind_run (initPodMap_among k js s) (\<lambda>(e, s1). case e of
       Some err \<Rightarrow> Ret (Some err, s1)
     | None \<Rightarrow> initVirtualMachineMap_among k s1)"

definition Start_among :: "kube \<Rightarrow> codec \<Rightarrow> rebuild \<Rightarrow> (go_error option \<times> bool \<times> rebuild) run" where
  "Start_among k js s =
     bind_run (InitMaps_among k js s) (\<lambda>(e, s1). case e of
       Some err \<Rightarrow> Ret (Some (ErrWrap ''failed Init pool manager maps'' err), False, s1)
     | None \<Rightarrow> bind_run (next_batch s1) (\<lambda>s2.
         Ret (None, isKubevirt (r_pool s2), s2\<lparr>r_pool := (r_pool s2)\<lparr>isPoolReady := True\<rparr>\<rparr>)))"

subsection \<open>Without handlers in between\<close>

text \<open>A call on the pool manager and the same call among no handlers.\<close>

definition alone :: "(pool_manager \<Rightarrow> (go_error option \<times> pool_manager) run) \<Rightarrow> (rebuild \<Rightarrow> (go_error option \<times> rebuild) run) \<Rightarrow> bool" where
  "alone f g \<longleftrightarrow> (\<forall>p. g (rebuild_of p []) = bind_run (f p) (\<lambda>(e, q). Ret (e, rebuild_of q [])))"

lemma alone_Ret: "alone (\<lambda>p. Ret (e, p)) (\<lambda>s. Ret (e, s))"
  by (simp add: alone_def)

lemma alone_among: "alone f (among f)"
  by (auto simp: alone_def among_def next_batch_def rebuild_of_def)

lemma alone_then:
  assumes "alone f g" "\<And>e. alone (f' e) (g' e)"
  shows "alone (\<lambda>p. bind_run (f p) (\<lambda>(e, q). f' e q)) (\<lambda>s. bind_run (g s) (\<lambda>(e, t). g' e t))"
  unfolding alone_def
proof
  fix p
  show "bind_run (g (rebuild_of p [])) (\<lambda>(e, t). g' e t) =
      bind_run (bind_run (f p) (\<lambda>(e, q). f' e q)) (\<lambda>(e, q). Ret (e, rebuild_of q []))"
    using assms by (cases "f p") (auto simp: alone_def split: prod.split)
qed

lemma alone_if: "alone f g \<Longrightarrow> alone f' g' \<Longrightarrow> (\<And>p. b' (rebuild_of p []) = b p) \<Longrightarrow>
    alone (\<lambda>p. if b p then f p else f' p) (\<lambda>s. if b' s then g s else g' s)"
  by (simp add: alone_def)

lemma alone_case_option: "alone f g \<Longrightarrow> (\<And>x. alone (f' x) (g' x)) \<Longrightarrow>
    alone (\<lambda>p. case r of None \<Rightarrow> f p | Some x \<Rightarrow> f' x p) (\<lambda>s. case r of None \<Rightarrow> g s | Some x \<Rightarrow> g' x s)"
  by (cases r) simp_all

lemma alone_case_sum: "(\<And>x. alone (f x) (g x)) \<Longrightarrow> (\<And>x. alone (f' x) (g' x)) \<Longrightarrow>
    alone (\<lambda>p. case r of Inl x \<Rightarrow> f x p | Inr x \<Rightarrow> f' x p) (\<lambda>s. case r of Inl x \<Rightarrow> g x s | Inr x \<Rightarrow> g' x s)"
  by (cases r) simp_all

lemma alone_bind_Ret: "(\<And>x. alone (f x) (g x)) \<Longrightarrow> alone (\<lambda>p. bind_run r (\<lambda>x. f x p)) (\<lambda>s. bind_run r (\<lambda>x. g x s))"
  by (cases r) (simp_all add: alone_def)

lemma alone_for_each:
  assumes "\<And>x. alone (f x) (g x)"
  shows "alone (for_each f xs) (for_each g xs)"
proof (induction xs)
  case (Cons x xs)
  have "alone (\<lambda>p. bind_run (f x p) (\<lambda>(e, q). case e of None \<Rightarrow> for_each f xs q | Some err \<Rightarrow> Ret (Some err, q)))
      (\<lambda>s. bind_run (g x s) (\<lambda>(e, t). case e of None \<Rightarrow> for_each g xs t | Some err \<Rightarrow> Ret (Some err, t)))"
    using assms Cons.IH by (intro alone_then alone_case_option alone_Ret)
  then show ?case by (simp add: alone_def)
qed (simp add: alone_def)

lemma alone_paginate:
  assumes "\<And>items. alone (f items) (g items)"
  shows "alone (\<lambda>p. run_loop (paginate lp f t p)) (\<lambda>s. run_loop (paginate lp g t s))"
  unfolding alone_def
proof
  fix p
  let ?R = "\<lambda>p s. s = rebuild_of p []"
  have "rel_run (rel_prod (=) ?R) (f items p) (g items s)" if "?R p s" for items p s
    using assms [of items] that unfolding alone_def by (cases "f items p") (auto simp: rel_prod_conv split: prod.split)
  then have "rel_run (rel_prod (=) ?R) (run_loop (paginate lp f t p)) (run_loop (paginate lp g t (rebuild_of p [])))"
    by (intro run_loop_related) auto
  then show "run_loop (paginate lp g t (rebuild_of p [])) =
      bind_run (run_loop (paginate lp f t p)) (\<lambda>(e, q). Ret (e, rebuild_of q []))"
    by (cases rule: run.rel_cases) (auto simp: rel_prod_conv)
qed

lemmas alone_intros = alone_Ret alone_if alone_case_option alone_case_sum alone_bind_Ret alone_for_each alone_paginate alone_among

lemma alone_InitMaps: "alone (InitMaps k js) (InitMaps_among k js)"
proof -
  have pod: "alone (initMacsOfPod k js pd) (forEachNetworkOfPod k js (\<lambda>pd network. among (initMacFromNetwork pd network)) pd)" for pd
    unfolding initMacsOfPod_def forEachNetworkOfPod_def by (intro alone_intros) simp_all
  have vm: "alone (forEachInterfaceOfVm initMacFromInterface vm)
      (forEachInterfaceOfVm (\<lambda>vmFullName networks iface. among (initMacFromInterface vmFullName networks iface)) vm)" for vm
    unfolding forEachInterfaceOfVm_def by (intro alone_then alone_intros) simp_all
  have "alone (initPodMap k js) (initPodMap_among k js)"
    unfolding initPodMap_def initPodMap_among_def paginatePodsInManagedNamespaces_def Let_def
    by (intro alone_then alone_intros pod) simp_all
  moreover have "alone (initVirtualMachineMap k) (initVirtualMachineMap_among k)"
    unfolding initVirtualMachineMap_def initVirtualMachineMap_among_def initMacMapFromCluster_def initMacMapFromCluster_among_def
      forEachManagedVmInterfaceInClusterRunFunction_def paginateVmsInManagedNamespaces_def Let_def
    by (intro alone_then alone_intros vm) (simp_all add: rebuild_of_def)
  ultimately show ?thesis
    unfolding InitMaps_def InitMaps_among_def by (intro alone_then alone_intros)
qed

lemma Start_among_alone:
  "Start_among k js (rebuild_of p []) = bind_run (Start k js p) (\<lambda>(e, cleanup, q). Ret (e, cleanup, rebuild_of q []))"
proof -
  have "InitMaps_among k js (rebuild_of p []) = bind_run (InitMaps k js p) (\<lambda>(e, q). Ret (e, rebuild_of q []))"
    using alone_InitMaps by (simp add: alone_def)
  then show ?thesis
    by (cases "InitMaps k js p")
       (auto simp: Start_among_def Start_def next_batch_def rebuild_of_def split: prod.split option.split)
qed

subsection \<open>The invariant among the handlers\<close>

definition coming_ok :: "(world \<times> event) list list \<Rightarrow> bool" where
  "coming_ok batches \<longleftrightarrow> (\<forall>es\<in>set batches. \<forall>(w, e)\<in>set es. world_ok w \<and> event_ok w e)"

definition rebuild_ok :: "rebuild \<Rightarrow> bool" where
  "rebuild_ok s \<longleftrightarrow> sys_ok (r_pool s) \<and> \<not> isPoolReady (r_pool s) \<and> coming_ok (r_coming s) \<and>
     (\<forall>(w, e, q)\<in>set (r_past s). sys_ok q \<and> \<not> isPoolReady q \<and> (\<exists>q'. exec w e q = Ret q'))"

text \<open>No handler that has run concerned the object.\<close>

definition undisturbed :: "string \<Rightarrow> rebuild \<Rightarrow> bool" where
  "undisturbed x s \<longleftrightarrow> (\<forall>(w, e, q)\<in>set (r_past s). \<not> concerns w e x q)"

text \<open>The triples \<open>H\<close> were added on the way, next to what the handlers did.\<close>

definition rebuilt :: "(macKey \<times> string \<times> string) set \<Rightarrow> rebuild \<Rightarrow> rebuild \<Rightarrow> bool" where
  "rebuilt H s s' \<longleftrightarrow> rebuild_ok s' \<and> isKubevirt (r_pool s') = isKubevirt (r_pool s) \<and>
     (\<forall>x. undisturbed x s' \<longrightarrow> undisturbed x s \<and>
        (\<forall>k j. (k, x, j) \<in> holders (macPoolMap (r_pool s')) \<longleftrightarrow>
           (k, x, j) \<in> holders (macPoolMap (r_pool s)) \<or> (k, x, j) \<in> H))"

lemma rebuilt_refl: "rebuild_ok s \<Longrightarrow> rebuilt {} s s"
  by (simp add: rebuilt_def)

lemma rebuilt_trans: "rebuilt H s s' \<Longrightarrow> rebuilt H' s' s'' \<Longrightarrow> rebuilt (H \<union> H') s s''"
  unfolding rebuilt_def by auto

lemma rebuiltD: "rebuilt H s s' \<Longrightarrow> rebuild_ok s'"
  by (simp add: rebuilt_def)

lemma run_handlers_rebuilt:
  assumes "rebuild_ok s" "\<forall>(w, e)\<in>set es. world_ok w \<and> event_ok w e"
  shows "\<exists>s'. run_handlers es s = Ret s' \<and> rebuilt {} s s'"
  using assms
proof (induction es s rule: run_handlers.induct)
  case (1 s)
  then show ?case by (simp add: rebuilt_refl)
next
  case (2 w e es s)
  then have ok: "sys_ok (r_pool s)" "world_ok w" "event_ok w e" by (auto simp: rebuild_ok_def)
  then obtain p where p: "exec w e (r_pool s) = Ret p" "sys_ok p" "isPoolReady p = isPoolReady (r_pool s)"
      "isKubevirt p = isKubevirt (r_pool s)"
      "\<And>x. \<not> concerns w e x (r_pool s) \<Longrightarrow> entries_kept x (macPoolMap (r_pool s)) (macPoolMap p)"
    using exec_ok [OF ok] by (auto simp: handled_ok_def)
  let ?s1 = "s\<lparr>r_pool := p, r_past := (w, e, r_pool s) # r_past s\<rparr>"
  from 2(2) p(1-3) have "rebuild_ok ?s1" by (auto simp: rebuild_ok_def)
  moreover from this p(4,5) have "rebuilt {} s ?s1"
    by (auto simp: rebuilt_def undisturbed_def entries_kept_holders)
  ultimately show ?case using 2(1) [of p] 2(3) p(1) rebuilt_trans [of "{}" s ?s1 "{}"] by auto
qed

lemma next_batch_rebuilt:
  assumes "rebuild_ok s"
  shows "\<exists>s'. next_batch s = Ret s' \<and> rebuilt {} s s'"
proof (cases "r_coming s")
  case Nil
  with assms show ?thesis by (simp add: next_batch_def rebuilt_refl)
next
  case (Cons es batches)
  let ?s = "s\<lparr>r_coming := batches\<rparr>"
  have "rebuild_ok ?s" "\<forall>(w, e)\<in>set es. world_ok w \<and> event_ok w e"
    using assms Cons by (auto simp: rebuild_ok_def coming_ok_def)
  then have "\<exists>s'. run_handlers es ?s = Ret s' \<and> rebuilt {} ?s s'" by (rule run_handlers_rebuilt)
  with Cons show ?thesis by (auto simp: next_batch_def rebuilt_def undisturbed_def)
qed

text \<open>An access of the rebuild that stays in its frame, with the handlers before it.\<close>

lemma among_rebuilt:
  assumes "rebuild_ok s" and f: "\<And>p. pool_ok p \<Longrightarrow>
      \<exists>e q. f p = Ret (e, q) \<and> start_frame p q \<and> (e = None \<longleftrightarrow> ok) \<and> (ok \<longrightarrow> holders (macPoolMap q) = holders (macPoolMap p) \<union> H)"
  shows "\<exists>e s'. among f s = Ret (e, s') \<and> rebuild_ok s' \<and> (e = None \<longleftrightarrow> ok) \<and> (ok \<longrightarrow> rebuilt H s s')"
proof -
  obtain s1 where s1: "next_batch s = Ret s1" "rebuilt {} s s1" using next_batch_rebuilt [OF assms(1)] by blast
  then have s1_ok: "rebuild_ok s1" by (simp add: rebuiltD)
  then obtain e q where q: "f (r_pool s1) = Ret (e, q)" "start_frame (r_pool s1) q" "e = None \<longleftrightarrow> ok"
      "ok \<longrightarrow> holders (macPoolMap q) = holders (macPoolMap (r_pool s1)) \<union> H"
    using f [of "r_pool s1"] by (auto simp: rebuild_ok_def sys_ok_def)
  have "rebuild_ok (s1\<lparr>r_pool := q\<rparr>)"
    using s1_ok q(2) by (auto simp: rebuild_ok_def intro: sys_ok_start_frame)
  moreover from this q have "ok \<longrightarrow> rebuilt H s1 (s1\<lparr>r_pool := q\<rparr>)"
    by (auto simp: rebuilt_def undisturbed_def)
  ultimately show ?thesis using s1 q(1,3) rebuilt_trans [OF s1(2)] by (auto simp: among_def)
qed

lemma for_each_rebuilt:
  assumes "rebuild_ok s" "\<And>x s. x \<in> set xs \<Longrightarrow> rebuild_ok s \<Longrightarrow> \<exists>s'. body x s = Ret (None, s') \<and> rebuilt (H x) s s'"
  shows "\<exists>s'. for_each body xs s = Ret (None, s') \<and> rebuilt (\<Union>x\<in>set xs. H x) s s'"
  using assms
proof (induction xs arbitrary: s)
  case (Cons x xs)
  obtain s' where x: "body x s = Ret (None, s')" "rebuilt (H x) s s'"
    using Cons.prems(1) Cons.prems(2) [of x s] by auto
  with Cons.IH [OF rebuiltD [OF x(2)]] Cons.prems(2) rebuilt_trans [OF x(2)] show ?case by auto
qed (simp add: rebuilt_refl)

subsection \<open>The loops among the handlers\<close>

text \<open>The rounds of the rebuild for an interface and for a network.\<close>

definition iface_asks :: "(string \<Rightarrow> vm_network option) \<Rightarrow> vm_interface \<Rightarrow> bool" where
  "iface_asks networks i \<longleftrightarrow> IsInterfaceSupported i networks \<and> iface_MacAddress i \<noteq> []"

lemma iface_rebuilt:
  assumes "rebuild_ok s"
  shows "\<exists>e s'. among (initMacFromInterface n networks i) s = Ret (e, s') \<and> rebuild_ok s' \<and>
     (e = None \<longleftrightarrow> (iface_asks networks i \<longrightarrow> (\<exists>a. ParseMAC (iface_MacAddress i) = Inr a))) \<and>
     ((iface_asks networks i \<longrightarrow> (\<exists>a. ParseMAC (iface_MacAddress i) = Inr a)) \<longrightarrow>
        rebuilt (if iface_asks networks i then {(NewMacKey (iface_MacAddress i), n, iface_Name i)} else {}) s s')"
  using assms
proof (rule among_rebuilt)
  fix p assume "pool_ok p"
  from initMacFromInterface_cases [OF start_frame_refl [OF this], of i networks n] start_frame_refl [OF this]
  show "\<exists>e q. initMacFromInterface n networks i p = Ret (e, q) \<and> start_frame p q \<and>
      (e = None \<longleftrightarrow> (iface_asks networks i \<longrightarrow> (\<exists>a. ParseMAC (iface_MacAddress i) = Inr a))) \<and>
      ((iface_asks networks i \<longrightarrow> (\<exists>a. ParseMAC (iface_MacAddress i) = Inr a)) \<longrightarrow> holders (macPoolMap q) =
        holders (macPoolMap p) \<union> (if iface_asks networks i then {(NewMacKey (iface_MacAddress i), n, iface_Name i)} else {}))"
    unfolding iface_asks_def by (auto split: if_splits)
qed

lemma network_rebuilt:
  assumes "rebuild_ok s"
  shows "\<exists>s'. among (initMacFromNetwork pd n) s = Ret (None, s') \<and>
     rebuilt (if \<exists>a. ParseMAC (sel_MacRequest n) = Inr a
       then {(NewMacKey (sel_MacRequest n), pod_owner pd, sel_Name n)} else {}) s s'"
proof -
  let ?H = "if \<exists>a. ParseMAC (sel_MacRequest n) = Inr a
    then {(NewMacKey (sel_MacRequest n), pod_owner pd, sel_Name n)} else {}"
  have "\<exists>e s'. among (initMacFromNetwork pd n) s = Ret (e, s') \<and> rebuild_ok s' \<and> (e = None \<longleftrightarrow> True) \<and> (True \<longrightarrow> rebuilt ?H s s')"
    using assms
  proof (rule among_rebuilt)
    fix p assume "pool_ok p"
    then show "\<exists>e q. initMacFromNetwork pd n p = Ret (e, q) \<and> start_frame p q \<and> (e = None \<longleftrightarrow> True) \<and>
        (True \<longrightarrow> holders (macPoolMap q) = holders (macPoolMap p) \<union> ?H)"
      by (auto simp: initMacFromNetwork_eq holders_hold intro: start_frame_refl start_frame_hold)
  qed
  then show ?thesis by auto
qed

lemma pod_rebuilt:
  assumes "pod_readable js pd" "rebuild_ok s"
  shows "\<exists>s'. forEachNetworkOfPod k js (\<lambda>pd network. among (initMacFromNetwork pd network)) pd s = Ret (None, s') \<and>
     rebuilt (pod_holdings k js pd) s s'"
proof -
  obtain ns where ns: "\<And>(f :: pod \<Rightarrow> network_selection \<Rightarrow> rebuild \<Rightarrow> _) s. forEachNetworkOfPod k js f pd s = for_each (f pd) ns s"
      "pod_requests k js pd = filter (\<lambda>n. \<exists>a. ParseMAC (sel_MacRequest n) = Inr a) ns"
    using assms(1) by (rule forEachNetworkOfPod_eq) blast
  let ?H = "\<lambda>n. if \<exists>a. ParseMAC (sel_MacRequest n) = Inr a
    then {(NewMacKey (sel_MacRequest n), pod_owner pd, sel_Name n)} else {}"
  have "\<exists>s'. for_each (\<lambda>n. among (initMacFromNetwork pd n)) ns s = Ret (None, s') \<and> rebuilt (\<Union>n\<in>set ns. ?H n) s s'"
    using assms(2) network_rebuilt by (rule for_each_rebuilt)
  moreover have "(\<Union>n\<in>set ns. ?H n) = pod_holdings k js pd"
    by (auto simp: pod_holdings_def ns(2) split: if_splits)
  ultimately show ?thesis by (simp add: ns(1))
qed

abbreviation vm_among :: "virtual_machine \<Rightarrow> rebuild \<Rightarrow> (go_error option \<times> rebuild) run" where
  "vm_among \<equiv> forEachInterfaceOfVm (\<lambda>vmFullName networks iface. among (initMacFromInterface vmFullName networks iface))"

lemma vm_among_eq:
  assumes "vm_Template vm = Some t"
  shows "vm_among vm s = bind_run
     (for_each (\<lambda>i. among (initMacFromInterface (VmNamespaced vm) (networks_by_name (Networks t)) i)) (if Networks t = [] then [] else Interfaces t) s)
     (\<lambda>(e, s'). Ret (map_option (ErrWrap ''failed vm interface loop on vm'') e, s'))"
  using assms
  by (auto simp: forEachInterfaceOfVm_def getVirtualMachineInterfaces_def getVirtualMachineNetworks_def intro!: arg_cong [of _ _ "bind_run _"]
      split: option.split)

lemma vm_rebuilt:
  assumes "vm_Template vm \<noteq> None" "vm_valid vm" "rebuild_ok s"
  shows "\<exists>s'. vm_among vm s = Ret (None, s') \<and> rebuilt (vm_holdings vm) s s'"
proof -
  obtain t where t: "vm_Template vm = Some t" using assms(1) by auto
  let ?nets = "networks_by_name (Networks t)" and ?n = "VmNamespaced vm" and ?is = "if Networks t = [] then [] else Interfaces t"
  let ?H = "\<lambda>i. if iface_asks ?nets i then {(NewMacKey (iface_MacAddress i), ?n, iface_Name i)} else {}"
  have "\<exists>s'. for_each (\<lambda>i. among (initMacFromInterface ?n ?nets i)) ?is s = Ret (None, s') \<and> rebuilt (\<Union>i\<in>set ?is. ?H i) s s'"
    using assms(3)
  proof (rule for_each_rebuilt)
    fix i s assume "i \<in> set ?is" "rebuild_ok s"
    with assms(2) t iface_rebuilt [of s ?n ?nets i] show "\<exists>s'. among (initMacFromInterface ?n ?nets i) s = Ret (None, s') \<and> rebuilt (?H i) s s'"
      by (auto simp: vm_valid_def vm_requests_def iface_asks_def split: if_splits)
  qed
  moreover have "(\<Union>i\<in>set ?is. ?H i) = vm_holdings vm"
    using t by (auto simp: vm_holdings_def vm_requests_def iface_asks_def split: if_splits)
  ultimately show ?thesis by (auto simp: vm_among_eq [OF t])
qed

lemma vm_fails:
  assumes "vm_Template vm \<noteq> None" "\<not> vm_valid vm" "rebuild_ok s"
  shows "\<exists>err s'. vm_among vm s = Ret (Some err, s') \<and> rebuild_ok s'"
proof -
  obtain t where t: "vm_Template vm = Some t" using assms(1) by auto
  let ?nets = "networks_by_name (Networks t)" and ?is = "if Networks t = [] then [] else Interfaces t"
  let ?body = "\<lambda>i. among (initMacFromInterface (VmNamespaced vm) ?nets i)"
  obtain i where i: "i \<in> set ?is" "iface_asks ?nets i" "\<nexists>a. ParseMAC (iface_MacAddress i) = Inr a"
    using assms(2) t by (auto simp: vm_valid_def vm_requests_def iface_asks_def split: if_splits)
  have keeps: "\<exists>e s'. ?body j s = Ret (e, s') \<and> rebuild_ok s'" if "rebuild_ok s" for j s
    using iface_rebuilt [OF that] by blast
  have fails: "\<exists>err s'. ?body i s = Ret (Some err, s')" if "rebuild_ok s" for s
    using iface_rebuilt [OF that, of "VmNamespaced vm" ?nets i] i by auto
  have "\<exists>err s'. for_each ?body ?is s = Ret (Some err, s')"
    using assms(3) i(1) fails keeps by (rule for_each_fails [where I = rebuild_ok])
  moreover have "\<exists>e s'. for_each ?body ?is s = Ret (e, s') \<and> rebuild_ok s'"
    using assms(3) keeps by (rule for_each_invariant)
  ultimately show ?thesis by (auto simp: vm_among_eq [OF t])
qed

subsection \<open>The whole rebuild\<close>

lemma initPodMap_rebuilt:
  assumes "cluster_view k js vms pods" "rebuild_ok s"
  shows "\<exists>s'. initPodMap_among k js s = Ret (None, s') \<and> rebuilt (\<Union>pd\<in>set pods. pod_holdings k js pd) s s'"
proof -
  let ?body = "forEachNetworkOfPod k js (\<lambda>pd network. among (initMacFromNetwork pd network))"
  have "\<exists>s'. for_each ?body pods s = Ret (None, s') \<and> rebuilt (\<Union>pd\<in>set pods. pod_holdings k js pd) s s'"
    using assms by (intro for_each_rebuilt pod_rebuilt) (auto simp: cluster_view_def)
  moreover have "initPodMap_among k js s = for_each ?body pods s" if "\<exists>s'. for_each ?body pods s = Ret (None, s')"
    using assms(1) that by (auto simp: cluster_view_def initPodMap_among_def paginatePods_eq)
  ultimately show ?thesis by auto
qed

lemma initVirtualMachineMap_among_eq:
  assumes "cluster_view k js vms pods" "isKubevirt (r_pool s)" "for_each vm_among vms s = Ret (e, s')"
  shows "\<exists>e'. initVirtualMachineMap_among k s = Ret (e', s') \<and> (e' = None \<longleftrightarrow> e = None)"
  using assms
  by (auto simp: cluster_view_def initVirtualMachineMap_among_def initMacMapFromCluster_among_def
      forEachManagedVmInterfaceInClusterRunFunction_def paginateVms_eq)

lemma initVirtualMachineMap_rebuilt:
  assumes "cluster_view k js vms pods" "isKubevirt (r_pool s)" "rebuild_ok s"
  shows "\<exists>e s'. initVirtualMachineMap_among k s = Ret (e, s') \<and> rebuild_ok s' \<and> (e = None \<longleftrightarrow> (\<forall>vm\<in>set vms. vm_valid vm)) \<and>
     ((\<forall>vm\<in>set vms. vm_valid vm) \<longrightarrow> rebuilt (\<Union>vm\<in>set vms. vm_holdings vm) s s')"
proof -
  have templates: "vm_Template vm \<noteq> None" if "vm \<in> set vms" for vm
    using assms(1) that by (auto simp: cluster_view_def)
  have "\<exists>e s'. for_each vm_among vms s = Ret (e, s') \<and> rebuild_ok s' \<and> (e = None \<longleftrightarrow> (\<forall>vm\<in>set vms. vm_valid vm)) \<and>
     ((\<forall>vm\<in>set vms. vm_valid vm) \<longrightarrow> rebuilt (\<Union>vm\<in>set vms. vm_holdings vm) s s')"
  proof (cases "\<forall>vm\<in>set vms. vm_valid vm")
    case True
    then have "\<exists>s'. for_each vm_among vms s = Ret (None, s') \<and> rebuilt (\<Union>vm\<in>set vms. vm_holdings vm) s s'"
      using assms(3) templates by (intro for_each_rebuilt vm_rebuilt) auto
    then show ?thesis using True by (auto dest: rebuiltD)
  next
    case False
    then obtain vm where vm: "vm \<in> set vms" "\<not> vm_valid vm" by auto
    have keeps: "\<exists>e s'. vm_among y s = Ret (e, s') \<and> rebuild_ok s'" if "y \<in> set vms" "rebuild_ok s" for y s
      using vm_rebuilt [OF templates [OF that(1)] _ that(2)] vm_fails [OF templates [OF that(1)] _ that(2)] rebuiltD
      by (cases "vm_valid y") blast+
    have "\<exists>err s'. for_each vm_among vms s = Ret (Some err, s')"
      using for_each_fails [of rebuild_ok s vm vms vm_among] assms(3) vm(1) keeps vm_fails [OF templates [OF vm(1)] vm(2)] by blast
    moreover have "\<exists>e s'. for_each vm_among vms s = Ret (e, s') \<and> rebuild_ok s'"
      using assms(3) keeps by (rule for_each_invariant)
    ultimately show ?thesis using False by auto
  qed
  then show ?thesis using initVirtualMachineMap_among_eq [OF assms(1,2)] by metis
qed

lemma rebuild_ok_of: "sys_ok p \<Longrightarrow> \<not> isPoolReady p \<Longrightarrow> coming_ok batches \<Longrightarrow> rebuild_ok (rebuild_of p batches)"
  by (simp add: rebuild_ok_def rebuild_of_def)

text \<open>Whatever the cluster answers, the rebuild keeps what its accesses keep.\<close>

lemma keeps_InitMaps_among:
  assumes "\<And>pd n. keeps_run I (among (initMacFromNetwork pd n))"
    and "\<And>x networks i. keeps_run I (among (initMacFromInterface x networks i))"
  shows "keeps_run I (InitMaps_among k js)"
proof -
  have "keeps_run I (initPodMap_among k js)" "keeps_run I (initVirtualMachineMap_among k)"
    unfolding initPodMap_among_def initVirtualMachineMap_among_def initMacMapFromCluster_among_def
      forEachManagedVmInterfaceInClusterRunFunction_def
    by (intro keeps_intros keeps_paginatePods keeps_paginateVms keeps_forEachNetworkOfPod keeps_forEachInterfaceOfVm assms)+
  then show ?thesis unfolding InitMaps_among_def by (intro keeps_then keeps_intros)
qed

lemma Start_among_keeps:
  assumes "rebuild_ok s" "Start_among k js s = Ret (err, cleanup, s')"
  shows "sys_ok (r_pool s')"
proof -
  obtain e s1 where s1: "InitMaps_among k js s = Ret (e, s1)"
    using assms(2) by (auto simp: Start_among_def bind_run_eq_Ret)
  have "keeps_run rebuild_ok (InitMaps_among k js)"
  proof (rule keeps_InitMaps_among; rule keeps_runI)
    show "rebuild_ok s'" if "rebuild_ok s" "among (initMacFromNetwork pd n) s = Ret (e, s')" for pd n s e s'
      using that network_rebuilt [OF that(1), of pd n] rebuiltD by auto
    show "rebuild_ok s'" if "rebuild_ok s" "among (initMacFromInterface x networks i) s = Ret (e, s')" for x networks i s e s'
      using that iface_rebuilt [OF that(1), of x networks i] by auto
  qed
  then have s1_ok: "rebuild_ok s1" using assms(1) s1 by (rule keeps_runD)
  then obtain s2 where "next_batch s1 = Ret s2" "rebuild_ok s2" using next_batch_rebuilt rebuiltD by blast
  with assms(2) s1 s1_ok show ?thesis by (cases e) (auto simp: Start_among_def rebuild_ok_def)
qed

text \<open>On a cluster without a null element the rebuild does not panic.\<close>

lemma Start_among_no_panic:
  assumes "stored_ok k js" "rebuild_ok s"
  shows "Start_among k js s \<noteq> Panics"
proof -
  have net: "safe_run rebuild_ok (among (initMacFromNetwork pd n))" for pd n
    using network_rebuilt rebuiltD by (intro safe_runI) blast
  have iface: "safe_run rebuild_ok (among (initMacFromInterface x networks i))" for x networks i
    using iface_rebuilt by (intro safe_runI) blast
  note safe = safe_rebuild [OF assms(1) net iface]
  have "safe_run rebuild_ok (initPodMap_among k js)" "safe_run rebuild_ok (initVirtualMachineMap_among k)"
    unfolding initPodMap_among_def initVirtualMachineMap_among_def initMacMapFromCluster_among_def
    by (intro safe_then safe_intros safe)+
  then have "safe_run rebuild_ok (InitMaps_among k js)"
    unfolding InitMaps_among_def by (intro safe_then safe_intros)
  then show ?thesis using assms(2)
  proof (cases rule: safe_run_cases)
    case (1 e s1)
    with next_batch_rebuilt [OF 1(2)] show ?thesis by (cases e) (auto simp: Start_among_def)
  qed (simp add: Start_among_def)
qed

text \<open>What one batch of handlers leaves in the pool is there after the rebuild, when no other handlers run.\<close>

definition batch_left :: "pool_manager \<Rightarrow> (world \<times> event) list \<Rightarrow> macKey \<times> string \<times> string \<Rightarrow> rebuild \<Rightarrow> bool" where
  "batch_left p es h s \<longleftrightarrow> s = rebuild_of p [es] \<or>
     r_coming s = [] \<and> pool_ok (r_pool s) \<and> h \<in> holders (macPoolMap (r_pool s))"

lemma run_handlers_coming: "run_handlers es s = Ret s' \<Longrightarrow> r_coming s' = r_coming s"
  by (induction es s rule: run_handlers.induct) (auto simp: bind_run_eq_Ret)

lemma next_batch_left:
  assumes "batch_left p es h s" "run_handlers es (rebuild_of p []) = Ret s1" "pool_ok (r_pool s1)" "h \<in> holders (macPoolMap (r_pool s1))"
  shows "\<exists>s'. next_batch s = Ret s' \<and> r_coming s' = [] \<and> pool_ok (r_pool s') \<and> h \<in> holders (macPoolMap (r_pool s'))"
  using assms run_handlers_coming [OF assms(2)]
  by (auto simp: batch_left_def next_batch_def rebuild_of_def)

lemma among_left:
  assumes "run_handlers es (rebuild_of p []) = Ret s1" "pool_ok (r_pool s1)" "h \<in> holders (macPoolMap (r_pool s1))"
    and f: "\<And>p. pool_ok p \<Longrightarrow> \<exists>e q. f p = Ret (e, q) \<and> start_frame p q \<and> holders (macPoolMap p) \<subseteq> holders (macPoolMap q)"
  shows "keeps_run (batch_left p es h) (among f)"
proof (rule keeps_runI)
  fix s e s' assume "batch_left p es h s" and r: "among f s = Ret (e, s')"
  from next_batch_left [OF this(1) assms(1-3)] obtain s2 where s2: "next_batch s = Ret s2" "r_coming s2 = []"
      "pool_ok (r_pool s2)" "h \<in> holders (macPoolMap (r_pool s2))" by blast
  obtain e' q where q: "f (r_pool s2) = Ret (e', q)" "start_frame (r_pool s2) q" "h \<in> holders (macPoolMap q)"
    using f [OF s2(3)] s2(4) by blast
  have "s' = s2\<lparr>r_pool := q\<rparr>" using r s2(1) q(1) by (simp add: among_def)
  with s2(2) q(2,3) show "batch_left p es h s'" by (simp add: batch_left_def start_frame_ok)
qed

lemma initMac_grows:
  assumes "pool_ok p"
  shows "\<exists>e q. initMacFromNetwork pd n p = Ret (e, q) \<and> start_frame p q \<and> holders (macPoolMap p) \<subseteq> holders (macPoolMap q)"
    "\<exists>e q. initMacFromInterface x networks i p = Ret (e, q) \<and> start_frame p q \<and> holders (macPoolMap p) \<subseteq> holders (macPoolMap q)"
proof -
  note refl = start_frame_refl [OF assms]
  show "\<exists>e q. initMacFromNetwork pd n p = Ret (e, q) \<and> start_frame p q \<and> holders (macPoolMap p) \<subseteq> holders (macPoolMap q)"
    using refl start_frame_hold [OF refl] by (auto simp: initMacFromNetwork_eq holders_hold)
  show "\<exists>e q. initMacFromInterface x networks i p = Ret (e, q) \<and> start_frame p q \<and> holders (macPoolMap p) \<subseteq> holders (macPoolMap q)"
    using initMacFromInterface_cases [OF refl, of i networks x] refl by (auto split: if_splits)
qed

lemma Start_among_takes:
  assumes "cluster_view k js vms pods" "sys_ok p" "isKubevirt p" "\<not> isPoolReady p" "coming_ok batches"
  shows "\<exists>err s. Start_among k js (rebuild_of p batches) = Ret (err, err = None, s) \<and> sys_ok (r_pool s) \<and>
     (err = None \<longleftrightarrow> (\<forall>vm\<in>set vms. vm_valid vm)) \<and> (isPoolReady (r_pool s) \<longleftrightarrow> err = None) \<and>
     (\<forall>(w, e, q)\<in>set (r_past s). sys_ok q \<and> \<not> IsReady q \<and> (\<exists>q'. exec w e q = Ret q')) \<and>
     (err = None \<longrightarrow> (\<forall>mac x j. undisturbed x s \<longrightarrow> ((mac, x, j) \<in> holders (macPoolMap (r_pool s)) \<longleftrightarrow>
        (mac, x, j) \<in> holders (macPoolMap p) \<or> (\<exists>vm\<in>set vms. (mac, x, j) \<in> vm_holdings vm) \<or>
        (\<exists>pd\<in>set pods. (mac, x, j) \<in> pod_holdings k js pd))))"
proof -
  let ?s = "rebuild_of p batches" and ?valid = "\<forall>vm\<in>set vms. vm_valid vm"
  obtain s1 where s1: "initPodMap_among k js ?s = Ret (None, s1)" "rebuilt (\<Union>pd\<in>set pods. pod_holdings k js pd) ?s s1"
    using initPodMap_rebuilt [OF assms(1) rebuild_ok_of] assms(2,4,5) by blast
  then have "isKubevirt (r_pool s1)" using assms(3) by (simp add: rebuilt_def rebuild_of_def)
  then obtain e s2 where s2: "initVirtualMachineMap_among k s1 = Ret (e, s2)" "rebuild_ok s2" "e = None \<longleftrightarrow> ?valid"
      "?valid \<longrightarrow> rebuilt (\<Union>vm\<in>set vms. vm_holdings vm) s1 s2"
    using initVirtualMachineMap_rebuilt [OF assms(1) _ rebuiltD [OF s1(2)]] by blast
  have init: "InitMaps_among k js ?s = Ret (e, s2)" using s1(1) s2(1) by (simp add: InitMaps_among_def)
  have past: "\<forall>(w, e, q)\<in>set (r_past s). sys_ok q \<and> \<not> IsReady q \<and> (\<exists>q'. exec w e q = Ret q')"
    if "rebuild_ok s" for s
    using that by (auto simp: rebuild_ok_def IsReady_def)
  show ?thesis
  proof (cases e)
    case (Some err)
    have "Start_among k js ?s = Ret (Some (ErrWrap ''failed Init pool manager maps'' err), False, s2)"
      using init Some by (simp add: Start_among_def)
    moreover have "sys_ok (r_pool s2)" "\<not> isPoolReady (r_pool s2)" using s2(2) by (simp_all add: rebuild_ok_def)
    moreover have "\<not> ?valid" using Some s2(3) by simp
    ultimately show ?thesis using past [OF s2(2)] by auto
  next
    case None
    with s2(3,4) have s12: "rebuilt (\<Union>vm\<in>set vms. vm_holdings vm) s1 s2" by simp
    obtain s3 where s3: "next_batch s2 = Ret s3" "rebuilt {} s2 s3" using next_batch_rebuilt [OF s2(2)] by blast
    let ?s' = "s3\<lparr>r_pool := (r_pool s3)\<lparr>isPoolReady := True\<rparr>\<rparr>"
    have all: "rebuilt ((\<Union>pd\<in>set pods. pod_holdings k js pd) \<union> (\<Union>vm\<in>set vms. vm_holdings vm) \<union> {}) ?s s3"
      using rebuilt_trans [OF rebuilt_trans [OF s1(2) s12] s3(2)] .
    then have s3_ok: "rebuild_ok s3" "isKubevirt (r_pool s3)" using assms(3) by (simp_all add: rebuilt_def rebuild_of_def)
    have "Start_among k js ?s = Ret (None, True, ?s')" using init None s3(1) s3_ok(2) by (simp add: Start_among_def)
    moreover have "sys_ok (r_pool ?s')" using s3_ok(1) by (simp add: rebuild_ok_def)
    moreover have "(mac, x, j) \<in> holders (macPoolMap (r_pool s3)) \<longleftrightarrow>
        (mac, x, j) \<in> holders (macPoolMap p) \<or> (\<exists>vm\<in>set vms. (mac, x, j) \<in> vm_holdings vm) \<or>
        (\<exists>pd\<in>set pods. (mac, x, j) \<in> pod_holdings k js pd)" if "undisturbed x ?s'" for mac x j
      using all that by (auto simp: rebuilt_def rebuild_of_def undisturbed_def)
    ultimately show ?thesis using None s2(3) past [OF s3_ok(1)]
      by (intro exI [of _ None] exI [of _ ?s']) simp
  qed
qed

lemma early_batch_kept:
  assumes "Start_among k js (rebuild_of p [es]) = Ret (None, cleanup, s)"
    and "run_handlers es (rebuild_of p []) = Ret s1" "pool_ok (r_pool s1)" "h \<in> holders (macPoolMap (r_pool s1))"
  shows "h \<in> holders (macPoolMap (r_pool s))"
proof -
  obtain s2 where s2: "InitMaps_among k js (rebuild_of p [es]) = Ret (None, s2)"
    using assms(1) by (auto simp: Start_among_def bind_run_eq_Ret split: option.splits)
  have "keeps_run (batch_left p es h) (InitMaps_among k js)"
    by (intro keeps_InitMaps_among among_left [OF assms(2-4)] initMac_grows)
  then have "batch_left p es h s2" using _ s2 by (rule keeps_runD) (simp add: batch_left_def)
  from next_batch_left [OF this assms(2-4)] assms(1) s2 show ?thesis by (auto simp: Start_among_def)
qed

text \<open>Only handlers from the batches run.\<close>

definition events_in :: "(world \<times> event) set \<Rightarrow> rebuild \<Rightarrow> bool" where
  "events_in E s \<longleftrightarrow> (\<forall>es\<in>set (r_coming s). set es \<subseteq> E) \<and> (\<forall>(w, e, q)\<in>set (r_past s). (w, e) \<in> E)"

lemma events_in_run_handlers: "run_handlers es s = Ret s' \<Longrightarrow> events_in E s \<Longrightarrow> set es \<subseteq> E \<Longrightarrow> events_in E s'"
proof (induction es s rule: run_handlers.induct)
  case (2 w e es s)
  then obtain p where p: "exec w e (r_pool s) = Ret p"
      "run_handlers es (s\<lparr>r_pool := p, r_past := (w, e, r_pool s) # r_past s\<rparr>) = Ret s'" by (auto simp: bind_run_eq_Ret)
  from 2(3,4) have "events_in E (s\<lparr>r_pool := p, r_past := (w, e, r_pool s) # r_past s\<rparr>)" by (simp add: events_in_def)
  with 2(1) [OF p(2)] 2(4) show ?case by simp
qed simp

lemma events_in_next_batch: "next_batch s = Ret s' \<Longrightarrow> events_in E s \<Longrightarrow> events_in E s'"
proof (cases "r_coming s")
  case (Cons es batches)
  assume r: "next_batch s = Ret s'" and E: "events_in E s"
  from r Cons have "run_handlers es (s\<lparr>r_coming := batches\<rparr>) = Ret s'" by (simp add: next_batch_def)
  moreover from E Cons have "events_in E (s\<lparr>r_coming := batches\<rparr>)" "set es \<subseteq> E" by (simp_all add: events_in_def)
  ultimately show ?thesis by (rule events_in_run_handlers)
qed (simp add: next_batch_def)

lemma events_in_Start_among:
  assumes "Start_among k js s = Ret (err, cleanup, s')" "events_in E s"
  shows "events_in E s'"
proof -
  have "keeps_run (events_in E) (among f)" for f
  proof (rule keeps_runI)
    fix s e s' assume "events_in E s" "among f s = Ret (e, s')"
    then obtain s1 q where "next_batch s = Ret s1" "s' = s1\<lparr>r_pool := q\<rparr>" by (auto simp: among_def bind_run_eq_Ret)
    with \<open>events_in E s\<close> events_in_next_batch [of s s1 E] show "events_in E s'" by (simp add: events_in_def)
  qed
  then have keeps: "keeps_run (events_in E) (InitMaps_among k js)" by (intro keeps_InitMaps_among)
  obtain e s1 where s1: "InitMaps_among k js s = Ret (e, s1)" using assms(1) by (auto simp: Start_among_def bind_run_eq_Ret)
  have s1_in: "events_in E s1" using keeps assms(2) s1 by (rule keeps_runD)
  show ?thesis
  proof (cases e)
    case None
    with assms(1) s1 obtain s2 where "next_batch s1 = Ret s2" "s' = s2\<lparr>r_pool := (r_pool s2)\<lparr>isPoolReady := True\<rparr>\<rparr>"
      by (auto simp: Start_among_def bind_run_eq_Ret)
    with events_in_next_batch [OF _ s1_in] show ?thesis by (simp add: events_in_def)
  qed (use assms(1) s1 s1_in in \<open>simp add: Start_among_def\<close>)
qed

subsection \<open>Properties\<close>

text \<open>C19: Start-up rebuilds the pool from the cluster, among handlers that run in any number and at any time while it goes over
  the managed machines and pods. Every handler sees a well-formed pool manager that is not ready, and returns. Start-up succeeds,
  and marks the pool ready, exactly if every address of a managed machine can be parsed. The pool then holds, for every object
  that none of the handlers concerned, exactly what it held before and the addresses that the object has in the cluster. With no
  handlers in between this is the plain \<open>Start\<close>.\<close>

theorem Start_among_rebuilds:
  assumes "cluster_view k js vms pods" "sys_ok p" "isKubevirt p" "\<not> isPoolReady p" "coming_ok batches"
  shows "\<exists>err s. Start_among k js (rebuild_of p batches) = Ret (err, err = None, s) \<and> sys_ok (r_pool s) \<and>
     (err = None \<longleftrightarrow> (\<forall>vm\<in>set vms. vm_valid vm)) \<and> (isPoolReady (r_pool s) \<longleftrightarrow> err = None) \<and>
     (\<forall>(w, e, q)\<in>set (r_past s). sys_ok q \<and> \<not> IsReady q \<and> (\<exists>q'. exec w e q = Ret q')) \<and>
     (err = None \<longrightarrow> (\<forall>mac x j. undisturbed x s \<longrightarrow> ((mac, x, j) \<in> holders (macPoolMap (r_pool s)) \<longleftrightarrow>
        (mac, x, j) \<in> holders (macPoolMap p) \<or> (\<exists>vm\<in>set vms. (mac, x, j) \<in> vm_holdings vm) \<or>
        (\<exists>pd\<in>set pods. (mac, x, j) \<in> pod_holdings k js pd)))) \<and>
     (batches = [] \<longrightarrow> Start k js p = Ret (err, err = None, r_pool s) \<and> (\<forall>x. undisturbed x s))"
proof -
  have alone: "Start k js p = Ret (err, cleanup, r_pool s) \<and> (\<forall>x. undisturbed x s)"
    if "Start_among k js (rebuild_of p batches) = Ret (err, cleanup, s)" "batches = []" for err cleanup s
    using that Start_among_alone [of k js p] by (cases "Start k js p") (auto simp: rebuild_of_def undisturbed_def)
  obtain err s where s: "Start_among k js (rebuild_of p batches) = Ret (err, err = None, s)" "sys_ok (r_pool s)"
      "err = None \<longleftrightarrow> (\<forall>vm\<in>set vms. vm_valid vm)" "isPoolReady (r_pool s) \<longleftrightarrow> err = None"
      "\<forall>(w, e, q)\<in>set (r_past s). sys_ok q \<and> \<not> IsReady q \<and> (\<exists>q'. exec w e q = Ret q')"
      "err = None \<longrightarrow> (\<forall>mac x j. undisturbed x s \<longrightarrow> ((mac, x, j) \<in> holders (macPoolMap (r_pool s)) \<longleftrightarrow>
        (mac, x, j) \<in> holders (macPoolMap p) \<or> (\<exists>vm\<in>set vms. (mac, x, j) \<in> vm_holdings vm) \<or>
        (\<exists>pd\<in>set pods. (mac, x, j) \<in> pod_holdings k js pd)))"
    using Start_among_takes [OF assms] by blast
  with alone show ?thesis by blast
qed

text \<open>
  A new pool manager, and a cluster with a machine that has the address which the pool manager hands out first. While the pool
  is rebuilt, another machine is created.
\<close>

abbreviation unready_pool :: pool_manager where
  "unready_pool \<equiv> sample_with False Map.empty (pm_metrics sample_pool)"

definition taken_vm :: virtual_machine where
  "taken_vm = set_interfaces [sample_iface\<lparr>iface_MacAddress := ''02:00:00:00:00:07''\<rparr>] (sample_vm\<lparr>vm_Name := ''vm0''\<rparr>)"

definition taken_kube :: kube where
  "taken_kube = managed_kube\<lparr>list_vms := \<lambda>_ _. Inr ([taken_vm], []), list_pods := \<lambda>_ _. Inr ([], [])\<rparr>"

lemma taken_vm_held: "vm_valid taken_vm" "vm_holdings taken_vm = {(NewMacKey ''02:00:00:00:00:07'', ''vm/default/vm0'', ''br1'')}"
  "VmNamespaced taken_vm = ''vm/default/vm0''"
proof -
  have "ParseMAC ''02:00:00:00:00:07'' = Inr [2, 0, 0, 0, 0, 7]"
    using ParseMAC_hw_String [of "[2, 0, 0, 0, 0, 7]"] by (simp add: hex2_def hexDigit_def hw_length_ok_def hw_lengths_def)
  from one_interface_held [OF taken_vm_def this]
  show "vm_valid taken_vm" "vm_holdings taken_vm = {(NewMacKey ''02:00:00:00:00:07'', ''vm/default/vm0'', ''br1'')}" by simp_all
  show "VmNamespaced taken_vm = ''vm/default/vm0''" by (simp add: taken_vm_def set_interfaces_def sample_vm_def VmNamespaced_def)
qed

lemma taken_view: "cluster_view taken_kube sample_codec [taken_vm] []"
  unfolding taken_kube_def by (rule managed_kube_view) (simp_all add: taken_vm_def set_interfaces_def sample_vm_def)

lemma unready_facts: "sys_ok unready_pool" "isKubevirt unready_pool" "\<not> isPoolReady unready_pool"
proof -
  have "unready_pool = sample_pool\<lparr>isPoolReady := False\<rparr>" by (simp add: sample_pool_def)
  then show "sys_ok unready_pool" using reachable_sys_ok [OF reachable_sample] by simp
qed (simp_all add: sample_pool_def)

lemma sample_creation_ok: "event_ok sample_world (AdmitVm sample_creation_request)"
  by (simp add: sample_creation_request_def prepared_vm_def sample_vm_def)

theorem Start_among_rebuilds_witness:
  "\<exists>s. Start_among taken_kube sample_codec (rebuild_of unready_pool [[(sample_world, HealStale)], [(sample_world, HealStale)]]) =
     Ret (None, True, s) \<and> isPoolReady (r_pool s)"
proof -
  have "coming_ok [[(sample_world, HealStale)], [(sample_world, HealStale)]]" using sample_world_ok by (simp add: coming_ok_def)
  from Start_among_rebuilds [OF taken_view unready_facts this] taken_vm_held(1) show ?thesis by auto
qed

text \<open>C20: Why the program must not be asked before it is ready: a creation that is admitted before the rebuild has reached the
  machines of the cluster may get the address of one of them, and the rebuild then ends without an error, with two machines
  that hold one address.\<close>

theorem early_admission_collides:
  assumes "cluster_view k js vms pods" "\<forall>vm\<in>set vms. vm_valid vm" "sys_ok p" "isKubevirt p" "\<not> isPoolReady p"
    and "world_ok w" "event_ok w (AdmitVm req)" "creation_admitted w req new t p resp p1"
    and "(mac, VmNamespaced (prepared_vm req new), i) \<in> holders (macPoolMap p1)"
    and "old \<in> set vms" "(mac, VmNamespaced old, j) \<in> vm_holdings old" "VmNamespaced old \<noteq> VmNamespaced (prepared_vm req new)"
  shows "\<exists>s. Start_among k js (rebuild_of p [[(w, AdmitVm req)]]) = Ret (None, True, s) \<and> IsReady (r_pool s) \<and>
     {(mac, VmNamespaced (prepared_vm req new), i), (mac, VmNamespaced old, j)} \<subseteq> holders (macPoolMap (r_pool s))"
proof -
  let ?es = "[(w, AdmitVm req)]" and ?x = "VmNamespaced (prepared_vm req new)"
  have exec: "exec w (AdmitVm req) p = Ret p1" and new: "areq_Object req = Inr new"
    using assms(8) by (simp_all add: creation_admitted_def)
  have "sys_ok p1" using exec_ok [OF assms(3,6,7)] exec by (simp add: handled_ok_def)
  then have p1: "pool_ok p1" by (simp add: sys_ok_def)
  have "coming_ok [?es]" using assms(6,7) by (simp add: coming_ok_def)
  from Start_among_takes [OF assms(1,3-5) this] assms(2) obtain s where
    s: "Start_among k js (rebuild_of p [?es]) = Ret (None, True, s)" "isPoolReady (r_pool s)"
      "\<And>mac x j. undisturbed x s \<Longrightarrow> (\<exists>vm\<in>set vms. (mac, x, j) \<in> vm_holdings vm) \<Longrightarrow> (mac, x, j) \<in> holders (macPoolMap (r_pool s))"
    by auto
  have "run_handlers ?es (rebuild_of p []) = Ret \<lparr>r_pool = p1, r_coming = [], r_past = [(w, AdmitVm req, p)]\<rparr>"
    using exec by (simp add: rebuild_of_def)
  from early_batch_kept [OF s(1) this, of "(mac, ?x, i)"] p1 assms(9)
  have "(mac, ?x, i) \<in> holders (macPoolMap (r_pool s))" by simp
  moreover have "events_in {(w, AdmitVm req)} s"
    using s(1) by (rule events_in_Start_among) (simp add: events_in_def rebuild_of_def)
  then have "undisturbed (VmNamespaced old) s"
    using new assms(12) by (fastforce simp: events_in_def undisturbed_def)
  ultimately show ?thesis using s assms(10,11) by (auto simp: IsReady_def)
qed

theorem early_admission_collides_witness:
  "\<exists>s. Start_among taken_kube sample_codec (rebuild_of unready_pool [[(sample_world, AdmitVm sample_creation_request)]]) =
     Ret (None, True, s) \<and>
     {(NewMacKey ''02:00:00:00:00:07'', ''vm/default/vm1'', ''br1''), (NewMacKey ''02:00:00:00:00:07'', ''vm/default/vm0'', ''br1'')}
       \<subseteq> holders (macPoolMap (r_pool s))"
proof -
  let ?i = "sample_iface\<lparr>iface_MacAddress := ''02:00:00:00:00:07''\<rparr>"
  have "mac_free Map.empty [2, 0, 0, 0, 0, 7]" by (simp add: mac_free_def)
  then obtain resp p1 stored where r:
      "creation_admitted sample_world sample_creation_request sample_vm sample_template unready_pool resp p1"
      "apply_patch apply_op_vm (resp_Patches resp) sample_vm = Some stored"
      "vm_Template stored = Some (sample_template\<lparr>Interfaces := [?i]\<rparr>)"
    by (rule sample_creation_admitted [where g = "pm_metrics sample_pool" and b = False])
  have name: "VmNamespaced (prepared_vm sample_creation_request sample_vm) = ''vm/default/vm1''"
    by (simp add: sample_request_facts VmNamespaced_sample)
  obtain stored' ifaces where c: "apply_patch apply_op_vm (resp_Patches resp) sample_vm = Some stored'"
      "vm_Template stored' = Some (sample_template\<lparr>Interfaces := ifaces\<rparr>)"
      "created (prepared_vm sample_creation_request sample_vm) sample_template (Some (w_now sample_world)) unready_pool ifaces p1"
    using creation_admitted_created [OF r(1) unready_facts(1) sample_world_ok] by blast
  then have "ifaces = [?i]" using r(2,3) by (simp add: sample_template_def)
  moreover have "IsInterfaceSupported ?i (networks_by_name (Networks sample_template))"
    by (simp add: sample_template_def sample_iface_def IsInterfaceSupported_def networks_by_name_def)
  ultimately have held: "(NewMacKey ''02:00:00:00:00:07'', ''vm/default/vm1'', ''br1'') \<in> holders (macPoolMap p1)"
    using c(3) by (auto simp: created_def name) (simp add: sample_iface_def)
  from early_admission_collides [OF taken_view _ unready_facts sample_world_ok sample_creation_ok r(1),
      where mac = "NewMacKey ''02:00:00:00:00:07''" and i = "''br1''" and old = taken_vm and j = "''br1''"]
  show ?thesis using held taken_vm_held by (auto simp: name)
qed

end
