(* ===== verification/Registration.thy ===== *)
theory Registration
  imports PoolManager
begin

section \<open>Registration of the controllers and the webhooks\<close>

text \<open>
  What the packages under \<open>pkg/controller\<close> and \<open>pkg/webhook\<close> set up on a controller-runtime manager:
  indexes, controllers with what they watch, and the webhook server with its paths. The manager is
  outside the program; the errors of its functions are arguments (\<open>runtime\<close>). What is not, is the
  set of controller names of the process: a vendored function refuses a name that was used before,
  also by the controller of an earlier manager.

  Shown: what is registered with and without KubeVirt; a second registration in the same process
  fails.
\<close>

record runtime =
  index_field :: "string \<Rightarrow> string \<Rightarrow> api_error option"
  watch_kind :: "string \<Rightarrow> string \<Rightarrow> api_error option"
  add_runnable :: "string \<Rightarrow> api_error option"

record registry =
  usedNames :: "string set"
  indexed :: "(string \<times> string) list"
  controllers :: "string list"
  watches :: "(string \<times> string) list"

text \<open>A function that may fail, then the next one; and the wrapping of its error.\<close>

definition and_then :: "('s \<Rightarrow> go_error option \<times> 's) \<Rightarrow> ('s \<Rightarrow> go_error option \<times> 's) \<Rightarrow> 's \<Rightarrow> go_error option \<times> 's" where
  "and_then f g s = (case f s of (Some err, s') \<Rightarrow> (Some err, s') | (None, s') \<Rightarrow> g s')"

definition wrapping :: "string \<Rightarrow> ('s \<Rightarrow> go_error option \<times> 's) \<Rightarrow> 's \<Rightarrow> go_error option \<times> 's" where
  "wrapping msg f s = (case f s of (e, s') \<Rightarrow> (map_option (ErrWrap msg) e, s'))"

subsection \<open>The functions of the library\<close>

definition checkName :: "string \<Rightarrow> registry \<Rightarrow> go_error option \<times> registry" where
  "checkName name r =
     (if name \<in> usedNames r then (Some (ErrControllerName name), r)
      else (None, r\<lparr>usedNames := insert name (usedNames r)\<rparr>))"

definition controller_New :: "runtime \<Rightarrow> string \<Rightarrow> registry \<Rightarrow> go_error option \<times> registry" where
  "controller_New rt name = and_then (checkName name) (\<lambda>r. case add_runnable rt name of
     Some e \<Rightarrow> (Some (ErrApi e), r) | None \<Rightarrow> (None, r\<lparr>controllers := controllers r @ [name]\<rparr>))"

definition Watch :: "runtime \<Rightarrow> string \<Rightarrow> string \<Rightarrow> registry \<Rightarrow> go_error option \<times> registry" where
  "Watch rt name kind r = (case watch_kind rt name kind of
     Some e \<Rightarrow> (Some (ErrApi e), r) | None \<Rightarrow> (None, r\<lparr>watches := watches r @ [(name, kind)]\<rparr>))"

definition IndexField :: "runtime \<Rightarrow> string \<Rightarrow> string \<Rightarrow> registry \<Rightarrow> go_error option \<times> registry" where
  "IndexField rt kind index r = (case index_field rt kind index of
     Some e \<Rightarrow> (Some (ErrApi e), r) | None \<Rightarrow> (None, r\<lparr>indexed := indexed r @ [(kind, index)]\<rparr>))"

subsection \<open>The controllers\<close>

definition configmap_Add :: "runtime \<Rightarrow> pool_manager \<Rightarrow> registry \<Rightarrow> go_error option \<times> registry" where
  "configmap_Add rt p =
     and_then (controller_New rt ''mac-range-configmap'') (Watch rt ''mac-range-configmap'' ''ConfigMap'')"

definition SetupWithManager :: "runtime \<Rightarrow> pool_manager \<Rightarrow> registry \<Rightarrow> go_error option \<times> registry" where
  "SetupWithManager rt p =
     and_then (wrapping ''failed to setup MAC address indexer''
                 (IndexField rt ''VirtualMachineInstance'' ''status.interfaces.mac''))
     (and_then (wrapping ''failed to create MAC collision VMI controller''
                 (controller_New rt ''maccollision-vmi-controller''))
     (and_then (wrapping ''failed to watch VMIs''
                 (Watch rt ''maccollision-vmi-controller'' ''VirtualMachineInstance''))
        (wrapping ''failed to watch Pods for VMI cross-type collisions''
                 (Watch rt ''maccollision-vmi-controller'' ''Pod''))))"

definition addVMICollisionController :: "runtime \<Rightarrow> pool_manager \<Rightarrow> registry \<Rightarrow> go_error option \<times> registry" where
  "addVMICollisionController rt p r = (if IsKubevirtEnabled p then SetupWithManager rt p r else (None, r))"

definition pod_Add :: "runtime \<Rightarrow> pool_manager \<Rightarrow> registry \<Rightarrow> go_error option \<times> registry" where
  "pod_Add rt p = and_then (controller_New rt ''pod-controller'')
     (wrapping ''unable to watch Pods'' (Watch rt ''pod-controller'' ''Pod''))"

definition SetupPodControllerWithManager :: "runtime \<Rightarrow> pool_manager \<Rightarrow> registry \<Rightarrow> go_error option \<times> registry" where
  "SetupPodControllerWithManager rt p =
     and_then (wrapping ''failed to setup Pod MAC address indexer'' (IndexField rt ''Pod'' ''annotations.networks.mac''))
     (and_then (wrapping ''failed to create MAC collision Pod controller''
                 (controller_New rt ''maccollision-pod-controller''))
     (and_then (wrapping ''failed to watch Pods'' (Watch rt ''maccollision-pod-controller'' ''Pod''))
        (\<lambda>r. if IsKubevirtEnabled p
             then wrapping ''failed to watch VMIs for Pod cross-type collisions''
                    (Watch rt ''maccollision-pod-controller'' ''VirtualMachineInstance'') r
             else (None, r))))"

definition addPodCollisionController :: "runtime \<Rightarrow> pool_manager \<Rightarrow> registry \<Rightarrow> go_error option \<times> registry" where
  "addPodCollisionController rt p = SetupPodControllerWithManager rt p"

definition virtualmachine_Add :: "runtime \<Rightarrow> pool_manager \<Rightarrow> registry \<Rightarrow> go_error option \<times> registry" where
  "virtualmachine_Add rt p r =
     (if IsKubevirtEnabled p
      then and_then (controller_New rt ''virtualmachine-controller'')
             (wrapping ''unable to watch VMs'' (Watch rt ''virtualmachine-controller'' ''VirtualMachine'')) r
      else (None, r))"

text \<open>The functions \<open>init\<close> of the package run in the order of its file names.\<close>

definition AddToManagerFuncs :: "(runtime \<Rightarrow> pool_manager \<Rightarrow> registry \<Rightarrow> go_error option \<times> registry) list" where
  "AddToManagerFuncs =
     [configmap_Add, addVMICollisionController, pod_Add, addPodCollisionController, virtualmachine_Add]"

fun add_all ::
    "(runtime \<Rightarrow> pool_manager \<Rightarrow> registry \<Rightarrow> go_error option \<times> registry) list \<Rightarrow> runtime \<Rightarrow> pool_manager \<Rightarrow> registry \<Rightarrow>
     go_error option \<times> registry" where
  "add_all [] rt p r = (None, r)"
| "add_all (f # fs) rt p r = and_then (f rt p) (add_all fs rt p) r"

definition AddToManager :: "runtime \<Rightarrow> pool_manager \<Rightarrow> registry \<Rightarrow> go_error option \<times> registry" where
  "AddToManager rt p = add_all AddToManagerFuncs rt p"

subsection \<open>The webhook server\<close>

record webhook_server =
  server_Port :: int
  server_Tls :: tls_config
  server_Paths :: "string list"

definition WebhookServerPort :: int where
  "WebhookServerPort = 8000"

definition readyz :: "pool_manager \<Rightarrow> go_error option" where
  "readyz p = (if \<not> IsReady p then Some ErrNotReady else None)"

definition register_path :: "string \<Rightarrow> webhook_server \<Rightarrow> webhook_server" where
  "register_path path s = s\<lparr>server_Paths := server_Paths s @ [path]\<rparr>"

definition webhook_AddToManager :: "runtime \<Rightarrow> pool_manager \<Rightarrow> go_error + webhook_server" where
  "webhook_AddToManager rt p =
     (let s0 = \<lparr>server_Port = WebhookServerPort, server_Tls = tlsConfig p, server_Paths = []\<rparr>;
          s1 = register_path ''/healthz'' (register_path ''/readyz'' s0);
          s2 = register_path ''/mutate-virtualmachines'' (register_path ''/mutate-pods'' s1)
      in case add_runnable rt ''webhook server'' of
           Some e \<Rightarrow> Inl (ErrWrap ''failed adding webhook server to manager'' (ErrApi e))
         | None \<Rightarrow> Inr s2)"

subsection \<open>What is registered\<close>

lemmas registration_defs = and_then_def wrapping_def controller_New_def checkName_def Watch_def IndexField_def
  configmap_Add_def SetupWithManager_def addVMICollisionController_def pod_Add_def SetupPodControllerWithManager_def
  addPodCollisionController_def virtualmachine_Add_def AddToManagerFuncs_def AddToManager_def

definition faultless :: "runtime \<Rightarrow> bool" where
  "faultless rt \<longleftrightarrow> (\<forall>a b. index_field rt a b = None \<and> watch_kind rt a b = None) \<and> (\<forall>a. add_runnable rt a = None)"

text \<open>The controllers and what they watch, with and without KubeVirt.\<close>

definition expected_watches :: "bool \<Rightarrow> (string \<times> string) list" where
  "expected_watches kubevirt =
     [(''mac-range-configmap'', ''ConfigMap'')] @
     (if kubevirt then [(''maccollision-vmi-controller'', ''VirtualMachineInstance''),
        (''maccollision-vmi-controller'', ''Pod'')] else []) @
     [(''pod-controller'', ''Pod''), (''maccollision-pod-controller'', ''Pod'')] @
     (if kubevirt then [(''maccollision-pod-controller'', ''VirtualMachineInstance''),
        (''virtualmachine-controller'', ''VirtualMachine'')] else [])"

lemma AddToManager_registers:
  assumes "faultless rt" "usedNames r \<inter> fst ` set (expected_watches (isKubevirt p)) = {}"
  shows "\<exists>r'. AddToManager rt p r = (None, r') \<and> watches r' = watches r @ expected_watches (isKubevirt p) \<and>
     usedNames r' = usedNames r \<union> fst ` set (expected_watches (isKubevirt p)) \<and>
     controllers r' = controllers r @ remdups (map fst (expected_watches (isKubevirt p)))"
  using assms
  by (cases "isKubevirt p") (auto simp: registration_defs faultless_def expected_watches_def IsKubevirtEnabled_def)

text \<open>No step gives a name back, and the first one takes its name whatever happens then.\<close>

definition keeps_names :: "(registry \<Rightarrow> go_error option \<times> registry) \<Rightarrow> bool" where
  "keeps_names f \<longleftrightarrow> (\<forall>r. usedNames r \<subseteq> usedNames (snd (f r)))"

lemma keeps_names_then: "keeps_names f \<Longrightarrow> keeps_names g \<Longrightarrow> keeps_names (and_then f g)"
  unfolding keeps_names_def and_then_def by (fastforce split: prod.splits option.splits)

lemma keeps_names_wrapping: "keeps_names f \<Longrightarrow> keeps_names (wrapping msg f)"
  unfolding keeps_names_def wrapping_def by (fastforce split: prod.splits)

lemma keeps_names_steps:
  "keeps_names (checkName name)" "keeps_names (Watch rt name kind)" "keeps_names (IndexField rt kind index)"
  "keeps_names (Pair None)"
  by (auto simp: keeps_names_def checkName_def Watch_def IndexField_def split: option.splits)

lemma keeps_names_New: "keeps_names (controller_New rt name)"
  unfolding controller_New_def
  by (intro keeps_names_then keeps_names_steps) (auto simp: keeps_names_def split: option.splits)

lemmas keeps_names_intros = keeps_names_then keeps_names_wrapping keeps_names_steps keeps_names_New

lemma keeps_names_if: "keeps_names f \<Longrightarrow> keeps_names g \<Longrightarrow> keeps_names (\<lambda>r. if b then f r else g r)"
  by (simp add: keeps_names_def)

lemma keeps_names_Adds:
  "keeps_names (configmap_Add rt p)" "keeps_names (addVMICollisionController rt p)" "keeps_names (pod_Add rt p)"
  "keeps_names (addPodCollisionController rt p)" "keeps_names (virtualmachine_Add rt p)"
  unfolding configmap_Add_def addVMICollisionController_def SetupWithManager_def pod_Add_def
    addPodCollisionController_def SetupPodControllerWithManager_def virtualmachine_Add_def
  by (intro keeps_names_intros keeps_names_if)+

lemma AddToManager_uses_name:
  assumes "AddToManager rt p r = (e, r')"
  shows "''mac-range-configmap'' \<in> usedNames r'"
proof -
  obtain e1 r1 where r1: "configmap_Add rt p r = (e1, r1)" by (cases "configmap_Add rt p r")
  then have "''mac-range-configmap'' \<in> usedNames r1"
    by (auto simp: configmap_Add_def and_then_def controller_New_def checkName_def Watch_def split: if_splits option.splits)
  moreover have "keeps_names (add_all [addVMICollisionController, pod_Add, addPodCollisionController, virtualmachine_Add] rt p)"
    unfolding add_all.simps by (intro keeps_names_intros keeps_names_Adds)
  then have "usedNames r1 \<subseteq> usedNames (snd (add_all [addVMICollisionController, pod_Add, addPodCollisionController,
      virtualmachine_Add] rt p r1))" unfolding keeps_names_def by blast
  ultimately show ?thesis
    using assms r1 unfolding AddToManager_def AddToManagerFuncs_def add_all.simps(2) [of configmap_Add] and_then_def [of "configmap_Add rt p"]
    by (cases e1) (simp, blast, simp)
qed

lemma AddToManager_again:
  "''mac-range-configmap'' \<in> usedNames r \<Longrightarrow> AddToManager rt p r = (Some (ErrControllerName ''mac-range-configmap''), r)"
  by (simp add: registration_defs)

end
