(* ===== verification/Monitoring.thy ===== *)
theory Monitoring
  imports Collision
begin

section \<open>Monitoring: \<open>pkg/monitoring\<close> and the tools that export it\<close>

text \<open>
  The metrics of the program, the alert on collisions, and the command-line tools that write both to
  files. The metrics and the alert are declared in \<open>pkg/monitoring\<close> and kept in the registries of the
  operator observability toolkit, a vendored library, whose functions are here as the code calls them;
  so is the Prometheus registry, for collectors of one descriptor, which the two metrics are. What
  a JSON or YAML marshaller prints and the file system are arguments.

  Shown: registering the metrics never fails, also when it is repeated in one process; what the tools
  write; and that the expression of the alert, over the gauge as it is exported, holds exactly when the
  pool manager tracks a collision.
\<close>

subsection \<open>The Prometheus registry\<close>

record desc =
  fqName :: string
  desc_Help :: string
  desc_ConstLabels :: "(string, string) gomap"
  variableLabels :: "string list"

record prom_registry =
  collectorsByID :: "(string \<times> (string, string) gomap) set"
  dimHashesByName :: "string \<Rightarrow> (string list \<times> string list \<times> string) option"

text \<open>The identity of a descriptor is its name with the values of the constant labels; the other hash has the
  names of all labels and the help text. Both are hashes in the source.\<close>

definition desc_id :: "desc \<Rightarrow> string \<times> (string, string) gomap" where
  "desc_id d = (fqName d, desc_ConstLabels d)"

definition dim_hash :: "desc \<Rightarrow> string list \<times> string list \<times> string" where
  "dim_hash d = (variableLabels d, map fst (desc_ConstLabels d), desc_Help d)"

definition prom_Register :: "desc \<Rightarrow> prom_registry \<Rightarrow> go_error option \<times> prom_registry" where
  "prom_Register d r = (case dimHashesByName r (fqName d) of
     Some h \<Rightarrow>
       if h \<noteq> dim_hash d then (Some (ErrInconsistent (fqName d)), r)
       else if desc_id d \<in> collectorsByID r then (Some (ErrAlreadyRegistered (fqName d)), r)
       else (None, r\<lparr>collectorsByID := insert (desc_id d) (collectorsByID r)\<rparr>)
   | None \<Rightarrow>
       if desc_id d \<in> collectorsByID r then (Some (ErrAlreadyRegistered (fqName d)), r)
       else (None, r\<lparr>collectorsByID := insert (desc_id d) (collectorsByID r),
                     dimHashesByName := (dimHashesByName r)(fqName d \<mapsto> dim_hash d)\<rparr>))"

text \<open>Unregistering keeps the hashes.\<close>

definition prom_Unregister :: "desc \<Rightarrow> prom_registry \<Rightarrow> bool \<times> prom_registry" where
  "prom_Unregister d r =
     (if desc_id d \<notin> collectorsByID r then (False, r)
      else (True, r\<lparr>collectorsByID := collectorsByID r - {desc_id d}\<rparr>))"

subsection \<open>Metrics\<close>

record metric_opts =
  opt_Name :: string
  opt_Help :: string
  opt_ConstLabels :: "(string, string) gomap"
  opt_labels :: "string list"

record metric =
  metric_GetOpts :: metric_opts
  metric_GetType :: string
  metric_GetBaseType :: string

definition NewCounter :: "metric_opts \<Rightarrow> metric" where
  "NewCounter opts = \<lparr>metric_GetOpts = opts, metric_GetType = ''Counter'', metric_GetBaseType = ''Counter''\<rparr>"

definition NewGaugeVec :: "metric_opts \<Rightarrow> string list \<Rightarrow> metric" where
  "NewGaugeVec opts labels =
     \<lparr>metric_GetOpts = opts\<lparr>opt_labels := labels\<rparr>, metric_GetType = ''GaugeVec'', metric_GetBaseType = ''Gauge''\<rparr>"

abbreviation metric_name :: "metric \<Rightarrow> string" where
  "metric_name metric \<equiv> opt_Name (metric_GetOpts metric)"

definition GetCollector :: "metric \<Rightarrow> desc" where
  "GetCollector metric = \<lparr>fqName = metric_name metric, desc_Help = opt_Help (metric_GetOpts metric),
     desc_ConstLabels = opt_ConstLabels (metric_GetOpts metric), variableLabels = opt_labels (metric_GetOpts metric)\<rparr>"

definition duplicateMacs_metric :: metric where
  "duplicateMacs_metric = NewCounter \<lparr>opt_Name = ''kubevirt_kmp_duplicate_macs'',
     opt_Help = ''[DEPRECATED] Total count of duplicate KubeMacPool MAC addresses. Use kmp_mac_collisions instead.'',
     opt_ConstLabels = [], opt_labels = []\<rparr>"

definition macCollision_metric :: metric where
  "macCollision_metric = NewGaugeVec \<lparr>opt_Name = ''kmp_mac_collisions'',
     opt_Help = ''Count of running objects sharing the same MAC address (collision when > 1)'',
     opt_ConstLabels = [], opt_labels = []\<rparr> [''mac'']"

definition operatorMetrics :: "metric list" where
  "operatorMetrics = [duplicateMacs_metric, macCollision_metric]"

text \<open>The registry of the toolkit, over the one of Prometheus.\<close>

record operator_registry =
  registeredMetrics :: "(string, metric) gomap"
  prom :: prom_registry

definition metricExists :: "metric \<Rightarrow> operator_registry \<Rightarrow> bool" where
  "metricExists metric r \<longleftrightarrow> map_of (registeredMetrics r) (metric_name metric) \<noteq> None"

definition unregisterMetric :: "metric \<Rightarrow> operator_registry \<Rightarrow> go_error option \<times> operator_registry" where
  "unregisterMetric metric r = (case prom_Unregister (GetCollector metric) (prom r) of
     (True, q) \<Rightarrow> (None, r\<lparr>registeredMetrics := AList.delete (metric_name metric) (registeredMetrics r), prom := q\<rparr>)
   | (False, q) \<Rightarrow> (Some (ErrUnregister (metric_name metric)), r\<lparr>prom := q\<rparr>))"

definition registerMetric :: "metric \<Rightarrow> operator_registry \<Rightarrow> go_error option \<times> operator_registry" where
  "registerMetric metric r = (case prom_Register (GetCollector metric) (prom r) of
     (Some err, q) \<Rightarrow> (Some err, r\<lparr>prom := q\<rparr>)
   | (None, q) \<Rightarrow> (None, r\<lparr>registeredMetrics := AList.update (metric_name metric) metric (registeredMetrics r), prom := q\<rparr>))"

fun RegisterMetrics :: "metric list \<Rightarrow> operator_registry \<Rightarrow> go_error option \<times> operator_registry" where
  "RegisterMetrics [] r = (None, r)"
| "RegisterMetrics (metric # metrics) r =
     (case (if metricExists metric r then unregisterMetric metric r else (None, r)) of
        (Some err, r1) \<Rightarrow> (Some err, r1)
      | (None, r1) \<Rightarrow> (case registerMetric metric r1 of
          (Some err, r2) \<Rightarrow> (Some err, r2)
        | (None, r2) \<Rightarrow> RegisterMetrics metrics r2))"

definition SetupMetrics :: "operator_registry \<Rightarrow> go_error option \<times> operator_registry" where
  "SetupMetrics r = RegisterMetrics (concat [operatorMetrics]) r"

text \<open>The list is sorted by name; \<open>ord\<close> is the order of the map iteration.\<close>

definition ListMetrics ::
    "((string \<times> metric) list \<Rightarrow> (string \<times> metric) list) \<Rightarrow> operator_registry \<Rightarrow> metric list" where
  "ListMetrics ord r = sort_key metric_name (map snd (ord (registeredMetrics r)))"

definition empty_registry :: operator_registry where
  "empty_registry = \<lparr>registeredMetrics = [], prom = \<lparr>collectorsByID = {}, dimHashesByName = Map.empty\<rparr>\<rparr>"

subsection \<open>Rules\<close>

record rule =
  rule_Record :: string
  rule_Alert :: string
  rule_Expr :: string
  rule_For :: "string option"
  rule_Labels :: "(string, string) gomap"
  rule_Annotations :: "(string, string) gomap"

record recording_rule =
  MetricsOpts :: metric_opts
  MetricType :: string
  recording_Expr :: string

record rules_registry =
  registeredRecordingRules :: "(string, recording_rule) gomap"
  registeredAlerts :: "(string, rule) gomap"

definition alert_key :: "rule \<Rightarrow> string" where
  "alert_key alert = rule_Alert alert @ '':'' @ rule_Expr alert"

definition recording_key :: "recording_rule \<Rightarrow> string" where
  "recording_key r = opt_Name (MetricsOpts r) @ '':'' @ recording_Expr r"

definition RegisterAlerts :: "rule list list \<Rightarrow> rules_registry \<Rightarrow> go_error option \<times> rules_registry" where
  "RegisterAlerts alerts r =
     (None, r\<lparr>registeredAlerts := fold (\<lambda>alert m. AList.update (alert_key alert) alert m) (concat alerts) (registeredAlerts r)\<rparr>)"

record rule_group =
  group_Name :: string
  group_Rules :: "rule list"

record prometheus_rule =
  APIVersion :: string
  Kind :: string
  rule_Name :: string
  rule_Namespace :: string
  rule_ObjectLabels :: "(string, string) gomap"
  Groups :: "rule_group list"

record rule_orders =
  alert_order :: "(string \<times> rule) list \<Rightarrow> (string \<times> rule) list"
  recording_order :: "(string \<times> recording_rule) list \<Rightarrow> (string \<times> recording_rule) list"

definition ListAlerts :: "rule_orders \<Rightarrow> rules_registry \<Rightarrow> rule list" where
  "ListAlerts ords r = sort_key alert_key (map snd (alert_order ords (registeredAlerts r)))"

definition ListRecordingRules :: "rule_orders \<Rightarrow> rules_registry \<Rightarrow> recording_rule list" where
  "ListRecordingRules ords r = sort_key recording_key (map snd (recording_order ords (registeredRecordingRules r)))"

definition buildRecordingRulesRules :: "rule_orders \<Rightarrow> rules_registry \<Rightarrow> rule list" where
  "buildRecordingRulesRules ords r =
     sort_key (\<lambda>x. rule_Record x @ '':'' @ rule_Expr x)
       (map (\<lambda>(_, x). \<lparr>rule_Record = opt_Name (MetricsOpts x), rule_Alert = [], rule_Expr = recording_Expr x,
          rule_For = None, rule_Labels = opt_ConstLabels (MetricsOpts x), rule_Annotations = []\<rparr>) (recording_order ords (registeredRecordingRules r)))"

definition buildPrometheusRuleSpec :: "rule_orders \<Rightarrow> rules_registry \<Rightarrow> go_error + rule_group list" where
  "buildPrometheusRuleSpec ords r =
     (let groups =
        (if registeredRecordingRules r \<noteq> []
         then [\<lparr>group_Name = ''recordingRules.rules'', group_Rules = buildRecordingRulesRules ords r\<rparr>] else []) @
        (if registeredAlerts r \<noteq> [] then [\<lparr>group_Name = ''alerts.rules'', group_Rules = ListAlerts ords r\<rparr>] else [])
      in if groups = [] then Inl ErrNoRules else Inr groups)"

definition PrometheusRuleName :: string where
  "PrometheusRuleName = ''prometheus-rule''"

definition rule_labels :: "(string, string) gomap" where
  "rule_labels = [(''prometheus.kubemacpool.io'', ''true''),
     (''openshift.io/prometheus-rule-evaluation-scope'', ''leaf-prometheus'')]"

definition prometheus_rule_object :: "string \<Rightarrow> string \<Rightarrow> (string, string) gomap \<Rightarrow> rule_group list \<Rightarrow> prometheus_rule" where
  "prometheus_rule_object name namesp labels groups =
     \<lparr>APIVersion = ''monitoring.coreos.com/v1'', Kind = ''PrometheusRule'', rule_Name = name, rule_Namespace = namesp,
      rule_ObjectLabels = labels, Groups = groups\<rparr>"

definition BuildPrometheusRule :: "rule_orders \<Rightarrow> rules_registry \<Rightarrow> string \<Rightarrow> go_error + prometheus_rule" where
  "BuildPrometheusRule ords r namesp = (case buildPrometheusRuleSpec ords r of
     Inl err \<Rightarrow> Inl err
   | Inr groups \<Rightarrow> Inr (prometheus_rule_object PrometheusRuleName namesp rule_labels groups))"

definition vmiCollisionAlerts :: "rule list" where
  "vmiCollisionAlerts =
     [\<lparr>rule_Record = [], rule_Alert = ''KubemacpoolMACCollisionDetected'',
       rule_Expr = ''count(kmp_mac_collisions > 1) > 0'', rule_For = Some ''30s'',
       rule_Labels = [(''severity'', ''warning'')],
       rule_Annotations =
         [(''summary'', ''MAC address collisions detected.''),
          (''description'', ''{{ $value }} MAC address(es) have collisions. Multiple running objects are using the same MAC address.''),
          (''runbook_url'', ''https://kubevirt.io/monitoring/runbooks/KubemacpoolMACCollisionDetected'')]\<rparr>]"

definition alerts_Register :: "rules_registry \<Rightarrow> go_error option \<times> rules_registry" where
  "alerts_Register r = RegisterAlerts [vmiCollisionAlerts] r"

definition SetupRules :: "rules_registry \<Rightarrow> go_error option \<times> rules_registry" where
  "SetupRules r = alerts_Register r"

definition empty_rules :: rules_registry where
  "empty_rules = \<lparr>registeredRecordingRules = [], registeredAlerts = []\<rparr>"

subsection \<open>The collector of metric descriptions: \<open>metrics_json_generator.go\<close>\<close>

record metric_family =
  family_Name :: string
  family_Help :: string
  family_Type :: int

record recording_output =
  out_Record :: string
  out_Expr :: string
  out_Type :: string

record collector_output =
  MetricFamilies :: "metric_family list"
  RecordingRules :: "recording_output list"

text \<open>\<open>strings.ToUpper\<close> on ASCII letters, and the names of \<open>dto.MetricType\<close>.\<close>

definition ToUpper :: "string \<Rightarrow> string" where
  "ToUpper s = map (\<lambda>c. if 97 \<le> (of_char c :: nat) \<and> (of_char c :: nat) \<le> 122 then char_of (of_char c - 32 :: nat) else c) s"

definition MetricType_value :: "string \<Rightarrow> int option" where
  "MetricType_value = map_of [(''COUNTER'', 0), (''GAUGE'', 1), (''SUMMARY'', 2), (''UNTYPED'', 3), (''HISTOGRAM'', 4),
     (''GAUGE_HISTOGRAM'', 5)]"

definition excludedMetrics :: "string list" where
  "excludedMetrics = [''kubevirt_kmp_duplicate_macs'']"

definition buildMetricFamily :: "metric \<Rightarrow> metric_family" where
  "buildMetricFamily metric =
     \<lparr>family_Name = metric_name metric, family_Help = opt_Help (metric_GetOpts metric),
      family_Type = (case MetricType_value (ToUpper (metric_GetBaseType metric)) of Some v \<Rightarrow> v | None \<Rightarrow> 3)\<rparr>"

text \<open>What is printed, from the registries of a new process.\<close>

definition collector_main ::
    "(collector_output \<Rightarrow> go_error + string) \<Rightarrow> ((string \<times> metric) list \<Rightarrow> (string \<times> metric) list) \<Rightarrow> rule_orders \<Rightarrow> operator_registry \<Rightarrow> rules_registry \<Rightarrow>
     string run" where
  "collector_main json_Marshal ord ords r0 q0 = (case SetupMetrics r0 of
     (Some _, _) \<Rightarrow> Panics
   | (None, r) \<Rightarrow> (case SetupRules q0 of
       (Some _, _) \<Rightarrow> Panics
     | (None, q) \<Rightarrow>
         (case json_Marshal \<lparr>MetricFamilies = map buildMetricFamily (filter (\<lambda>m. metric_name m \<notin> set excludedMetrics) (ListMetrics ord r)),
              RecordingRules = map (\<lambda>x. \<lparr>out_Record = opt_Name (MetricsOpts x), out_Expr = recording_Expr x,
                  out_Type = ToUpper (MetricType x)\<rparr>)
                (filter (\<lambda>x. opt_Name (MetricsOpts x) \<notin> set excludedMetrics) (ListRecordingRules ords q))\<rparr> of
            Inl _ \<Rightarrow> Panics
          | Inr jsonBytes \<Rightarrow> Ret (jsonBytes @ [CHR 0x0A]))))"

subsection \<open>The documentation: \<open>metricsdocs.go\<close>\<close>

text \<open>The page is made by the toolkit's \<open>BuildMetricsDocs\<close>, an argument.\<close>

definition metricsdocs_main ::
    "(string \<Rightarrow> metric list \<Rightarrow> recording_rule list \<Rightarrow> string) \<Rightarrow> ((string \<times> metric) list \<Rightarrow> (string \<times> metric) list) \<Rightarrow>
     rule_orders \<Rightarrow> operator_registry \<Rightarrow> rules_registry \<Rightarrow> string run" where
  "metricsdocs_main BuildMetricsDocs ord ords r0 q0 = (case SetupMetrics r0 of
     (Some _, _) \<Rightarrow> Panics
   | (None, r) \<Rightarrow> (case SetupRules q0 of
       (Some _, _) \<Rightarrow> Panics
     | (None, q) \<Rightarrow> Ret (BuildMetricsDocs ''KubeMacPool Metrics'' (ListMetrics ord r) (ListRecordingRules ords q))))"

subsection \<open>The rule files: \<open>rule-spec-dumper.go\<close>, \<open>generate-rules.go\<close>\<close>

text \<open>A tool exits with a code and what it wrote to which file, or panics.\<close>

record tool_result =
  exit_code :: int
  written :: "(string \<times> string) option"

abbreviation exits :: "int \<Rightarrow> tool_result" where
  "exits n \<equiv> \<lparr>exit_code = n, written = None\<rparr>"

definition verifyArgs :: "string list \<Rightarrow> go_error option" where
  "verifyArgs args = (let numOfArgs = length (drop 1 args) in if numOfArgs \<noteq> 1 then Some (ErrArguments numOfArgs) else None)"

definition emptyPrometheusRule :: "string \<Rightarrow> prometheus_rule" where
  "emptyPrometheusRule namesp = prometheus_rule_object PrometheusRuleName namesp rule_labels []"

definition dumper_main ::
    "(rule_group list \<Rightarrow> go_error + string) \<Rightarrow> (string \<Rightarrow> string \<Rightarrow> go_error option) \<Rightarrow> rule_orders \<Rightarrow> rules_registry \<Rightarrow>
     string list \<Rightarrow> tool_result run" where
  "dumper_main json_Marshal WriteFile ords q0 args = (case verifyArgs args of
     Some _ \<Rightarrow> Ret (exits 1)
   | None \<Rightarrow> (let targetFile = args ! 1 in case SetupRules q0 of
       (Some _, _) \<Rightarrow> Panics
     | (None, q) \<Rightarrow> bind_run (case BuildPrometheusRule ords q ''ci'' of
           Inl err \<Rightarrow> if err \<noteq> ErrNoRules then Panics else Ret (emptyPrometheusRule ''ci'')
         | Inr promRule \<Rightarrow> Ret promRule) (\<lambda>promRule.
         case json_Marshal (Groups promRule) of
           Inl _ \<Rightarrow> Panics
         | Inr b \<Rightarrow> (case WriteFile targetFile b of
             Some _ \<Rightarrow> Panics
           | None \<Rightarrow> Ret \<lparr>exit_code = 0, written = Some (targetFile, b)\<rparr>))))"

text \<open>The second tool has a copy of the empty rule.\<close>

definition generate_emptyPrometheusRule :: "string \<Rightarrow> prometheus_rule" where
  "generate_emptyPrometheusRule namesp = prometheus_rule_object PrometheusRuleName namesp rule_labels []"

definition generate_main ::
    "(prometheus_rule \<Rightarrow> go_error + string) \<Rightarrow> (string \<Rightarrow> go_error option) \<Rightarrow> (string \<Rightarrow> string \<Rightarrow> go_error option) \<Rightarrow>
     rule_orders \<Rightarrow> rules_registry \<Rightarrow> string \<Rightarrow> string \<Rightarrow> tool_result" where
  "generate_main yaml_Marshal MkdirAll WriteFile ords q0 namesp outputFile = (case SetupRules q0 of
     (Some _, _) \<Rightarrow> exits 1
   | (None, q) \<Rightarrow> (case (case BuildPrometheusRule ords q namesp of
          Inl err \<Rightarrow> if err \<noteq> ErrNoRules then Inl err else Inr (generate_emptyPrometheusRule namesp)
        | Inr r \<Rightarrow> Inr r) of
       Inl _ \<Rightarrow> exits 1
     | Inr r \<Rightarrow> (case yaml_Marshal r of
         Inl _ \<Rightarrow> exits 1
       | Inr yamlData \<Rightarrow> (case MkdirAll ''config/monitoring'' of
           Some _ \<Rightarrow> exits 1
         | None \<Rightarrow> (case WriteFile outputFile yamlData of
             Some _ \<Rightarrow> exits 1
           | None \<Rightarrow> \<lparr>exit_code = 0, written = Some (outputFile, yamlData)\<rparr>)))))"

subsection \<open>What is registered\<close>

lemmas metric_defs = duplicateMacs_metric_def macCollision_metric_def NewCounter_def NewGaugeVec_def

text \<open>The registry after the metrics were set up, once or more often.\<close>

definition metrics_set_up :: "operator_registry \<Rightarrow> bool" where
  "metrics_set_up r \<longleftrightarrow>
     registeredMetrics r = map (\<lambda>m. (metric_name m, m)) operatorMetrics \<and>
     collectorsByID (prom r) = (\<lambda>m. desc_id (GetCollector m)) ` set operatorMetrics \<and>
     (\<forall>m\<in>set operatorMetrics. dimHashesByName (prom r) (metric_name m) = Some (dim_hash (GetCollector m)))"

lemma SetupMetrics_first: "\<exists>r. SetupMetrics empty_registry = (None, r) \<and> metrics_set_up r"
  by (simp add: SetupMetrics_def operatorMetrics_def empty_registry_def metricExists_def registerMetric_def
      prom_Register_def GetCollector_def desc_id_def dim_hash_def metrics_set_up_def metric_defs insert_commute)

lemma SetupMetrics_again:
  assumes "metrics_set_up r"
  shows "\<exists>r'. SetupMetrics r = (None, r') \<and> metrics_set_up r'"
  using assms
  by (simp add: SetupMetrics_def operatorMetrics_def metricExists_def registerMetric_def unregisterMetric_def
      prom_Register_def prom_Unregister_def GetCollector_def desc_id_def dim_hash_def metrics_set_up_def metric_defs
      insert_commute)

lemma ListMetrics_set_up:
  assumes "metrics_set_up r" "range_order ord"
  shows "ListMetrics ord r = [macCollision_metric, duplicateMacs_metric]"
  unfolding ListMetrics_def
proof (rule sort_key_inj_key_eq)
  have m: "mset (map snd (ord (registeredMetrics r))) = mset operatorMetrics"
    using range_order_map_snd [OF assms(2), of "registeredMetrics r"] assms(1)
    by (simp add: metrics_set_up_def operatorMetrics_def)
  then show "mset (map snd (ord (registeredMetrics r))) = mset [macCollision_metric, duplicateMacs_metric]"
    by (simp add: operatorMetrics_def add_mset_commute)
  show "inj_on metric_name (set (map snd (ord (registeredMetrics r))))"
    unfolding mset_eq_setD [OF m] by (simp add: operatorMetrics_def metric_defs)
  show "sorted (map metric_name [macCollision_metric, duplicateMacs_metric])"
    by (simp add: metric_defs less_eq_list_code less_eq_char_def)
qed

lemma SetupRules_registers: "SetupRules empty_rules = (None, empty_rules\<lparr>registeredAlerts := map (\<lambda>a. (alert_key a, a)) vmiCollisionAlerts\<rparr>)"
  by (simp add: SetupRules_def alerts_Register_def RegisterAlerts_def empty_rules_def vmiCollisionAlerts_def)

lemma range_order_single: "range_order ord \<Longrightarrow> ord [x] = [x]"
  unfolding range_order_def by (metis mset_single_iff_right mset.simps(2) mset_zero_iff)

lemma ListAlerts_set_up:
  assumes "range_order (alert_order ords)"
  shows "ListAlerts ords (snd (SetupRules empty_rules)) = vmiCollisionAlerts"
  using range_order_single [OF assms] by (simp add: ListAlerts_def SetupRules_registers vmiCollisionAlerts_def)

text \<open>Both tools write the one group of alerts; the branch for an empty registry is never taken.\<close>

definition alert_groups :: "rule_group list" where
  "alert_groups = [\<lparr>group_Name = ''alerts.rules'', group_Rules = vmiCollisionAlerts\<rparr>]"

lemma BuildPrometheusRule_set_up:
  assumes "range_order (alert_order ords)"
  shows "BuildPrometheusRule ords (snd (SetupRules empty_rules)) namesp =
     Inr (prometheus_rule_object PrometheusRuleName namesp rule_labels alert_groups)"
proof -
  have "registeredRecordingRules (snd (SetupRules empty_rules)) = []" "registeredAlerts (snd (SetupRules empty_rules)) \<noteq> []"
    unfolding SetupRules_registers by (simp_all add: empty_rules_def vmiCollisionAlerts_def)
  with ListAlerts_set_up [OF assms] show ?thesis
    by (simp add: BuildPrometheusRule_def buildPrometheusRuleSpec_def alert_groups_def)
qed

lemma dumper_main_writes:
  assumes "range_order (alert_order ords)"
  shows "dumper_main json_Marshal WriteFile ords empty_rules args =
     (if length args \<noteq> 2 then Ret (exits 1)
      else case json_Marshal alert_groups of
        Inl _ \<Rightarrow> Panics
      | Inr b \<Rightarrow> (case WriteFile (args ! 1) b of
          Some _ \<Rightarrow> Panics | None \<Rightarrow> Ret \<lparr>exit_code = 0, written = Some (args ! 1, b)\<rparr>))"
proof (cases "length args = 2")
  case True
  with BuildPrometheusRule_set_up [OF assms] show ?thesis
    by (simp add: dumper_main_def verifyArgs_def SetupRules_registers prometheus_rule_object_def Let_def split: sum.split option.split)
next
  case False
  then have "length (drop 1 args) \<noteq> 1" by (cases args) auto
  with False show ?thesis by (simp add: dumper_main_def verifyArgs_def Let_def)
qed

lemma generate_main_writes:
  assumes "range_order (alert_order ords)"
  shows "generate_main yaml_Marshal MkdirAll WriteFile ords empty_rules namesp file =
     (case yaml_Marshal (prometheus_rule_object PrometheusRuleName namesp rule_labels alert_groups) of
        Inl _ \<Rightarrow> exits 1
      | Inr y \<Rightarrow> if MkdirAll ''config/monitoring'' \<noteq> None \<or> WriteFile file y \<noteq> None then exits 1
                else \<lparr>exit_code = 0, written = Some (file, y)\<rparr>)"
  using BuildPrometheusRule_set_up [OF assms]
  by (simp add: generate_main_def SetupRules_registers split: sum.split option.split)

lemma collector_main_output:
  assumes "range_order ord" "range_order (recording_order ords)"
  shows "collector_main json_Marshal ord ords empty_registry empty_rules =
     (case json_Marshal \<lparr>MetricFamilies = [\<lparr>family_Name = ''kmp_mac_collisions'',
              family_Help = ''Count of running objects sharing the same MAC address (collision when > 1)'', family_Type = 1\<rparr>],
            RecordingRules = []\<rparr> of Inl _ \<Rightarrow> Panics | Inr b \<Rightarrow> Ret (b @ [CHR 0x0A]))"
proof -
  obtain r where r: "SetupMetrics empty_registry = (None, r)" "metrics_set_up r" using SetupMetrics_first by blast
  have "ToUpper ''Gauge'' = ''GAUGE''" by code_simp
  then have "map buildMetricFamily (filter (\<lambda>m. metric_name m \<notin> set excludedMetrics) (ListMetrics ord r)) =
      [\<lparr>family_Name = ''kmp_mac_collisions'',
        family_Help = ''Count of running objects sharing the same MAC address (collision when > 1)'', family_Type = 1\<rparr>]"
    unfolding ListMetrics_set_up [OF r(2) assms(1)]
    by (simp add: excludedMetrics_def buildMetricFamily_def MetricType_value_def metric_defs)
  moreover have "ListRecordingRules ords (empty_rules\<lparr>registeredAlerts := as\<rparr>) = []" for as
    using range_order_Nil [OF assms(2)] by (simp add: ListRecordingRules_def empty_rules_def)
  ultimately show ?thesis using r(1) by (simp add: collector_main_def SetupRules_registers)
qed

lemma metricsdocs_main_prints:
  assumes "range_order ord" "range_order (recording_order ords)"
  shows "metricsdocs_main BuildMetricsDocs ord ords empty_registry empty_rules =
     Ret (BuildMetricsDocs ''KubeMacPool Metrics'' [macCollision_metric, duplicateMacs_metric] [])"
proof -
  obtain r where r: "SetupMetrics empty_registry = (None, r)" "metrics_set_up r" using SetupMetrics_first by blast
  have "ListRecordingRules ords (empty_rules\<lparr>registeredAlerts := as\<rparr>) = []" for as
    using range_order_Nil [OF assms(2)] by (simp add: ListRecordingRules_def empty_rules_def)
  with r ListMetrics_set_up [OF r(2) assms(1)] show ?thesis by (simp add: metricsdocs_main_def SetupRules_registers)
qed

subsection \<open>The alert and the gauge\<close>

text \<open>What a scrape of the process exports: the samples of a family by the value of its label.\<close>

definition scrape :: "operator_registry \<Rightarrow> metrics \<Rightarrow> string \<Rightarrow> string \<Rightarrow> nat option" where
  "scrape r g name =
     (if (name, []) \<notin> collectorsByID (prom r) then Map.empty
      else if name = metric_name macCollision_metric then macCollisionMetric g
      else if name = metric_name duplicateMacs_metric then [[] \<mapsto> duplicateMacsMetric g]
      else Map.empty)"

text \<open>
  The evaluation of an expression over the exported samples is Prometheus's: \<open>holds\<close> says whether it
  has a result. What is known of it is the meaning of the query language for one form of expression, the count
  of the samples of a metric above one compared with zero.
\<close>

definition metric_char :: "char \<Rightarrow> bool" where
  "metric_char c \<longleftrightarrow> c \<in> set ''abcdefghijklmnopqrstuvwxyzABCDEFGHIJKLMNOPQRSTUVWXYZ0123456789_:''"

definition promql_count :: "(string \<Rightarrow> (string \<Rightarrow> string \<Rightarrow> nat option) \<Rightarrow> bool) \<Rightarrow> bool" where
  "promql_count holds \<longleftrightarrow> (\<forall>M db. M \<noteq> [] \<longrightarrow> list_all metric_char M \<longrightarrow>
     holds (''count('' @ M @ '' > 1) > 0'') db = (\<exists>l v. db M l = Some v \<and> 1 < v))"

text \<open>C28: The alert on collisions is exact. With the metrics and the rules set up as the program and its tools do, the
  expression of every registered alert, evaluated over the samples the process exports, holds exactly when the pool
  manager tracks an address with several running objects.\<close>

theorem collision_alert_exact:
  assumes "promql_count holds" "collisions_ok p" "SetupMetrics empty_registry = (None, r)"
    and "range_order (alert_order ords)" "alert \<in> set (ListAlerts ords (snd (SetupRules empty_rules)))"
  shows "holds (rule_Expr alert) (scrape r (pm_metrics p)) \<longleftrightarrow> (\<exists>mac objects. tracked p mac = Some objects)"
proof -
  have "rule_Expr alert = ''count('' @ ''kmp_mac_collisions'' @ '' > 1) > 0''"
    using assms(5) unfolding ListAlerts_set_up [OF assms(4)] by (simp add: vmiCollisionAlerts_def)
  moreover have "list_all metric_char ''kmp_mac_collisions''" by (simp add: metric_char_def)
  ultimately have "holds (rule_Expr alert) db \<longleftrightarrow> (\<exists>l v. db ''kmp_mac_collisions'' l = Some v \<and> 1 < v)" for db
    using assms(1) unfolding promql_count_def by (metis list.discI)
  moreover have "scrape r (pm_metrics p) ''kmp_mac_collisions'' = macCollisionMetric (pm_metrics p)"
    using SetupMetrics_first assms(3)
    by (auto simp: scrape_def metrics_set_up_def operatorMetrics_def GetCollector_def desc_id_def metric_defs)
  moreover have "(\<exists>l v. macCollisionMetric (pm_metrics p) l = Some v \<and> 1 < v) \<longleftrightarrow> (\<exists>mac objects. tracked p mac = Some objects)"
    using assms(2) unfolding collisions_ok_def by (metis (no_types, lifting) Suc_1 Suc_le_lessD map_option_eq_Some)
  ultimately show ?thesis by simp
qed

definition sample_promql :: "string \<Rightarrow> (string \<Rightarrow> string \<Rightarrow> nat option) \<Rightarrow> bool" where
  "sample_promql e db \<longleftrightarrow> (\<exists>l v. db (drop 6 (take (length e - 9) e)) l = Some v \<and> 1 < v)"

theorem collision_alert_exact_witness:
  "\<exists>r. SetupMetrics empty_registry = (None, r) \<and>
     (\<forall>alert\<in>set vmiCollisionAlerts. \<not> sample_promql (rule_Expr alert) (scrape r (pm_metrics sample_pool)))"
proof -
  let ?ords = "\<lparr>alert_order = (\<lambda>xs. xs), recording_order = (\<lambda>xs. xs)\<rparr>"
  obtain r where r: "SetupMetrics empty_registry = (None, r)" using SetupMetrics_first by blast
  have "promql_count sample_promql" by (simp add: promql_count_def sample_promql_def)
  moreover have "collisions_ok sample_pool" by (simp add: collisions_ok_def tracked_def sample_pool_def)
  moreover have "range_order (alert_order ?ords)" by simp
  moreover have "ListAlerts ?ords (snd (SetupRules empty_rules)) = vmiCollisionAlerts" by (simp add: ListAlerts_set_up)
  ultimately have "\<not> sample_promql (rule_Expr a) (scrape r (pm_metrics sample_pool))" if "a \<in> set vmiCollisionAlerts" for a
    using collision_alert_exact [of sample_promql sample_pool r ?ords a] r that by (simp add: tracked_def sample_pool_def)
  with r show ?thesis by blast
qed

end
