(* ===== verification/Manager.thy ===== *)
theory Manager
  imports Registration Startup ConfigMap Monitoring
begin

section \<open>The process: \<open>cmd/manager/main.go\<close>, \<open>pkg/manager/manager.go\<close>\<close>

text \<open>
  \<open>main\<close> reads the environment and the flags, and runs the certificate manager or the manager of the pool.
  \<open>Run\<close> sets up a controller-runtime manager, with the metrics of \<open>Monitoring\<close>, and a pool manager, starts
  three goroutines and serves until its context is cancelled, in a loop. The goroutines wait for a stop signal or for KubeVirt to appear, poll for KubeVirt, and start the pool.
  Channels and contexts are numbers here, and a process is a step relation in which the main loop and
  the goroutines take turns. A round up to the start of the runtime manager is one step.

  What the goroutines of a round do before that round has come to serve or to its error is therefore not seen: in a
  second round, which ends with an error, two goroutines poll for KubeVirt until the process exits.
  A panic of the main loop or of a goroutine ends the process. A rebuild that never ends takes no step.

  Shown: the process never panics on its channels; a stop signal that was received leads to the end of
  the loop; and the loop serves at most once, because the controllers cannot be registered a second
  time in one process.
\<close>

subsection \<open>Environment and flags\<close>

type_synonym environment = "string \<Rightarrow> string option"

definition loadMacAddressFromEnvVar :: "environment \<Rightarrow> string \<Rightarrow> go_error + hwaddr" where
  "loadMacAddressFromEnvVar env envName = (case env envName of
     Some v \<Rightarrow> (case ParseMAC v of Inl err \<Rightarrow> Inl err | Inr poolRange \<Rightarrow> Inr poolRange)
   | None \<Rightarrow> Inl (ErrEnvMissing envName))"

text \<open>\<open>time.ParseDuration\<close> is an argument.\<close>

definition lookupEnvAsDuration :: "(string \<Rightarrow> go_error + int) \<Rightarrow> environment \<Rightarrow> string \<Rightarrow> go_error + int" where
  "lookupEnvAsDuration ParseDuration env varName = (case env varName of
     None \<Rightarrow> Inl (ErrEnvMissing varName)
   | Some varValue \<Rightarrow> (case ParseDuration varValue of
       Inl err \<Rightarrow> Inl (ErrWrap ''Failed to convert value to time.Duration'' err)
     | Inr duration \<Rightarrow> Inr duration))"

text \<open>The relationship labels: the iteration over the four distinct keys has one result in any order.\<close>

definition IncludeRelationshipLabels :: "environment \<Rightarrow> string_map option \<Rightarrow> string_map" where
  "IncludeRelationshipLabels env labels =
     (let mapLabelKeys = [(''COMPONENT'', ''app.kubernetes.io/component''), (''PART_OF'', ''app.kubernetes.io/part-of''),
            (''VERSION'', ''app.kubernetes.io/version''), (''MANAGED_BY'', ''app.kubernetes.io/managed-by'')]
      in fold (\<lambda>(key, label) labels. case env key of
             None \<Rightarrow> labels
           | Some envVar \<Rightarrow> if envVar \<noteq> [] then AList.update label envVar labels else labels)
           mapLabelKeys (case labels of None \<Rightarrow> [] | Some m \<Rightarrow> m))"

record cert_options =
  cert_Namespace :: string
  cert_WebhookName :: string
  CARotateInterval :: int
  CAOverlapInterval :: int
  CertRotateInterval :: int
  CertOverlapInterval :: int
  cert_ExtraLabels :: string_map

text \<open>The certificate manager is a vendored library; the errors of its functions are arguments.\<close>

record cert_env =
  cert_manager_error :: "api_error option"
  NewManager_error :: "cert_options \<Rightarrow> api_error option"
  cert_Add_error :: "api_error option"
  cert_Start_error :: "api_error option"

text \<open>The exit code of the process, and the options of the certificate manager once it runs.\<close>

definition runCertManager ::
    "(string \<Rightarrow> go_error + int) \<Rightarrow> environment \<Rightarrow> cert_env \<Rightarrow> int \<times> cert_options option" where
  "runCertManager ParseDuration env c = (case env ''POD_NAMESPACE'' of
     None \<Rightarrow> (1, None)
   | Some podNamespace \<Rightarrow> if cert_manager_error c \<noteq> None then (1, None) else
  (case lookupEnvAsDuration ParseDuration env ''CA_ROTATE_INTERVAL'' of Inl _ \<Rightarrow> (1, None) | Inr caRotateInterval \<Rightarrow>
  (case lookupEnvAsDuration ParseDuration env ''CA_OVERLAP_INTERVAL'' of Inl _ \<Rightarrow> (1, None) | Inr caOverlapInterval \<Rightarrow>
  (case lookupEnvAsDuration ParseDuration env ''CERT_ROTATE_INTERVAL'' of Inl _ \<Rightarrow> (1, None) | Inr certRotateInterval \<Rightarrow>
  (case lookupEnvAsDuration ParseDuration env ''CERT_OVERLAP_INTERVAL'' of Inl _ \<Rightarrow> (1, None) | Inr certOverlapInterval \<Rightarrow>
     (let certOptions = \<lparr>cert_Namespace = podNamespace, cert_WebhookName = ''kubemacpool-mutator'',
            CARotateInterval = caRotateInterval, CAOverlapInterval = caOverlapInterval,
            CertRotateInterval = certRotateInterval, CertOverlapInterval = certOverlapInterval,
            cert_ExtraLabels = IncludeRelationshipLabels env None\<rparr>
      in if NewManager_error c certOptions \<noteq> None then (1, None)
         else if cert_Add_error c \<noteq> None then (1, None)
         else if cert_Start_error c \<noteq> None then (1, Some certOptions)
         else (0, Some certOptions)))))))"

record flags =
  metrics_addr :: string
  wait_time :: int
  tls_min_version :: string
  tls_cipher_suites :: string
  tls_group_preferences :: string

subsection \<open>The manager\<close>

record manager_options =
  cached_configmap :: "string \<times> string"
  strip_pods :: bool
  strip_vmis :: bool
  metrics_bind :: string
  metrics_tls :: tls_config

datatype panic = CloseOfClosedChannel | RuntimeError

datatype main_phase = Entered | LoopHead | Serving nat | Returned "go_error option" | Panicked panic

text \<open>
  The fields of \<open>KubeMacPoolManager\<close>, the channels and contexts of the process (closed and
  cancelled ones), its goroutines, and what it has registered. A \<open>waiter\<close> is a goroutine in
  \<open>waitForSignal\<close>, with the context its deferred call cancels and the channel it waits on.
\<close>

record run_state =
  continueToRunManager :: bool
  kubevirtInstalledChannel :: nat
  stopSignalPending :: bool
  cancel_ctx :: nat
  podNamespace :: string
  podName :: string
  metricsAddr :: string
  waitingTime :: int
  runtimeManager :: "manager_options option"
  run_tlsConfig :: tls_config
  run_metrics :: operator_registry
  closed :: "nat set"
  cancelled :: "nat set"
  next_id :: nat
  waiters :: "(nat \<times> nat) list"
  pollers :: nat
  starters :: nat
  registered :: registry
  server :: "webhook_server option"
  pool :: "pool_manager option"
  main :: main_phase

definition NewKubeMacPoolManager :: "string \<Rightarrow> string \<Rightarrow> string \<Rightarrow> int \<Rightarrow> tls_config \<Rightarrow> run_state" where
  "NewKubeMacPoolManager pod_namespace pod_name addr waiting_time tls =
     \<lparr>continueToRunManager = True, kubevirtInstalledChannel = 0, stopSignalPending = False, cancel_ctx = 0,
      podNamespace = pod_namespace, podName = pod_name, metricsAddr = addr, waitingTime = waiting_time,
      runtimeManager = None, run_tlsConfig = tls, run_metrics = empty_registry, closed = {}, cancelled = {}, next_id = 1, waiters = [],
      pollers = 0, starters = 0,
      registered = \<lparr>usedNames = {}, indexed = [], controllers = [], watches = []\<rparr>,
      server = None, pool = None, main = Entered\<rparr>"

text \<open>\<open>runKubemacpoolManager\<close> up to the call of \<open>Run\<close>: the exit code, or the manager and its range.\<close>

definition runKubemacpoolManager ::
    "(string \<times> 16 word) list \<Rightarrow> (string \<times> 16 word) list \<Rightarrow> environment \<Rightarrow> flags \<Rightarrow>
     int + (run_state \<times> hwaddr \<times> hwaddr)" where
  "runKubemacpoolManager suites insecureSuites env fl = (case env ''POD_NAMESPACE'' of
     None \<Rightarrow> Inl 1
   | Some pod_namespace \<Rightarrow> (case env ''POD_NAME'' of
     None \<Rightarrow> Inl 1
   | Some pod_name \<Rightarrow> (case loadMacAddressFromEnvVar env ''RANGE_START'' of
     Inl _ \<Rightarrow> Inl 1
   | Inr start_mac \<Rightarrow> (case loadMacAddressFromEnvVar env ''RANGE_END'' of
     Inl _ \<Rightarrow> Inl 1
   | Inr end_mac \<Rightarrow>
  (case NewConfig suites insecureSuites (tls_min_version fl) (tls_cipher_suites fl) (tls_group_preferences fl) of
     Inl _ \<Rightarrow> Inl 1
   | Inr tls \<Rightarrow> Inr (NewKubeMacPoolManager pod_namespace pod_name (metrics_addr fl) (wait_time fl) tls,
       start_mac, end_mac))))))"

text \<open>\<open>main\<close>: the exit code, or the process that is to run.\<close>

definition main_program ::
    "(string \<Rightarrow> go_error + int) \<Rightarrow> cert_env \<Rightarrow> (string \<times> 16 word) list \<Rightarrow> (string \<times> 16 word) list \<Rightarrow> environment \<Rightarrow>
     flags \<Rightarrow> int + (run_state \<times> hwaddr \<times> hwaddr)" where
  "main_program ParseDuration c suites insecureSuites env fl = (case env ''RUN_CERT_MANAGER'' of
     Some _ \<Rightarrow> Inl (fst (runCertManager ParseDuration env c))
   | None \<Rightarrow> runKubemacpoolManager suites insecureSuites env fl)"

text \<open>The exit code of \<open>runKubemacpoolManager\<close> once \<open>Run\<close> is over; 2 is the code of a panic.\<close>

fun exit_code_of :: "main_phase \<Rightarrow> int option" where
  "exit_code_of (Returned None) = Some 0"
| "exit_code_of (Returned (Some err)) = Some 1"
| "exit_code_of (Panicked _) = Some 2"
| "exit_code_of _ = None"

lemma main_program_runs:
  assumes "main_program ParseDuration c suites insecureSuites env fl = Inr (s, a, b)"
  obtains ns n tls where "s = NewKubeMacPoolManager ns n (metrics_addr fl) (wait_time fl) tls"
    "env ''POD_NAMESPACE'' = Some ns" "env ''POD_NAME'' = Some n"
    "loadMacAddressFromEnvVar env ''RANGE_START'' = Inr a" "loadMacAddressFromEnvVar env ''RANGE_END'' = Inr b"
  using assms by (auto simp: main_program_def runKubemacpoolManager_def split: option.splits sum.splits)

subsection \<open>One round of the loop\<close>

text \<open>What the API server and the libraries answer in a round.\<close>

record run_env =
  discovered :: "api_error + string list"
  scheme_error :: "api_error option"
  manager_error :: "api_error option"
  client_error :: "api_error option"
  run_rand :: "int \<Rightarrow> go_error + int"
  run_runtime :: runtime

definition checkForKubevirt :: "api_error + string list \<Rightarrow> bool" where
  "checkForKubevirt resourceList = (case resourceList of
     Inl _ \<Rightarrow> False
   | Inr resources \<Rightarrow> list_ex (\<lambda>name. name = ''virtualmachines'') resources)"

definition initRuntimeManager :: "run_env \<Rightarrow> run_state \<Rightarrow> bool \<Rightarrow> go_error option \<times> run_state" where
  "initRuntimeManager env s isKubevirtInstalled = (case scheme_error env of
     Some e \<Rightarrow> (Some (ErrWrap ''unable to register kubevirt scheme'' (ErrApi e)), s)
   | None \<Rightarrow>
       (let opts = \<lparr>cached_configmap = (podNamespace s, ''kubemacpool-mac-range-config''), strip_pods = True,
              strip_vmis = isKubevirtInstalled, metrics_bind = metricsAddr s, metrics_tls = run_tlsConfig s\<rparr>
        in case manager_error env of
             Some e \<Rightarrow> (Some (ErrApi e), s\<lparr>runtimeManager := None\<rparr>)
           | None \<Rightarrow> (case SetupMetrics (run_metrics s) of
               (Some err, r) \<Rightarrow> (Some (ErrWrap ''failed to register monitoring metrics'' err),
                  s\<lparr>runtimeManager := Some opts, run_metrics := r\<rparr>)
             | (None, r) \<Rightarrow> (None, s\<lparr>runtimeManager := Some opts, run_metrics := r\<rparr>))))"

text \<open>\<open>Run\<close> before its loop.\<close>

definition Run_setup :: "api_error option \<Rightarrow> api_error option \<Rightarrow> go_error option" where
  "Run_setup config_error clientset_error = (case config_error of
     Some e \<Rightarrow> Some (ErrWrap ''unable to set up client config'' (ErrApi e))
   | None \<Rightarrow> (case clientset_error of
       Some e \<Rightarrow> Some (ErrWrap ''unable to create a kubernetes client'' (ErrApi e))
     | None \<Rightarrow> None))"

text \<open>The gauge and the counter belong to the process.\<close>

definition process_metrics :: "run_state \<Rightarrow> metrics" where
  "process_metrics s = (case pool s of
     None \<Rightarrow> \<lparr>macCollisionMetric = Map.empty, duplicateMacsMetric = 0\<rparr> | Some p \<Rightarrow> pm_metrics p)"

text \<open>The body of the loop of \<open>Run\<close> up to \<open>runtimeManager.Start\<close>, with the goroutines it starts.\<close>

definition start_waiting :: "bool \<Rightarrow> run_state \<Rightarrow> run_state" where
  "start_waiting isKubevirtInstalled s =
     s\<lparr>cancel_ctx := next_id s, next_id := Suc (next_id s),
       pollers := (if \<not> isKubevirtInstalled then Suc (pollers s) else pollers s),
       waiters := (next_id s, kubevirtInstalledChannel s) # waiters s\<rparr>"

definition Run_round :: "run_env \<Rightarrow> hwaddr \<Rightarrow> hwaddr \<Rightarrow> run_state \<Rightarrow> (go_error option \<times> run_state) run" where
  "Run_round env start_mac end_mac s =
     (let isKubevirtInstalled = checkForKubevirt (discovered env) in
      case initRuntimeManager env s isKubevirtInstalled of
        (Some err, s1) \<Rightarrow> Ret (Some (ErrWrap ''unable to set up manager'' err), s1)
      | (None, s1) \<Rightarrow>
      (case client_error env of
         Some e \<Rightarrow> Ret (Some (ErrWrap ''failed creating pool manager client'' (ErrApi e)), s1)
       | None \<Rightarrow>
      bind_run (NewPoolManager (run_rand env) (process_metrics s1) start_mac end_mac (podNamespace s1)
          isKubevirtInstalled (waitingTime s1) [WithTLSConfig (run_tlsConfig s1)]) (\<lambda>r. case r of
        Inl err \<Rightarrow> Ret (Some (ErrWrap ''unable to create pool manager'' err), s1)
      | Inr p \<Rightarrow>
      (let s2 = start_waiting isKubevirtInstalled s1 in
       case AddToManager (run_runtime env) p (registered s2) of
         (Some err, reg) \<Rightarrow> Ret (Some (ErrWrap ''unable to register controllers to the manager'' err), s2\<lparr>registered := reg\<rparr>)
       | (None, reg) \<Rightarrow>
      (case webhook_AddToManager (run_runtime env) p of
         Inl err \<Rightarrow> Ret (Some (ErrWrap ''unable to register webhooks to the manager'' err), s2\<lparr>registered := reg\<rparr>)
       | Inr srv \<Rightarrow> Ret (None, s2\<lparr>registered := reg, server := Some srv, pool := Some p, starters := Suc (starters s2),
           main := Serving (cancel_ctx s2)\<rparr>))))))"

subsection \<open>The process as a step relation\<close>

text \<open>
  A goroutine in \<open>waitForSignal\<close> that goes on: it has received the stop signal, or its channel was closed. The call it
  deferred cancels the context it was started with.
\<close>

definition waitForSignal :: "bool \<Rightarrow> nat \<times> nat \<Rightarrow> run_state \<Rightarrow> run_state" where
  "waitForSignal stop w s =
     (let s1 = (if stop then s\<lparr>stopSignalPending := False, continueToRunManager := False\<rparr> else s)
      in s1\<lparr>waiters := remove1 w (waiters s1), cancelled := insert (fst w) (cancelled s1)\<rparr>)"

text \<open>A tick of a goroutine in \<open>waitForKubevirt\<close>: it closes the channel the manager has then, and ends.\<close>

definition waitForKubevirt :: "api_error + string list \<Rightarrow> run_state \<Rightarrow> run_state" where
  "waitForKubevirt d s =
     (if \<not> checkForKubevirt d then s
      else if kubevirtInstalledChannel s \<in> closed s then s\<lparr>main := Panicked CloseOfClosedChannel\<rparr>
      else s\<lparr>pollers := pollers s - 1, closed := insert (kubevirtInstalledChannel s) (closed s)\<rparr>)"

text \<open>The goroutine that starts the pool, once its call has come to an end; it cancels the context the manager has then.\<close>

definition pool_goroutine :: "(go_error option \<times> pool_manager) run \<Rightarrow> run_state \<Rightarrow> run_state" where
  "pool_goroutine r s = (case r of
     Ret (err, p) \<Rightarrow> s\<lparr>starters := starters s - 1, pool := Some p,
       cancelled := (if err = None then cancelled s else insert (cancel_ctx s) (cancelled s))\<rparr>
   | Panics \<Rightarrow> s\<lparr>main := Panicked RuntimeError\<rparr>
   | Hangs \<Rightarrow> s)"

definition running :: "run_state \<Rightarrow> bool" where
  "running s \<longleftrightarrow> main s = Entered \<or> main s = LoopHead \<or> (\<exists>c. main s = Serving c)"

text \<open>The steps of \<open>Run\<close> and of its goroutines; \<open>K\<close> are the clusters that the rebuild of the pool may meet.\<close>

inductive run_step :: "(kube \<Rightarrow> codec \<Rightarrow> bool) \<Rightarrow> hwaddr \<Rightarrow> hwaddr \<Rightarrow> run_state \<Rightarrow> run_state \<Rightarrow> bool" for K a b where
  setup_fails: "main s = Entered \<Longrightarrow> Run_setup e1 e2 = Some err \<Longrightarrow> run_step K a b s (s\<lparr>main := Returned (Some err)\<rparr>)"
| setup_done: "main s = Entered \<Longrightarrow> Run_setup e1 e2 = None \<Longrightarrow> run_step K a b s (s\<lparr>main := LoopHead\<rparr>)"
| leave: "main s = LoopHead \<Longrightarrow> \<not> continueToRunManager s \<Longrightarrow> run_step K a b s (s\<lparr>main := Returned None\<rparr>)"
| round_fails: "main s = LoopHead \<Longrightarrow> continueToRunManager s \<Longrightarrow> Run_round env a b s = Ret (Some err, s') \<Longrightarrow>
     run_step K a b s (s'\<lparr>main := Returned (Some err)\<rparr>)"
| round_serves: "main s = LoopHead \<Longrightarrow> continueToRunManager s \<Longrightarrow> rand_Int_ok (run_rand env) \<Longrightarrow>
     Run_round env a b s = Ret (None, s') \<Longrightarrow> run_step K a b s s'"
| round_panics: "main s = LoopHead \<Longrightarrow> continueToRunManager s \<Longrightarrow> Run_round env a b s = Panics \<Longrightarrow>
     run_step K a b s (s\<lparr>main := Panicked RuntimeError\<rparr>)"
| serving_ends: "main s = Serving c \<Longrightarrow> c \<in> cancelled s \<or> start_error \<Longrightarrow>
     run_step K a b s (s\<lparr>kubevirtInstalledChannel := next_id s, next_id := Suc (next_id s), main := LoopHead\<rparr>)"
| signal: "running s \<Longrightarrow> run_step K a b s (s\<lparr>stopSignalPending := True\<rparr>)"
| stop_received: "running s \<Longrightarrow> stopSignalPending s \<Longrightarrow> w \<in> set (waiters s) \<Longrightarrow> run_step K a b s (waitForSignal True w s)"
| kubevirt_received: "running s \<Longrightarrow> w \<in> set (waiters s) \<Longrightarrow> snd w \<in> closed s \<Longrightarrow> run_step K a b s (waitForSignal False w s)"
| kubevirt_polled: "running s \<Longrightarrow> 0 < pollers s \<Longrightarrow> run_step K a b s (waitForKubevirt d s)"
| pool_started: "running s \<Longrightarrow> 0 < starters s \<Longrightarrow> pool s = Some p \<Longrightarrow> K k js \<Longrightarrow> Start k js p \<noteq> Hangs \<Longrightarrow>
     run_step K a b s (pool_goroutine (bind_run (Start k js p) (\<lambda>(err, cleanup, p'). Ret (err, p'))) s)"

inductive run_reaches :: "(kube \<Rightarrow> codec \<Rightarrow> bool) \<Rightarrow> hwaddr \<Rightarrow> hwaddr \<Rightarrow> run_state \<Rightarrow> run_state \<Rightarrow> bool" for K a b s0 where
  run_begin: "run_reaches K a b s0 s0"
| run_next: "run_reaches K a b s0 s \<Longrightarrow> run_step K a b s s' \<Longrightarrow> run_reaches K a b s0 s'"

lemma run_reaches_trans: "run_reaches K a b s1 s2 \<Longrightarrow> run_reaches K a b s0 s1 \<Longrightarrow> run_reaches K a b s0 s2"
  by (induction rule: run_reaches.induct) (auto intro: run_reaches.run_next)

subsection \<open>The invariant of the process\<close>

definition metrics_known :: "operator_registry \<Rightarrow> bool" where
  "metrics_known g \<longleftrightarrow> g = empty_registry \<or> metrics_set_up g"

lemma SetupMetrics_known: "metrics_known g \<Longrightarrow> \<exists>g'. SetupMetrics g = (None, g') \<and> metrics_set_up g'"
  using SetupMetrics_first SetupMetrics_again by (auto simp: metrics_known_def)

definition run_inv :: "run_state \<Rightarrow> bool" where
  "run_inv s \<longleftrightarrow> main s \<noteq> Panicked CloseOfClosedChannel \<and> (running s \<longrightarrow>
     kubevirtInstalledChannel s < next_id s \<and> (\<forall>n\<in>closed s. n < next_id s) \<and>
     (pool s = None \<longrightarrow> (main s = Entered \<or> main s = LoopHead) \<and> waiters s = [] \<and> pollers s = 0 \<and> starters s = 0 \<and>
        continueToRunManager s \<and> closed s = {}) \<and>
     (pool s \<noteq> None \<longrightarrow> main s \<noteq> Entered \<and> ''mac-range-configmap'' \<in> usedNames (registered s)) \<and>
     metrics_known (run_metrics s) \<and>
     pollers s \<le> 1 \<and> (pollers s = 1 \<longrightarrow> kubevirtInstalledChannel s \<notin> closed s) \<and>
     (\<forall>c. main s = Serving c \<longrightarrow> cancel_ctx s = c \<and> (\<forall>w\<in>set (waiters s). fst w = c) \<and>
        (c \<notin> cancelled s \<longrightarrow> waiters s \<noteq> []) \<and> (\<not> continueToRunManager s \<longrightarrow> c \<in> cancelled s)))"

lemma run_inv_New: "run_inv (NewKubeMacPoolManager ns n addr w tls)"
  by (simp add: run_inv_def NewKubeMacPoolManager_def metrics_known_def)

lemma initRuntimeManager_frame:
  assumes "initRuntimeManager env s kv = (e, s')"
  obtains r g where "s' = s\<lparr>runtimeManager := r, run_metrics := g\<rparr>" "metrics_known (run_metrics s) \<Longrightarrow> metrics_known g"
proof -
  obtain e1 g where g: "SetupMetrics (run_metrics s) = (e1, g)" by (cases "SetupMetrics (run_metrics s)")
  have known: "metrics_known g" if "metrics_known (run_metrics s)"
    using SetupMetrics_known [OF that] g by (auto simp: metrics_known_def)
  consider (same) "s' = s\<lparr>runtimeManager := runtimeManager s', run_metrics := run_metrics s\<rparr>"
    | (set_up) "s' = s\<lparr>runtimeManager := runtimeManager s', run_metrics := g\<rparr>"
    using assms g by (cases s; cases e1) (auto simp: initRuntimeManager_def Let_def split: option.splits)
  then show thesis
  proof cases
    case same
    then show ?thesis by (rule that)
  next
    case set_up
    then show ?thesis using known by (rule that)
  qed
qed

text \<open>A round that gets to serve has registered its controllers.\<close>

lemma Run_round_serves:
  assumes "Run_round env a b s = Ret (None, s')"
  obtains r g p reg srv where "''mac-range-configmap'' \<notin> usedNames (registered s)"
    "''mac-range-configmap'' \<in> usedNames reg"
    "s' = (start_waiting (checkForKubevirt (discovered env)) (s\<lparr>runtimeManager := r, run_metrics := g\<rparr>))\<lparr>registered := reg,
        server := Some srv, pool := Some p, starters := Suc (starters s), main := Serving (next_id s)\<rparr>"
    "metrics_known (run_metrics s) \<Longrightarrow> metrics_known g"
    "NewPoolManager (run_rand env) (process_metrics s) a b (podNamespace s) (checkForKubevirt (discovered env)) (waitingTime s)
       [WithTLSConfig (run_tlsConfig s)] = Ret (Inr p)"
proof -
  let ?kv = "checkForKubevirt (discovered env)"
  obtain e s1 where i: "initRuntimeManager env s ?kv = (e, s1)" by (cases "initRuntimeManager env s ?kv")
  then obtain r g where r: "s1 = s\<lparr>runtimeManager := r, run_metrics := g\<rparr>"
    and known: "metrics_known (run_metrics s) \<Longrightarrow> metrics_known g" by (rule initRuntimeManager_frame) blast
  have ok: "e = None" "client_error env = None" using assms i by (cases e; cases "client_error env"; simp add: Run_round_def)+
  let ?new = "NewPoolManager (run_rand env) (process_metrics s1) a b (podNamespace s1) ?kv (waitingTime s1)
      [WithTLSConfig (run_tlsConfig s1)]"
  have "\<exists>p. ?new = Ret (Inr p)"
  proof (cases ?new)
    case (Ret x)
    then show ?thesis using assms i ok by (cases x) (simp_all add: Run_round_def Let_def)
  qed (use assms i ok in \<open>simp_all add: Run_round_def Let_def\<close>)
  then obtain p where p: "?new = Ret (Inr p)" by blast
  obtain e2 reg where reg: "AddToManager (run_runtime env) p (registered s) = (e2, reg)"
    by (cases "AddToManager (run_runtime env) p (registered s)")
  have e2: "e2 = None" using assms i ok p reg by (cases e2) (simp_all add: Run_round_def start_waiting_def Let_def r)
  have "''mac-range-configmap'' \<notin> usedNames (registered s)"
    using AddToManager_again [of "registered s" "run_runtime env" p] reg e2 by auto
  moreover have "''mac-range-configmap'' \<in> usedNames reg" using reg by (rule AddToManager_uses_name)
  moreover obtain srv where "webhook_AddToManager (run_runtime env) p = Inr srv"
    using assms i ok p reg e2
    by (cases "webhook_AddToManager (run_runtime env) p") (simp_all add: Run_round_def start_waiting_def Let_def r)
  ultimately show thesis
    using that [where r = r and g = g and p = p and reg = reg and srv = srv] known assms i ok p reg e2
    by (simp add: Run_round_def start_waiting_def Let_def r process_metrics_def)
qed

lemma run_inv_goroutine:
  assumes "run_inv s" "pool s = Some p"
  shows "run_inv (pool_goroutine r s)"
proof (cases r)
  case (Ret x)
  obtain err q where x: "x = (err, q)" by (cases x)
  let ?s = "s\<lparr>starters := starters s - 1, pool := Some q\<rparr>"
  have s: "run_inv ?s" using assms by (auto simp: run_inv_def running_def)
  then have "run_inv (?s\<lparr>cancelled := insert c (cancelled s)\<rparr>)" for c by (auto simp: run_inv_def running_def)
  with s show ?thesis by (simp add: Ret x pool_goroutine_def)
next
  case Panics
  then show ?thesis by (simp add: run_inv_def running_def pool_goroutine_def)
qed (use assms in \<open>simp add: pool_goroutine_def\<close>)

lemma run_inv_step:
  assumes "run_step K a b s s'" "run_inv s"
  shows "run_inv s'"
  using assms
proof (induction rule: run_step.induct)
  case (round_serves s env s')
  then have s: "running s" by (simp add: running_def)
  from round_serves(4) show ?case
  proof (rule Run_round_serves)
    fix r g p reg srv
    assume "''mac-range-configmap'' \<notin> usedNames (registered s)" "''mac-range-configmap'' \<in> usedNames reg"
      "s' = (start_waiting (checkForKubevirt (discovered env)) (s\<lparr>runtimeManager := r, run_metrics := g\<rparr>))\<lparr>registered := reg,
        server := Some srv, pool := Some p, starters := Suc (starters s), main := Serving (next_id s)\<rparr>"
    moreover from this(1) round_serves(5) s have "pool s = None" by (auto simp: run_inv_def)
    moreover assume "metrics_known (run_metrics s) \<Longrightarrow> metrics_known g"
    ultimately show ?thesis using round_serves(2,5) s by (auto simp: run_inv_def start_waiting_def)
  qed
next
  case (stop_received s w)
  then show ?case
    by (auto simp: run_inv_def running_def waitForSignal_def dest: notin_set_remove1 set_remove1_subset [THEN subsetD])
next
  case (kubevirt_received s w)
  then show ?case
    by (auto simp: run_inv_def running_def waitForSignal_def dest: set_remove1_subset [THEN subsetD])
next
  case (kubevirt_polled s d)
  then show ?case by (auto simp: run_inv_def running_def waitForKubevirt_def)
next
  case (pool_started s p k js)
  then show ?case by (blast intro: run_inv_goroutine)
qed (auto simp: run_inv_def running_def)

lemma run_inv_reaches: "run_reaches K a b s0 s \<Longrightarrow> run_inv s0 \<Longrightarrow> run_inv s"
  by (induction rule: run_reaches.induct) (auto intro: run_inv_step)

lemma NewPoolManager_returns:
  assumes "6 \<le> length a" "6 \<le> length b"
  shows "\<exists>r. NewPoolManager rnd g a b namesp kv wait opts = Ret r"
proof -
  let ?q = "fold (\<lambda>opt p. opt p) opts \<lparr>rangeStart = [], rangeEnd = [], currentMac = [], managerNamespace = namesp,
              macPoolMap = Map.empty, podToMacPoolMap = Map.empty, collidingObjectsPerMAC = None, pm_metrics = g,
              isKubevirt = kv, waitTime = wait, isPoolReady = False,
              tlsConfig = \<lparr>MinTLSVersion = 0, CipherSuites = [], GroupPreferences = []\<rparr>\<rparr>"
  obtain e p where "UpdateRanges rnd a b ?q = Ret (e, p)" using UpdateRanges_returns [OF assms] by blast
  then show ?thesis by (cases e) (simp_all add: NewPoolManager_def Let_def)
qed

lemma Run_round_returns:
  assumes "6 \<le> length a" "6 \<le> length b"
  shows "\<exists>r. Run_round env a b s = Ret r"
proof -
  let ?kv = "checkForKubevirt (discovered env)"
  obtain e s1 where i: "initRuntimeManager env s ?kv = (e, s1)" by (cases "initRuntimeManager env s ?kv")
  obtain r where r: "NewPoolManager (run_rand env) (process_metrics s1) a b (podNamespace s1) ?kv (waitingTime s1)
      [WithTLSConfig (run_tlsConfig s1)] = Ret r" using NewPoolManager_returns [OF assms] by blast
  show ?thesis
    using i r by (cases e; cases "client_error env"; cases r) (auto simp: Run_round_def Let_def split: prod.split option.split sum.split)
qed

lemma Run_round_again:
  assumes "''mac-range-configmap'' \<in> usedNames (registered s)" "6 \<le> length a" "6 \<le> length b"
  shows "\<exists>err s'. Run_round env a b s = Ret (Some err, s')"
proof -
  let ?kv = "checkForKubevirt (discovered env)"
  obtain e s1 where i: "initRuntimeManager env s ?kv = (e, s1)" by (cases "initRuntimeManager env s ?kv")
  then obtain x g where x: "s1 = s\<lparr>runtimeManager := x, run_metrics := g\<rparr>" by (rule initRuntimeManager_frame)
  obtain r where r: "NewPoolManager (run_rand env) (process_metrics s1) a b (podNamespace s1) ?kv (waitingTime s1)
      [WithTLSConfig (run_tlsConfig s1)] = Ret r" using NewPoolManager_returns [OF assms(2,3)] by blast
  have "AddToManager (run_runtime env) p (registered (start_waiting ?kv s1)) =
      (Some (ErrControllerName ''mac-range-configmap''), registered s)" for p
    using assms(1) AddToManager_again [of "registered s"] by (simp add: start_waiting_def x)
  then show ?thesis
    using i r by (cases e; cases "client_error env"; cases r) (simp_all add: Run_round_def Let_def)
qed

text \<open>The first round serves when nothing fails and the range is acceptable.\<close>

definition run_env_ok :: "run_env \<Rightarrow> bool" where
  "run_env_ok env \<longleftrightarrow> scheme_error env = None \<and> manager_error env = None \<and>
     client_error env = None \<and> rand_Int_ok (run_rand env) \<and> faultless (run_runtime env)"

lemma Run_round_first:
  assumes "run_env_ok env" "length a = 6" "length b = 6" "range_acceptable (run_rand env) a b"
  shows "\<exists>s'. Run_round env a b ((NewKubeMacPoolManager ns n addr w tls)\<lparr>main := LoopHead\<rparr>) = Ret (None, s') \<and>
     main s' = Serving 1 \<and> pool s' \<noteq> None \<and> cancelled s' = {} \<and> starters s' = 1"
proof -
  let ?kv = "checkForKubevirt (discovered env)"
  let ?n = "NewKubeMacPoolManager ns n addr w tls"
  let ?s = "?n\<lparr>main := LoopHead\<rparr>"
  obtain g where g: "SetupMetrics (run_metrics ?s) = (None, g)"
    using SetupMetrics_first by (auto simp: NewKubeMacPoolManager_def)
  obtain r where i: "initRuntimeManager env ?s ?kv = (None, ?s\<lparr>runtimeManager := r, run_metrics := g\<rparr>)"
    using assms(1) g by (fastforce simp: initRuntimeManager_def run_env_ok_def Let_def)
  obtain p where p: "NewPoolManager (run_rand env) (process_metrics (?s\<lparr>runtimeManager := r, run_metrics := g\<rparr>)) a b ns ?kv w
      [WithTLSConfig tls] = Ret (Inr p)"
  proof -
    let ?q = "\<lparr>rangeStart = [], rangeEnd = [], currentMac = [], managerNamespace = ns, macPoolMap = Map.empty,
        podToMacPoolMap = Map.empty, collidingObjectsPerMAC = None, pm_metrics = process_metrics (?s\<lparr>runtimeManager := r, run_metrics := g\<rparr>),
        isKubevirt = ?kv, waitTime = w, isPoolReady = False, tlsConfig = tls\<rparr>"
    obtain c where "UpdateRanges (run_rand env) a b ?q = Ret (None, ?q\<lparr>rangeStart := a, rangeEnd := b, currentMac := c\<rparr>)"
      using assms UpdateRanges_accepts [of a b "run_rand env"] unfolding run_env_ok_def by blast
    then show thesis by (intro that) (simp add: NewPoolManager_def Let_def WithTLSConfig_def)
  qed
  obtain reg where reg: "AddToManager (run_runtime env) p \<lparr>usedNames = {}, indexed = [], controllers = [], watches = []\<rparr> =
      (None, reg)"
    using assms(1) AddToManager_registers [of "run_runtime env" "\<lparr>usedNames = {}, indexed = [], controllers = [], watches = []\<rparr>" p]
    by (auto simp: run_env_ok_def)
  obtain srv where srv: "webhook_AddToManager (run_runtime env) p = Inr srv"
    using assms(1) by (simp add: webhook_AddToManager_def run_env_ok_def faultless_def Let_def)
  have new [simp]: "registered ?n = \<lparr>usedNames = {}, indexed = [], controllers = [], watches = []\<rparr>" "podNamespace ?n = ns"
    "waitingTime ?n = w" "run_tlsConfig ?n = tls" "next_id ?n = 1" "cancelled ?n = {}" "starters ?n = 0"
    by (simp_all add: NewKubeMacPoolManager_def)
  have "Run_round env a b ?s = Ret (None, (start_waiting ?kv (?s\<lparr>runtimeManager := r, run_metrics := g\<rparr>))\<lparr>registered := reg, server := Some srv,
      pool := Some p, starters := 1, main := Serving 1\<rparr>)"
    using assms(1) i p reg srv by (simp add: Run_round_def Let_def run_env_ok_def start_waiting_def)
  then show ?thesis by (simp add: start_waiting_def)
qed

subsection \<open>Properties\<close>

definition sample_run_env :: run_env where
  "sample_run_env = \<lparr>discovered = Inr [''virtualmachines''], scheme_error = None, manager_error = None,
     client_error = None, run_rand = (\<lambda>_. Inr 0),
     run_runtime = \<lparr>index_field = (\<lambda>_ _. None), watch_kind = (\<lambda>_ _. None), add_runnable = (\<lambda>_. None)\<rparr>\<rparr>"

definition fresh_process :: run_state where
  "fresh_process = NewKubeMacPoolManager ''ns'' ''pod'' '':8080'' 600
     \<lparr>MinTLSVersion = 0x0303, CipherSuites = [], GroupPreferences = []\<rparr>"

lemma fresh_process_serves:
  obtains s where "run_reaches K [2, 0, 0, 0, 0, 0] [2, 0, 0, 0, 1, 0] fresh_process s" "main s = Serving 1" "pool s \<noteq> None"
    "cancelled s = {}" "0 < starters s"
proof -
  have env: "run_env_ok sample_run_env" "range_acceptable (run_rand sample_run_env) [2, 0, 0, 0, 0, 0] [2, 0, 0, 0, 1, 0]"
    by (simp_all add: run_env_ok_def sample_run_env_def rand_Int_ok_def faultless_def range_acceptable_def unicast_def)
  have len: "length ([2, 0, 0, 0, 0, 0] :: hwaddr) = 6" "length ([2, 0, 0, 0, 1, 0] :: hwaddr) = 6" by simp_all
  obtain s where s: "Run_round sample_run_env [2, 0, 0, 0, 0, 0] [2, 0, 0, 0, 1, 0] (fresh_process\<lparr>main := LoopHead\<rparr>) = Ret (None, s)"
      "main s = Serving 1" "pool s \<noteq> None" "cancelled s = {}" "starters s = 1"
    using Run_round_first [OF env(1) len env(2)] unfolding fresh_process_def by blast
  have "run_step K [2, 0, 0, 0, 0, 0] [2, 0, 0, 0, 1, 0] fresh_process (fresh_process\<lparr>main := LoopHead\<rparr>)"
    by (rule run_step.setup_done [of _ None None]) (simp_all add: fresh_process_def NewKubeMacPoolManager_def Run_setup_def)
  moreover have "run_step K [2, 0, 0, 0, 0, 0] [2, 0, 0, 0, 1, 0] (fresh_process\<lparr>main := LoopHead\<rparr>) s"
    using s(1) env(1) by (intro run_step.round_serves) (simp_all add: fresh_process_def NewKubeMacPoolManager_def run_env_ok_def)
  ultimately have "run_reaches K [2, 0, 0, 0, 0, 0] [2, 0, 0, 0, 1, 0] fresh_process s"
    by (blast intro: run_reaches.intros)
  then show thesis using s that by auto
qed

text \<open>C38: A process serves at most once: when its first manager has ended, because KubeVirt appeared or
  the pool could not be started, every further round of the loop ends with an error, since the names of the
  controllers are taken; and the process never closes a channel twice.\<close>

theorem Run_serves_once:
  assumes "run_reaches K a b (NewKubeMacPoolManager ns n addr w tls) s" "6 \<le> length a" "6 \<le> length b"
  shows "main s \<noteq> Panicked CloseOfClosedChannel \<and>
     (main s = LoopHead \<and> pool s \<noteq> None \<longrightarrow> (\<exists>err s'. Run_round env a b s = Ret (Some err, s')))"
proof -
  have "run_inv s" using assms(1) run_inv_New by (rule run_inv_reaches)
  then show ?thesis using Run_round_again [OF _ assms(2,3)] by (auto simp: run_inv_def running_def)
qed

theorem Run_serves_once_witness:
  "\<exists>s. main s = LoopHead \<and> pool s \<noteq> None \<and>
     (\<exists>err s'. Run_round sample_run_env [2, 0, 0, 0, 0, 0] [2, 0, 0, 0, 1, 0] s = Ret (Some err, s'))"
proof -
  let ?a = "[2, 0, 0, 0, 0, 0] :: hwaddr" and ?b = "[2, 0, 0, 0, 1, 0] :: hwaddr"
  obtain s where s: "run_reaches K ?a ?b fresh_process s" "main s = Serving 1" "pool s \<noteq> None"
    by (rule fresh_process_serves)
  let ?s = "s\<lparr>kubevirtInstalledChannel := next_id s, next_id := Suc (next_id s), main := LoopHead\<rparr>"
  have "run_step K ?a ?b s ?s" using s(2) by (rule run_step.serving_ends [where start_error = True]) simp
  with s(1) have "run_reaches K ?a ?b fresh_process ?s" by (rule run_reaches.run_next)
  then show ?thesis
    using Run_serves_once [where a = ?a and b = ?b and K = K and s = ?s and env = sample_run_env, folded fresh_process_def] s(3)
    by (intro exI [of _ ?s]) (simp add: fresh_process_def)
qed

text \<open>After a stop signal was received.\<close>

definition stopping :: "nat \<Rightarrow> run_state \<Rightarrow> bool" where
  "stopping c s \<longleftrightarrow> (case main s of
     Returned r \<Rightarrow> r = None
   | Panicked x \<Rightarrow> x = RuntimeError
   | Serving c' \<Rightarrow> c' = c \<and> c \<in> cancelled s \<and> \<not> continueToRunManager s
   | LoopHead \<Rightarrow> c \<in> cancelled s \<and> \<not> continueToRunManager s
   | Entered \<Rightarrow> False)"

lemma stopping_step:
  assumes "run_step K a b s s'" "run_inv s" "stopping c s"
  shows "stopping c s'"
  using assms
proof (induction rule: run_step.induct)
  case (kubevirt_polled s d)
  then have "kubevirtInstalledChannel s \<notin> closed s" by (simp add: run_inv_def)
  with kubevirt_polled show ?case by (auto simp: waitForKubevirt_def stopping_def split: main_phase.splits)
next
  case (pool_started s p k js)
  then show ?case by (cases "Start k js p") (auto simp: pool_goroutine_def stopping_def split: main_phase.splits)
qed (auto simp: stopping_def waitForSignal_def split: main_phase.splits)

lemma stopping_reaches: "run_reaches K a b s s' \<Longrightarrow> run_inv s \<Longrightarrow> stopping c s \<Longrightarrow> run_inv s' \<and> stopping c s'"
  by (induction rule: run_reaches.induct) (auto intro: run_inv_step stopping_step)

lemma stopping_ends:
  assumes "stopping c s" "running s"
  shows "\<exists>s'. run_reaches K a b s s' \<and> main s' = Returned None"
proof -
  have leave: "run_step K a b t (t\<lparr>main := Returned None\<rparr>)" if "main t = LoopHead" "\<not> continueToRunManager t" for t
    using that by (rule run_step.leave)
  show ?thesis
  proof (cases "main s = LoopHead")
    case True
    with assms(1) have "run_reaches K a b s (s\<lparr>main := Returned None\<rparr>)"
      by (auto simp: stopping_def intro: leave run_reaches.intros)
    then show ?thesis by fastforce
  next
    case False
    with assms have c: "main s = Serving c" "c \<in> cancelled s" "\<not> continueToRunManager s"
      by (auto simp: stopping_def running_def)
    let ?t = "s\<lparr>kubevirtInstalledChannel := next_id s, next_id := Suc (next_id s), main := LoopHead\<rparr>"
    have "run_step K a b s ?t" using c(1,2) by (intro run_step.serving_ends) auto
    moreover have "run_step K a b ?t (?t\<lparr>main := Returned None\<rparr>)" using c(3) by (intro leave) simp_all
    ultimately have "run_reaches K a b s (?t\<lparr>main := Returned None\<rparr>)" by (blast intro: run_reaches.intros)
    then show ?thesis by fastforce
  qed
qed

text \<open>C39: A stop signal that is pending while a manager serves, and before the context of the manager is cancelled, can be received by a
  goroutine that waits for it. Once it has been received, the context is cancelled and the loop is not to go on, and so it stays in whatever way the process runs:
  it serves no other manager and returns no error, and from every state it can still come to the end of \<open>Run\<close> without an error; unless the goroutine that
  rebuilds the pool panics. (Once the goroutine has taken the event that KubeVirt is there, a signal is not received any
  more: see \<open>stop_signal_lost\<close>.)\<close>

theorem Run_stops:
  assumes "run_reaches K a b (NewKubeMacPoolManager ns n addr w tls) s" "main s = Serving c"
    and "stopSignalPending s" "c \<notin> cancelled s"
  shows "\<exists>v\<in>set (waiters s). run_step K a b s (waitForSignal True v s) \<and>
     (\<forall>s'. run_reaches K a b (waitForSignal True v s) s' \<longrightarrow>
        (case main s' of
           Returned r \<Rightarrow> r = None
         | Panicked x \<Rightarrow> x = RuntimeError
         | _ \<Rightarrow> c \<in> cancelled s' \<and> \<not> continueToRunManager s' \<and>
             (\<exists>s''. run_reaches K a b s' s'' \<and> main s'' = Returned None)))"
proof -
  have inv: "run_inv s" using assms(1) run_inv_New by (rule run_inv_reaches)
  then obtain v where v: "v \<in> set (waiters s)" "fst v = c"
    using assms(2,4) by (fastforce simp: run_inv_def running_def neq_Nil_conv)
  let ?s1 = "waitForSignal True v s"
  have step: "run_step K a b s ?s1" using assms(2,3) v(1) by (intro run_step.stop_received) (auto simp: running_def)
  have s1: "run_inv ?s1" "stopping c ?s1"
    using run_inv_step [OF step inv] assms(2) v(2) by (simp_all add: stopping_def waitForSignal_def)
  have "case main s' of Returned r \<Rightarrow> r = None | Panicked x \<Rightarrow> x = RuntimeError
      | _ \<Rightarrow> c \<in> cancelled s' \<and> \<not> continueToRunManager s' \<and> (\<exists>s''. run_reaches K a b s' s'' \<and> main s'' = Returned None)"
    if "run_reaches K a b ?s1 s'" for s'
  proof -
    have s': "stopping c s'" using stopping_reaches [OF that s1] by blast
    then show ?thesis using stopping_ends [OF s', of K a b]
      by (cases "main s'") (auto simp: stopping_def running_def)
  qed
  with step v(1) show ?thesis by blast
qed

theorem Run_stops_witness:
  "\<exists>s v s'. main s = Serving 1 \<and> run_step (\<lambda>_ _. True) [2, 0, 0, 0, 0, 0] [2, 0, 0, 0, 1, 0] s (waitForSignal True v s) \<and>
     run_reaches (\<lambda>_ _. True) [2, 0, 0, 0, 0, 0] [2, 0, 0, 0, 1, 0] (waitForSignal True v s) s' \<and> main s' = Returned None"
proof -
  let ?a = "[2, 0, 0, 0, 0, 0] :: hwaddr" and ?b = "[2, 0, 0, 0, 1, 0] :: hwaddr" and ?K = "\<lambda>_ _. True"
  obtain s where s: "run_reaches ?K ?a ?b fresh_process s" "main s = Serving 1" "cancelled s = {}"
    by (rule fresh_process_serves)
  let ?s = "s\<lparr>stopSignalPending := True\<rparr>"
  have "run_step ?K ?a ?b s ?s" using s(2) by (intro run_step.signal) (simp add: running_def)
  with s(1) have "run_reaches ?K ?a ?b fresh_process ?s" by (rule run_reaches.run_next)
  from Run_stops [OF this [unfolded fresh_process_def], of 1] s(2,3)
  obtain v where v: "run_step ?K ?a ?b ?s (waitForSignal True v ?s)"
      "\<forall>s'. run_reaches ?K ?a ?b (waitForSignal True v ?s) s' \<longrightarrow>
        (case main s' of Returned r \<Rightarrow> r = None | Panicked x \<Rightarrow> x = RuntimeError
         | _ \<Rightarrow> 1 \<in> cancelled s' \<and> \<not> continueToRunManager s' \<and> (\<exists>s''. run_reaches ?K ?a ?b s' s'' \<and> main s'' = Returned None))"
    by auto
  have "main (waitForSignal True v ?s) = Serving 1" using s(2) by (simp add: waitForSignal_def)
  with v(2) [rule_format, OF run_reaches.run_begin]
  obtain s'' where "run_reaches ?K ?a ?b (waitForSignal True v ?s) s''" "main s'' = Returned None" by auto
  with v(1) s(2) show ?thesis by (intro exI [of _ ?s] exI [of _ v] exI [of _ s'']) auto
qed

text \<open>
  When the goroutine that waits has taken the event that KubeVirt is there, no goroutine is left to receive a stop signal:
  the process does not come to the end of \<open>Run\<close> without an error any more.
\<close>

lemma stop_signal_lost:
  assumes "run_reaches K a b s s'" "run_inv s" "main s = Serving c" "waiters s = []" "continueToRunManager s"
  shows "main s' \<noteq> Returned None"
proof -
  let ?lost = "\<lambda>s. run_inv s \<and> (running s \<longrightarrow> pool s \<noteq> None \<and> waiters s = [] \<and> continueToRunManager s) \<and> main s \<noteq> Returned None"
  have "?lost s'" if "run_step K a b s s'" "?lost s" for s s'
  proof (rule conjI)
    show "run_inv s'" using that by (blast intro: run_inv_step)
    from that show "(running s' \<longrightarrow> pool s' \<noteq> None \<and> waiters s' = [] \<and> continueToRunManager s') \<and> main s' \<noteq> Returned None"
    proof (induction rule: run_step.induct)
      case (round_serves s env s')
      then have "''mac-range-configmap'' \<in> usedNames (registered s)" by (auto simp: run_inv_def running_def)
      with Run_round_serves [OF round_serves(4)] show ?case by blast
    next
      case (kubevirt_polled s d)
      then show ?case by (auto simp: waitForKubevirt_def running_def)
    next
      case (pool_started s p k js)
      then show ?case by (cases "Start k js p") (auto simp: pool_goroutine_def running_def)
    qed (auto simp: running_def)
  qed
  moreover have "?lost s" using assms(2-5) by (auto simp: run_inv_def running_def)
  ultimately have "?lost s'" using assms(1) by (induction rule: run_reaches.induct [OF assms(1)]) blast+
  then show ?thesis by blast
qed

end
