(* ===== verification/Process.thy ===== *)
theory Process
  imports Rebuild Manager
begin

section \<open>The process and its handlers\<close>

text \<open>
  The step relation of \<open>Manager\<close>, in which the main loop and its goroutines take turns, together with
  the handlers of \<open>System\<close>: while a manager serves, an admission, a reconciliation or a round of healing may
  run at any time: before the goroutine that rebuilds the pool from the cluster runs, after it, and between any two accesses
  of the rebuild to the pool (\<open>Start_among\<close> of \<open>Rebuild\<close>). The mutex of the pool makes a handler one step.

  A handler that panics is recovered by controller-runtime, whose webhooks and controllers do so by default, and the deferred
  calls release the mutex. Such a handler has changed nothing (\<open>reads_null_exec\<close> of \<open>System\<close>), so it is a step that keeps the state, and
  needs no place among the handlers of a rebuild. The rounds of healing and the rebuild run in goroutines of the program, where a panic ends the process.

  Shown, from \<open>main\<close> on: the process panics only if the rebuild meets a stored object it cannot stand, and does so then; the pool
  manager keeps its invariant whatever the order of the steps and whatever the cluster answers, and it does not report ready
  before the rebuild is done.
\<close>

subsection \<open>Steps\<close>

inductive proc_step :: "(kube \<Rightarrow> codec \<Rightarrow> bool) \<Rightarrow> hwaddr \<Rightarrow> hwaddr \<Rightarrow> run_state \<Rightarrow> run_state \<Rightarrow> bool" for K a b where
  goroutine: "run_step K a b s s' \<Longrightarrow> proc_step K a b s s'"
| handler: "main s = Serving c \<Longrightarrow> pool s = Some p \<Longrightarrow> world_ok w \<Longrightarrow> input_ok w e \<Longrightarrow> exec w e p = Ret p' \<Longrightarrow>
     proc_step K a b s (s\<lparr>pool := Some p'\<rparr>)"
| handler_panics: "main s = Serving c \<Longrightarrow> pool s = Some p \<Longrightarrow> world_ok w \<Longrightarrow> input_ok w e \<Longrightarrow> exec w e p = Panics \<Longrightarrow>
     proc_step K a b s (if e = HealStale then s\<lparr>main := Panicked RuntimeError\<rparr> else s)"
| rebuild: "main s = Serving c \<Longrightarrow> 0 < starters s \<Longrightarrow> pool s = Some p \<Longrightarrow> K k js \<Longrightarrow> coming_ok batches \<Longrightarrow>
     Start_among k js (rebuild_of p batches) \<noteq> Hangs \<Longrightarrow>
     proc_step K a b s (pool_goroutine (bind_run (Start_among k js (rebuild_of p batches)) (\<lambda>(err, cleanup, r). Ret (err, r_pool r))) s)"

inductive proc_reaches :: "(kube \<Rightarrow> codec \<Rightarrow> bool) \<Rightarrow> hwaddr \<Rightarrow> hwaddr \<Rightarrow> run_state \<Rightarrow> run_state \<Rightarrow> bool" for K a b s0 where
  proc_begin: "proc_reaches K a b s0 s0"
| proc_next: "proc_reaches K a b s0 s \<Longrightarrow> proc_step K a b s s' \<Longrightarrow> proc_reaches K a b s0 s'"

subsection \<open>The invariant\<close>

definition pool_inv :: "run_state \<Rightarrow> bool" where
  "pool_inv s \<longleftrightarrow> starters s \<le> 1 \<and> (\<forall>p. pool s = Some p \<longrightarrow> sys_ok p \<and> (0 < starters s \<longrightarrow> \<not> isPoolReady p))"

text \<open>A panic is one of the rebuild, on a cluster with an object it cannot stand.\<close>

definition panic_inv :: "(kube \<Rightarrow> codec \<Rightarrow> bool) \<Rightarrow> run_state \<Rightarrow> bool" where
  "panic_inv K s \<longleftrightarrow> (\<forall>x. main s = Panicked x \<longrightarrow> x = RuntimeError \<and> (\<exists>k js. K k js \<and> \<not> stored_ok k js))"

lemma pool_inv_goroutine:
  assumes "pool_inv s" "\<And>err q. r = Ret (err, q) \<Longrightarrow> sys_ok q"
  shows "pool_inv (pool_goroutine r s)"
  using assms by (cases r) (auto simp: pool_inv_def pool_goroutine_def split: prod.split)

lemma panic_inv_goroutine:
  assumes "panic_inv K s" "r = Panics \<Longrightarrow> \<exists>k js. K k js \<and> \<not> stored_ok k js"
  shows "panic_inv K (pool_goroutine r s)"
  using assms by (cases r) (auto simp: panic_inv_def pool_goroutine_def split: prod.split)

lemma Run_round_failed:
  assumes "Run_round env a b s = Ret (Some err, s')"
  shows "pool s' = pool s \<and> starters s' = starters s"
proof -
  let ?kv = "checkForKubevirt (discovered env)"
  obtain e s1 where i: "initRuntimeManager env s ?kv = (e, s1)" by (cases "initRuntimeManager env s ?kv")
  then obtain r g where "s1 = s\<lparr>runtimeManager := r, run_metrics := g\<rparr>" by (rule initRuntimeManager_frame)
  then have s1: "pool s1 = pool s" "starters s1 = starters s" "registered (start_waiting ?kv s1) = registered s"
    by (simp_all add: start_waiting_def)
  have s2: "pool (start_waiting ?kv s1) = pool s" "starters (start_waiting ?kv s1) = starters s"
    by (simp_all add: start_waiting_def s1)
  let ?new = "NewPoolManager (run_rand env) (process_metrics s1) a b (podNamespace s1) ?kv (waitingTime s1)
      [WithTLSConfig (run_tlsConfig s1)]"
  show ?thesis
  proof (cases "e = None \<and> client_error env = None")
    case False
    then show ?thesis using assms i s1 by (cases e; cases "client_error env") (auto simp: Run_round_def)
  next
    case True
    then obtain x where x: "?new = Ret x" using assms i by (cases ?new) (simp_all add: Run_round_def Let_def)
    show ?thesis
    proof (cases x)
      case (Inl err')
      then show ?thesis using True assms i s1 x by (auto simp: Run_round_def Let_def)
    next
      case (Inr p)
      obtain e2 reg where reg: "AddToManager (run_runtime env) p (registered s) = (e2, reg)"
        by (cases "AddToManager (run_runtime env) p (registered s)")
      then show ?thesis using True assms i s1 s2 x Inr
        by (cases e2; cases "webhook_AddToManager (run_runtime env) p") (auto simp: Run_round_def Let_def)
    qed
  qed
qed

lemma first_round:
  assumes "run_inv s" "main s = LoopHead" "''mac-range-configmap'' \<notin> usedNames (registered s)"
  shows "pool s = None" "starters s = 0"
proof -
  have "running s" using assms(2) by (simp add: running_def)
  with assms(1,3) show "pool s = None" unfolding run_inv_def by blast
  with assms(1) \<open>running s\<close> show "starters s = 0" unfolding run_inv_def by blast
qed

lemma pool_inv_run_step:
  assumes "run_step K a b s s'" "run_inv s" "pool_inv s" "length a = 6" "length b = 6"
  shows "pool_inv s'"
  using assms
proof (induction rule: run_step.induct)
  case (round_fails s env err s')
  then show ?case using Run_round_failed [OF round_fails(3)] by (simp add: pool_inv_def)
next
  case (round_serves s env s')
  from round_serves(4) show ?case
  proof (rule Run_round_serves)
    fix r g p reg srv
    assume "''mac-range-configmap'' \<notin> usedNames (registered s)"
      and s': "s' = (start_waiting (checkForKubevirt (discovered env)) (s\<lparr>runtimeManager := r, run_metrics := g\<rparr>))\<lparr>registered := reg,
        server := Some srv, pool := Some p, starters := Suc (starters s), main := Serving (next_id s)\<rparr>"
      and new: "NewPoolManager (run_rand env) (process_metrics s) a b (podNamespace s) (checkForKubevirt (discovered env)) (waitingTime s)
       [WithTLSConfig (run_tlsConfig s)] = Ret (Inr p)"
    then have none: "pool s = None" "starters s = 0"
      using first_round [OF round_serves(5,1)] by blast+
    from new have "sys_ok p" "\<not> isPoolReady p"
      unfolding process_metrics_def none(1) option.case
      using sys_ok_new [OF round_serves(3,7,8)] by blast+
    with s' none show ?thesis by (simp add: pool_inv_def start_waiting_def)
  qed
next
  case (pool_started s p k js)
  have "sys_ok p" using pool_started(3,7) by (simp add: pool_inv_def)
  then show ?case using pool_started(7) sys_ok_Start [of p k js]
    by (intro pool_inv_goroutine) (auto simp: bind_run_eq_Ret)
qed (simp_all add: pool_inv_def waitForSignal_def waitForKubevirt_def)

lemma panic_inv_run_step:
  assumes "run_step K a b s s'" "run_inv s" "pool_inv s" "panic_inv K s" "length a = 6" "length b = 6"
  shows "panic_inv K s'"
  using assms
proof (induction rule: run_step.induct)
  case (round_serves s env s')
  from round_serves(4) show ?case by (rule Run_round_serves) (simp add: panic_inv_def)
next
  case (round_panics s env)
  then obtain r where "Run_round env a b s = Ret r" using Run_round_returns [of a b env s] by auto
  with round_panics(3) show ?case by simp
next
  case (kubevirt_polled s d)
  then have "kubevirtInstalledChannel s \<notin> closed s" by (simp add: run_inv_def)
  with kubevirt_polled show ?case by (simp add: waitForKubevirt_def panic_inv_def)
next
  case (pool_started s p k js)
  then have "pool_ok p" by (simp add: pool_inv_def sys_ok_def)
  with Start_no_panic have "\<not> stored_ok k js" if "Start k js p = Panics" using that by blast
  with pool_started show ?case by (intro panic_inv_goroutine) (auto split: bind_run_split_asm prod.splits)
qed (simp_all add: panic_inv_def waitForSignal_def)

lemma proc_inv_step:
  assumes "proc_step K a b s s'" "run_inv s" "pool_inv s" "panic_inv K s" "length a = 6" "length b = 6"
  shows "run_inv s' \<and> pool_inv s' \<and> panic_inv K s'"
  using assms
proof (induction rule: proc_step.induct)
  case (goroutine s s')
  then show ?case using run_inv_step pool_inv_run_step panic_inv_run_step by blast
next
  case (handler s c p w e p')
  have "sys_ok p" using handler(2,7) by (simp add: pool_inv_def)
  with exec_input_ok [OF this handler(3,4)] handler(5) have "sys_ok p'" "isPoolReady p' = isPoolReady p" by simp_all
  with handler show ?case by (auto simp: run_inv_def running_def pool_inv_def panic_inv_def)
next
  case (handler_panics s c p w e)
  have "sys_ok p" using handler_panics(2,7) by (simp add: pool_inv_def)
  with exec_input_ok [OF this handler_panics(3,4)] handler_panics(5) have "e \<noteq> HealStale" by auto
  with handler_panics show ?case by simp
next
  case (rebuild s c p k js batches)
  then have ok: "rebuild_ok (rebuild_of p batches)" by (auto simp: pool_inv_def intro: rebuild_ok_of)
  let ?r = "bind_run (Start_among k js (rebuild_of p batches)) (\<lambda>(err, cleanup, r). Ret (err, r_pool r))"
  have "run_inv (pool_goroutine ?r s)" using rebuild(7,3) by (rule run_inv_goroutine)
  moreover have "pool_inv (pool_goroutine ?r s)"
    using rebuild(8) Start_among_keeps [OF ok] by (intro pool_inv_goroutine) (auto simp: bind_run_eq_Ret)
  moreover have "panic_inv K (pool_goroutine ?r s)"
  proof (rule panic_inv_goroutine [OF rebuild(9)])
    assume "?r = Panics"
    then have "Start_among k js (rebuild_of p batches) = Panics" by (auto split: bind_run_split_asm prod.splits)
    with Start_among_no_panic [OF _ ok] rebuild(4) show "\<exists>k js. K k js \<and> \<not> stored_ok k js" by blast
  qed
  ultimately show ?case by blast
qed

lemma proc_inv:
  assumes "proc_reaches K a b s0 s" "run_inv s0" "pool_inv s0" "panic_inv K s0" "length a = 6" "length b = 6"
  shows "run_inv s \<and> pool_inv s \<and> panic_inv K s"
  using assms by (induction rule: proc_reaches.induct) (blast dest: proc_inv_step)+

subsection \<open>Properties\<close>


text \<open>An environment with which the program starts.\<close>

definition sample_environment :: environment where
  "sample_environment = [''POD_NAMESPACE'' \<mapsto> ''ns'', ''POD_NAME'' \<mapsto> ''pod'',
     ''RANGE_START'' \<mapsto> ''02:00:00:00:00:00'', ''RANGE_END'' \<mapsto> ''02:00:00:00:01:00'']"

definition sample_flags :: flags where
  "sample_flags = \<lparr>metrics_addr = '':8080'', wait_time = 600, tls_min_version = ''VersionTLS12'', tls_cipher_suites = [],
     tls_group_preferences = []\<rparr>"

definition sample_cert_env :: cert_env where
  "sample_cert_env = \<lparr>cert_manager_error = None, NewManager_error = \<lambda>_. None, cert_Add_error = None, cert_Start_error = None\<rparr>"

lemma sample_main_program:
  "main_program (\<lambda>_. Inr 0) sample_cert_env [] [] sample_environment sample_flags =
     Inr (fresh_process, [2, 0, 0, 0, 0, 0], [2, 0, 0, 0, 1, 0])"
proof -
  have "ParseMAC ''02:00:00:00:00:00'' = Inr [2, 0, 0, 0, 0, 0]" "ParseMAC ''02:00:00:00:01:00'' = Inr [2, 0, 0, 0, 1, 0]"
    using ParseMAC_hw_String [of "[2, 0, 0, 0, 0, 0]"] ParseMAC_hw_String [of "[2, 0, 0, 0, 1, 0]"]
    by (simp_all add: hex2_def hexDigit_def hw_length_ok_def hw_lengths_def)
  then show ?thesis
    by (simp add: main_program_def runKubemacpoolManager_def sample_environment_def sample_flags_def fresh_process_def
        loadMacAddressFromEnvVar_def NewConfig_def versionByName_def tlsCipherSuites_def tlsGroups_def)
qed

lemma proc_reaches_run: "run_reaches K a b s0 s \<Longrightarrow> proc_reaches K a b s0 s"
  by (induction rule: run_reaches.induct) (blast intro: proc_reaches.intros proc_step.goroutine)+


text \<open>A pod of the cluster with a null element in its network annotation does end the process: the rebuild panics.\<close>

definition null_kube :: kube where
  "null_kube = managed_kube\<lparr>list_vms := \<lambda>_ _. Inr ([], []), list_pods := \<lambda>_ _. Inr ([sample_pod\<lparr>pod_Annotations := Some [(NetworkAttachmentAnnot, ''[null]'')]\<rparr>], [])\<rparr>"

lemma null_pod_panics: "Start null_kube sample_codec p = Panics"
proof -
  let ?pd = "sample_pod\<lparr>pod_Annotations := Some [(NetworkAttachmentAnnot, ''[null]'')]\<rparr>"
  have ns: "getManagedNamespaces null_kube podsWebhookName = Ret (Inr {''default''})"
    unfolding null_kube_def using managed_kube_namespaces by blast
  have pages: "serves (list_pods null_kube 500) [[?pd]] []" by (simp add: null_kube_def)
  have "initMacsOfPod null_kube sample_codec ?pd p = Panics"
    by (simp add: initMacsOfPod_def forEachNetworkOfPod_def parsePodNetworkAnnotation_def sample_codec_def)
  then have "initPodMap null_kube sample_codec p = Panics"
    unfolding initPodMap_def paginatePods_eq [OF ns pages] by (simp add: sample_pod_def)
  then show ?thesis by (simp add: Start_def InitMaps_def)
qed

lemma null_pod_ends_process:
  "\<exists>s. proc_reaches (\<lambda>_ _. True) [2, 0, 0, 0, 0, 0] [2, 0, 0, 0, 1, 0] fresh_process s \<and> main s = Panicked RuntimeError"
proof -
  let ?a = "[2, 0, 0, 0, 0, 0] :: hwaddr" and ?b = "[2, 0, 0, 0, 1, 0] :: hwaddr" and ?K = "\<lambda>_ _. True"
  obtain s p where s: "run_reaches ?K ?a ?b fresh_process s" "main s = Serving 1" "pool s = Some p" "0 < starters s"
    by (rule fresh_process_serves) blast
  have "running s" using s(2) by (simp add: running_def)
  from run_step.pool_started [OF this s(4,3), of ?K null_kube sample_codec] have
    "run_step ?K ?a ?b s (s\<lparr>main := Panicked RuntimeError\<rparr>)" by (simp add: null_pod_panics pool_goroutine_def)
  with s(1) have "run_reaches ?K ?a ?b fresh_process (s\<lparr>main := Panicked RuntimeError\<rparr>)" by (rule run_reaches.run_next)
  then show ?thesis by (intro exI [of _ "s\<lparr>main := Panicked RuntimeError\<rparr>"]) (simp add: proc_reaches_run)
qed

end
