(* ===== verification/Cleanup.thy ===== *)
theory Cleanup
  imports Heal
begin

section \<open>The cleanup loop: \<open>vmWaitingCleanupLook\<close> of \<open>virtualmachine_pool.go\<close>\<close>

text \<open>
  The loop that \<open>Start\<close> begins as a goroutine: a round of \<open>healStaleMacEntries\<close> at every tick of a timer, whose
  error is dropped. It never ends; here it runs over the ticks that have come so far, each with what the API
  server answers, the time and the orders of the map iterations.

  A round need not heal everything, since \<open>macsToRemove\<close> has room for one object per address. Shown: when the API server
  answers every look-up, a round that finds something stale makes progress, and as many rounds as there are
  entries in a transaction heal everything that was stale, each by what the cluster said of its machine.
\<close>

subsection \<open>The loop\<close>

record tick =
  t_kube :: kube
  t_kord :: "macKey set \<Rightarrow> macKey list"
  t_ordR :: "(string \<times> string) list \<Rightarrow> (string \<times> string) list"
  t_ordA :: "(string \<times> virtual_machine list) list \<Rightarrow> (string \<times> virtual_machine list) list"
  t_now :: time

fun vmWaitingCleanupLook :: "tick list \<Rightarrow> pool_manager \<Rightarrow> pool_manager run" where
  "vmWaitingCleanupLook [] p = Ret p"
| "vmWaitingCleanupLook (c # cs) p =
     bind_run (healStaleMacEntries (t_kube c) (t_kord c) (t_ordR c) (t_ordA c) (t_now c) p)
       (\<lambda>(_, p'). vmWaitingCleanupLook cs p')"

definition tick_ok :: "tick \<Rightarrow> bool" where
  "tick_ok c \<longleftrightarrow> kube_vm_ok (t_kube c) \<and> key_order (t_kord c) \<and> range_order (t_ordR c) \<and> range_order (t_ordA c)"

text \<open>The API server tells whether there is such a machine.\<close>

definition answered :: "kube \<Rightarrow> string \<Rightarrow> bool" where
  "answered k inst \<longleftrightarrow> (\<exists>r. getvmInstance k inst = Ret r \<and> (\<forall>err. r = Inl err \<longrightarrow> IsNotFound err))"

definition all_answered :: "macMap \<Rightarrow> tick \<Rightarrow> bool" where
  "all_answered m c \<longleftrightarrow> (\<forall>(key, e)\<in>stamped_entries m. vm_name (instanceName e) \<and> answered (t_kube c) (instanceName e))"

text \<open>An object holds an address for one interface at most.\<close>

definition one_each :: "macMap \<Rightarrow> bool" where
  "one_each m \<longleftrightarrow> (\<forall>key inst. length (entries_of m key inst) \<le> 1)"

text \<open>The entries of an object at an address, healed by an answer of the API server.\<close>

definition healed_entries :: "kube \<Rightarrow> macKey \<Rightarrow> string \<Rightarrow> macEntry list \<Rightarrow> macEntry list" where
  "healed_entries k key inst es = (case getvmInstance k inst of
     Ret (Inr vm) \<Rightarrow> settle (ifaces_of vm) key es
   | _ \<Rightarrow> [])"

subsection \<open>Stale entries\<close>

lemma stale_stamped: "stale_at m now wait key inst \<Longrightarrow> \<exists>e. (key, e) \<in> stamped_entries m \<and> instanceName e = inst"
  by (auto simp: stale_at_def mem_entries_of stamped_entries_def hasExpiredTransaction_iff) blast

lemma stale_at_subset:
  assumes "stamped_entries m' \<subseteq> stamped_entries m" "stale_at m' now wait key inst" "now \<le> now'"
  shows "stale_at m now' wait key inst"
proof -
  obtain e where e: "e \<in> set (entries_of m' key inst)" "hasExpiredTransaction now e wait"
    using assms(2) by (auto simp: stale_at_def)
  then have "(key, e) \<in> stamped_entries m" using assms(1)
    by (fastforce simp: mem_entries_of stamped_entries_def hasExpiredTransaction_iff)
  moreover have "hasExpiredTransaction now' e wait" using e(2) assms(3) by (auto simp: hasExpiredTransaction_iff)
  ultimately show ?thesis using e(1) by (auto simp: stale_at_def mem_entries_of stamped_entries_def)
qed

lemma finite_stamped: "macMap_ok m \<Longrightarrow> finite (stamped_entries m)"
proof -
  assume "macMap_ok m"
  then have "finite (dom m)" by (simp add: macMap_ok_def)
  moreover have "stamped_entries m \<subseteq> Sigma (dom m) (\<lambda>key. set (the (m key)))"
    by (auto simp: stamped_entries_def)
  ultimately show ?thesis by (auto intro: finite_subset)
qed

lemma settle_unstamped: "length es \<le> 1 \<Longrightarrow> \<forall>e\<in>set (settle ifs key es). transactionTimestamp e = None"
  by (cases es) (auto simp: settle_def)

lemma healed_not_stale:
  assumes "entries_of m' key inst = healed_entries k key inst (entries_of m key inst)" "one_each m"
  shows "\<not> stale_at m' now wait key inst"
proof -
  have "\<forall>e\<in>set (entries_of m' key inst). transactionTimestamp e = None"
    using assms settle_unstamped [of "entries_of m key inst"]
    by (auto simp: one_each_def healed_entries_def split: run.splits sum.splits)
  then show ?thesis by (auto simp: stale_at_def hasExpiredTransaction_iff)
qed

subsection \<open>One round\<close>

text \<open>A stale entry of a machine that is gone leaves an object to remove at its address.\<close>

lemma scan_removes:
  assumes "for_each (scan_entry k now wait) xs h = Ret (None, h')" "(key, e) \<in> set xs"
    and "hasExpiredTransaction now e wait" "getvmInstance k (instanceName e) = Ret (Inl err)" "IsNotFound err"
  shows "\<exists>inst. map_of (macsToRemove h') (macKey_String key) = Some inst"
  using assms(1,2)
proof (rule for_each_establishes)
  show "\<And>s s'. scan_entry k now wait (key, e) s = Ret (None, s') \<Longrightarrow> \<exists>inst. map_of (macsToRemove s') (macKey_String key) = Some inst"
    using assms(3-5) by (auto simp: scan_entry_def update_conv')
next
  fix y s s'
  assume y: "scan_entry k now wait y s = Ret (None, s')" and s: "\<exists>inst. map_of (macsToRemove s) (macKey_String key) = Some inst"
  obtain key' e' where y': "y = (key', e')" by (cases y)
  show "\<exists>inst. map_of (macsToRemove s') (macKey_String key) = Some inst"
  proof (cases "hasExpiredTransaction now e' wait")
    case True
    with y obtain r where "getvmInstance k (instanceName e') = Ret r" by (auto simp: y' scan_entry_def bind_run_eq_Ret)
    with y s True show ?thesis
      by (cases r; cases "key' = key") (auto simp: y' scan_entry_def update_conv' split: if_splits)
  qed (use y s in \<open>simp add: y' scan_entry_def\<close>)
qed

lemma scan_succeeds:
  assumes "\<And>key e. (key, e) \<in> set xs \<Longrightarrow> hasExpiredTransaction now e wait \<Longrightarrow> answered k (instanceName e)"
  shows "\<exists>h'. for_each (scan_entry k now wait) xs h = Ret (None, h')"
proof -
  have "\<exists>h'. for_each (scan_entry k now wait) xs h = Ret (None, h') \<and> True \<and> ({} :: unit set) = {} \<union> (\<Union>x\<in>set xs. {})"
  proof (rule for_each_accumulates)
    fix x h assume "x \<in> set xs"
    obtain key e where x: "x = (key, e)" by (cases x)
    then have "answered k (instanceName e)" if "hasExpiredTransaction now e wait" using assms that \<open>x \<in> set xs\<close> by blast
    then show "\<exists>h'. scan_entry k now wait x h = Ret (None, h') \<and> True \<and> ({} :: unit set) = {} \<union> {}"
      by (cases "hasExpiredTransaction now e wait") (auto simp: x scan_entry_def answered_def split: sum.split)
  qed simp
  then show ?thesis by blast
qed

lemma remove_listed_empty: "entries_of m x inst = [] \<Longrightarrow> entries_of (remove_listed L m) x inst = []"
proof (induction L arbitrary: m)
  case (Cons l L)
  obtain s i where l: "l = (s, i)" by (cases l)
  have "entries_of (removeInstanceFromMac m s i) x inst = []"
    using Cons.prems entries_of_remove [of m s i] entries_of_remove_other [of x inst s i m]
    by (cases "(x, inst) = (NewMacKey s, i)") auto
  with Cons.IH show ?case by (simp add: l)
qed simp

lemma remove_listed_effect:
  assumes "(s, i) \<in> set L" "length (entries_of m (NewMacKey s) i) \<le> 1"
  shows "entries_of (remove_listed L m) (NewMacKey s) i = []"
  using assms
proof (induction L arbitrary: m)
  case (Cons l L)
  obtain s' i' where l: "l = (s', i')" by (cases l)
  let ?m = "removeInstanceFromMac m s' i'"
  show ?case
  proof (cases "(NewMacKey s', i') = (NewMacKey s, i)")
    case True
    then have "entries_of ?m (NewMacKey s) i = tl (entries_of m (NewMacKey s) i)" using entries_of_remove [of m s' i'] by simp
    also have "\<dots> = []" using Cons.prems(2) by (cases "entries_of m (NewMacKey s) i") auto
    finally show ?thesis by (simp add: l remove_listed_empty)
  next
    case False
    then have "(s, i) \<in> set L" using Cons.prems(1) l by auto
    moreover have "entries_of ?m (NewMacKey s) i = entries_of m (NewMacKey s) i" using False by (intro entries_of_remove_other) auto
    ultimately show ?thesis using Cons.IH [of ?m] Cons.prems(2) by (simp add: l)
  qed
qed simp

text \<open>What a round does to the entries of one object at one address.\<close>

definition round_ok :: "tick \<Rightarrow> pool_manager \<Rightarrow> bool" where
  "round_ok c p \<longleftrightarrow> tick_ok c \<and> macMap_ok (macPoolMap p) \<and> one_each (macPoolMap p) \<and> all_answered (macPoolMap p) c"

lemma round_ok_ready:
  assumes "round_ok c p"
  shows "heal_ready (t_kube c) (t_kord c) (t_ordR c) (t_ordA c) (t_now c) p"
    and "stale_at (macPoolMap p) (t_now c) (waitTime p) key inst \<Longrightarrow> answered (t_kube c) inst"
proof -
  have "vm_name inst \<and> answered (t_kube c) inst" if "stale_at (macPoolMap p) (t_now c) (waitTime p) key inst" for key inst
    using stale_stamped [OF that] assms by (auto simp: round_ok_def all_answered_def)
  then show "heal_ready (t_kube c) (t_kord c) (t_ordR c) (t_ordA c) (t_now c) p"
    "stale_at (macPoolMap p) (t_now c) (waitTime p) key inst \<Longrightarrow> answered (t_kube c) inst"
    using assms by (auto simp: round_ok_def tick_ok_def heal_ready_def stale_names_ok_def)
qed

lemma round_succeeds:
  assumes "round_ok c p"
  obtains h where "heal_scan (t_kube c) (t_kord c) (t_now c) p = Ret (None, h)"
    "heal_inv (t_kube c) (macPoolMap p) (t_now c) (waitTime p) h"
    "healStaleMacEntries (t_kube c) (t_kord c) (t_ordR c) (t_ordA c) (t_now c) p = Ret (None, p\<lparr>macPoolMap :=
       align_listed (align_list (t_ordA c) h) (remove_listed (t_ordR c (macsToRemove h)) (macPoolMap p))\<rparr>)"
proof -
  have "answered (t_kube c) (instanceName e)"
    if "(key, e) \<in> set (entries_in_order (t_kord c (dom (macPoolMap p))) (macPoolMap p))" "hasExpiredTransaction (t_now c) e (waitTime p)" for key e
  proof -
    have "stale_at (macPoolMap p) (t_now c) (waitTime p) key (instanceName e)"
      using that unfolding stale_at_def by (intro bexI [of _ e]) (auto simp: mem_entries_of entries_in_order_iff)
    with assms show ?thesis by (rule round_ok_ready(2))
  qed
  then obtain h where "heal_scan (t_kube c) (t_kord c) (t_now c) p = Ret (None, h)" using scan_succeeds by blast
  with round_ok_ready(1) [OF assms] that show thesis
    by (cases rule: healStaleMacEntries_cases) (auto simp: healStaleMacEntries_def bind_run_eq_Ret split: if_splits)
qed

lemma round_pairs:
  assumes "round_ok c p" "heal_scan (t_kube c) (t_kord c) (t_now c) p = Ret (None, h)"
    and "heal_inv (t_kube c) (macPoolMap p) (t_now c) (waitTime p) h" "stale_at (macPoolMap p) (t_now c) (waitTime p) key inst"
  defines "R \<equiv> t_ordR c (macsToRemove h)"
  defines "m \<equiv> align_listed (align_list (t_ordA c) h) (remove_listed R (macPoolMap p))"
  shows "entries_of m key inst = (if (\<exists>vm. getvmInstance (t_kube c) inst = Ret (Inr vm)) \<or> (macKey_String key, inst) \<in> set R
     then healed_entries (t_kube c) key inst (entries_of (macPoolMap p) key inst) else entries_of (macPoolMap p) key inst)"
proof -
  note ready = round_ok_ready(1) [OF assms(1)]
  note L = heal_list_ok [OF ready assms(3)]
  have one: "length (entries_of (macPoolMap p) key inst) \<le> 1" using assms(1) by (simp add: round_ok_def one_each_def)
  obtain r where r: "getvmInstance (t_kube c) inst = Ret r" using round_ok_ready(2) [OF assms(1,4)] by (auto simp: answered_def)
  show ?thesis
  proof (cases r)
    case (Inr vm)
    have "vm_name inst" using ready assms(4) by (auto simp: heal_ready_def stale_names_ok_def)
    then have "VmNamespaced vm = inst" using getvmInstance_returns [of inst "t_kube c"] ready r Inr by (auto simp: heal_ready_def)
    with healed_settles [OF ready assms(2,3), of key vm] assms(4) r Inr one show ?thesis
      by (simp add: m_def R_def healed_entries_def)
  next
    case (Inl err)
    have "entries_of m key inst = entries_of (remove_listed R (macPoolMap p)) key inst"
      unfolding m_def
    proof (rule align_listed_frame [OF L(1)])
      fix vm assume "(macKey_String key, vm) \<in> set (align_list (t_ordA c) h)"
      from L(3) [OF this] r Inl show "VmNamespaced vm \<noteq> inst" by auto
    qed
    moreover have "entries_of (remove_listed R (macPoolMap p)) key inst = []" if "(macKey_String key, inst) \<in> set R"
    proof -
      have "normal_key key" using L(2) [OF that [unfolded R_def]] by auto
      then have "NewMacKey (macKey_String key) = key" by (simp add: NewMacKey_normal)
      with remove_listed_effect [OF that, of "macPoolMap p"] one show ?thesis by simp
    qed
    moreover have "entries_of (remove_listed R (macPoolMap p)) key inst = entries_of (macPoolMap p) key inst"
      if "(macKey_String key, inst) \<notin> set R"
      using that L(2) unfolding R_def by (intro remove_listed_frame) (metis NewMacKey_normal Pair_inject)
    ultimately show ?thesis using r Inl by (auto simp: healed_entries_def)
  qed
qed

text \<open>Of two machines that are gone and have a stale entry at the same address, a round leaves one as it is.\<close>

lemma scan_distinct: "keeps_run (\<lambda>h. distinct (map fst (macsToRemove h))) (scan_entry k now wait x)"
proof (rule keeps_runI)
  fix h e h' assume d: "distinct (map fst (macsToRemove h))" and r: "scan_entry k now wait x h = Ret (e, h')"
  obtain key en where x: "x = (key, en)" by (cases x)
  with r d show "distinct (map fst (macsToRemove h'))"
    by (cases "getvmInstance k (instanceName en)") (auto simp: scan_entry_def intro: distinct_update split: if_splits sum.splits)
qed

lemma round_removes_one:
  assumes "round_ok c p" "stale_at (macPoolMap p) (t_now c) (waitTime p) key inst" "stale_at (macPoolMap p) (t_now c) (waitTime p) key inst'"
    and "inst \<noteq> inst'" "getvmInstance (t_kube c) inst = Ret (Inl err)" "getvmInstance (t_kube c) inst' = Ret (Inl err')"
  shows "\<exists>m. healStaleMacEntries (t_kube c) (t_kord c) (t_ordR c) (t_ordA c) (t_now c) p = Ret (None, p\<lparr>macPoolMap := m\<rparr>) \<and>
     (entries_of m key inst = entries_of (macPoolMap p) key inst \<or> entries_of m key inst' = entries_of (macPoolMap p) key inst')"
proof -
  obtain h where h: "heal_scan (t_kube c) (t_kord c) (t_now c) p = Ret (None, h)"
      "heal_inv (t_kube c) (macPoolMap p) (t_now c) (waitTime p) h"
      "healStaleMacEntries (t_kube c) (t_kord c) (t_ordR c) (t_ordA c) (t_now c) p = Ret (None, p\<lparr>macPoolMap :=
       align_listed (align_list (t_ordA c) h) (remove_listed (t_ordR c (macsToRemove h)) (macPoolMap p))\<rparr>)"
    using assms(1) by (rule round_succeeds)
  have "keeps_run (\<lambda>h. distinct (map fst (macsToRemove h))) (for_each (scan_entry (t_kube c) (t_now c) (waitTime p))
      (entries_in_order (t_kord c (dom (macPoolMap p))) (macPoolMap p)))"
    by (intro keeps_for_each scan_distinct)
  then have "distinct (map fst (macsToRemove h))" using _ h(1) by (rule keeps_runD) simp
  then have "\<not> ((macKey_String key, inst) \<in> set (macsToRemove h) \<and> (macKey_String key, inst') \<in> set (macsToRemove h))"
    using assms(4) by (metis eq_key_imp_eq_value)
  moreover have "set (t_ordR c (macsToRemove h)) = set (macsToRemove h)"
    using assms(1) by (simp add: round_ok_def tick_ok_def range_order_set)
  ultimately have "(macKey_String key, inst) \<notin> set (t_ordR c (macsToRemove h)) \<or> (macKey_String key, inst') \<notin> set (t_ordR c (macsToRemove h))"
    by blast
  with round_pairs [OF assms(1) h(1,2) assms(2)] round_pairs [OF assms(1) h(1,2) assms(3)] assms(5,6) h(3) show ?thesis by auto
qed

text \<open>At the address of a stale entry the entry of some object is healed.\<close>

lemma round_heals_one:
  assumes "round_ok c p" "heal_scan (t_kube c) (t_kord c) (t_now c) p = Ret (None, h)"
    and "heal_inv (t_kube c) (macPoolMap p) (t_now c) (waitTime p) h" "stale_at (macPoolMap p) (t_now c) (waitTime p) key inst"
  defines "m \<equiv> align_listed (align_list (t_ordA c) h) (remove_listed (t_ordR c (macsToRemove h)) (macPoolMap p))"
  shows "\<exists>inst'. stale_at (macPoolMap p) (t_now c) (waitTime p) key inst' \<and>
     entries_of m key inst' = healed_entries (t_kube c) key inst' (entries_of (macPoolMap p) key inst')"
proof (cases "\<exists>vm. getvmInstance (t_kube c) inst = Ret (Inr vm)")
  case True
  with round_pairs [OF assms(1-4)] assms(4) show ?thesis unfolding m_def by auto
next
  case False
  note ready = round_ok_ready(1) [OF assms(1)]
  obtain err where err: "getvmInstance (t_kube c) inst = Ret (Inl err)" "IsNotFound err"
    using False round_ok_ready(2) [OF assms(1,4)] unfolding answered_def by (metis sum.exhaust)
  obtain e where e: "e \<in> set (entries_of (macPoolMap p) key inst)" "hasExpiredTransaction (t_now c) e (waitTime p)"
    using assms(4) by (auto simp: stale_at_def)
  have "(key, e) \<in> set (entries_in_order (t_kord c (dom (macPoolMap p))) (macPoolMap p))" using ready e(1) by (rule heal_scans)
  from scan_removes [OF assms(2) this e(2) _ err(2)] e(1) err(1) obtain inst' where
    "map_of (macsToRemove h) (macKey_String key) = Some inst'" by (auto simp: mem_entries_of)
  then have R: "(macKey_String key, inst') \<in> set (t_ordR c (macsToRemove h))"
    using ready by (auto simp: heal_ready_def range_order_set dest: map_of_SomeD)
  from heal_list_ok(2) [OF ready assms(3) R] have "stale_at (macPoolMap p) (t_now c) (waitTime p) key inst'" by auto
  with round_pairs [OF assms(1-3) this] R show ?thesis unfolding m_def by auto
qed

lemma round_effect:
  assumes "round_ok c p"
  obtains m where "healStaleMacEntries (t_kube c) (t_kord c) (t_ordR c) (t_ordA c) (t_now c) p = Ret (None, p\<lparr>macPoolMap := m\<rparr>)"
    "macMap_ok m" "one_each m" "stamped_entries m \<subseteq> stamped_entries (macPoolMap p)"
    "\<And>key inst. entries_of m key inst = entries_of (macPoolMap p) key inst \<or> stale_at (macPoolMap p) (t_now c) (waitTime p) key inst \<and>
       entries_of m key inst = healed_entries (t_kube c) key inst (entries_of (macPoolMap p) key inst)"
    "\<And>key inst. stale_at (macPoolMap p) (t_now c) (waitTime p) key inst \<Longrightarrow> stamped_entries m \<noteq> stamped_entries (macPoolMap p)"
proof -
  let ?m0 = "macPoolMap p" and ?stale = "stale_at (macPoolMap p) (t_now c) (waitTime p)"
  obtain h where h: "heal_scan (t_kube c) (t_kord c) (t_now c) p = Ret (None, h)"
      "heal_inv (t_kube c) ?m0 (t_now c) (waitTime p) h"
      "healStaleMacEntries (t_kube c) (t_kord c) (t_ordR c) (t_ordA c) (t_now c) p = Ret (None, p\<lparr>macPoolMap :=
       align_listed (align_list (t_ordA c) h) (remove_listed (t_ordR c (macsToRemove h)) ?m0)\<rparr>)"
    using assms by (rule round_succeeds)
  define m where "m = align_listed (align_list (t_ordA c) h) (remove_listed (t_ordR c (macsToRemove h)) ?m0)"
  note ready = round_ok_ready(1) [OF assms]
  obtain e m' where m': "healStaleMacEntries (t_kube c) (t_kord c) (t_ordR c) (t_ordA c) (t_now c) p = Ret (e, p\<lparr>macPoolMap := m'\<rparr>)"
      "macMap_ok m'" "stamped_entries m' \<subseteq> stamped_entries ?m0" "\<And>key inst. \<not> ?stale key inst \<Longrightarrow> entries_of m' key inst = entries_of ?m0 key inst"
    using healStaleMacEntries_ends [OF ready] by blast
  have "p\<lparr>macPoolMap := m'\<rparr> = p\<lparr>macPoolMap := m\<rparr>" using m'(1) h(3) by (simp add: m_def)
  from arg_cong [OF this, of macPoolMap] have "m' = m" by simp
  note m = m'(2-4) [unfolded this]
  have each: "entries_of m key inst = entries_of ?m0 key inst \<or> ?stale key inst \<and>
      entries_of m key inst = healed_entries (t_kube c) key inst (entries_of ?m0 key inst)" for key inst
    using m(3) round_pairs [OF assms h(1,2), folded m_def, of key inst] by (cases "?stale key inst") (auto split: if_splits)
  have one: "one_each ?m0" using assms by (simp add: round_ok_def)
  have "length (healed_entries (t_kube c) key inst (entries_of ?m0 key inst)) \<le> 1" for key inst
    using one settle_length by (auto simp: one_each_def healed_entries_def split: run.split sum.split) (meson order_trans)
  with each one have "one_each m" unfolding one_each_def by metis
  moreover have "stamped_entries m \<noteq> stamped_entries ?m0" if "?stale key inst" for key inst
    using round_heals_one [OF assms h(1,2) that, folded m_def] healed_not_stale [OF _ one]
      stale_at_subset [of ?m0 m "t_now c" "waitTime p"] by blast
  ultimately show thesis using that m each h(3) unfolding m_def by blast
qed

subsection \<open>The rounds together\<close>

lemma all_answered_subset: "all_answered m c \<Longrightarrow> stamped_entries m' \<subseteq> stamped_entries m \<Longrightarrow> all_answered m' c"
  unfolding all_answered_def by blast

text \<open>
  Over the rounds an entry stays as it is until the round that heals it, after which it is no longer in a transaction.
\<close>

lemma rounds_pair:
  assumes "one_each m0" "stamped_entries m1 \<subseteq> stamped_entries m0"
    and "entries_of m1 key inst = entries_of m0 key inst \<or> stale_at m0 (t_now c) w key inst \<and>
      entries_of m1 key inst = healed_entries (t_kube c) key inst (entries_of m0 key inst)"
    and "entries_of m key inst = entries_of m1 key inst \<or> (\<exists>d\<in>set cs. stale_at m1 (t_now d) w key inst \<and>
      entries_of m key inst = healed_entries (t_kube d) key inst (entries_of m1 key inst))"
  shows "entries_of m key inst = entries_of m0 key inst \<or> (\<exists>d\<in>set (c # cs). stale_at m0 (t_now d) w key inst \<and>
      entries_of m key inst = healed_entries (t_kube d) key inst (entries_of m0 key inst))"
  using assms(3)
proof
  assume "entries_of m1 key inst = entries_of m0 key inst"
  moreover have "stale_at m0 (t_now d) w key inst" if "stale_at m1 (t_now d) w key inst" for d
    using stale_at_subset [OF assms(2) that order_refl] .
  ultimately show ?thesis using assms(4) by (metis list.set_intros(2))
next
  assume healed: "stale_at m0 (t_now c) w key inst \<and> entries_of m1 key inst = healed_entries (t_kube c) key inst (entries_of m0 key inst)"
  then have "\<not> stale_at m1 t w key inst" for t using healed_not_stale assms(1) by blast
  with assms(4) healed show ?thesis by auto
qed

lemma cleanup_rounds:
  assumes "macMap_ok (macPoolMap p)" "one_each (macPoolMap p)" "\<forall>c\<in>set cs. tick_ok c \<and> all_answered (macPoolMap p) c"
  shows "\<exists>m. vmWaitingCleanupLook cs p = Ret (p\<lparr>macPoolMap := m\<rparr>) \<and> macMap_ok m \<and> one_each m \<and>
     stamped_entries m \<subseteq> stamped_entries (macPoolMap p) \<and>
     (\<forall>key inst. entries_of m key inst = entries_of (macPoolMap p) key inst \<or>
        (\<exists>c\<in>set cs. stale_at (macPoolMap p) (t_now c) (waitTime p) key inst \<and>
           entries_of m key inst = healed_entries (t_kube c) key inst (entries_of (macPoolMap p) key inst))) \<and>
     (card (stamped_entries (macPoolMap p)) \<le> length cs \<longrightarrow> (\<forall>c\<in>set cs. now \<le> t_now c) \<longrightarrow>
        (\<forall>key inst. \<not> stale_at m now (waitTime p) key inst))"
  using assms
proof (induction cs arbitrary: p)
  case Nil
  then have "stamped_entries (macPoolMap p) = {}" if "card (stamped_entries (macPoolMap p)) = 0"
    using that finite_stamped by auto
  with Nil stale_stamped show ?case by (intro exI [of _ "macPoolMap p"]) fastforce
next
  case (Cons c cs)
  let ?m0 = "macPoolMap p" and ?w = "waitTime p"
  from Cons.prems have "round_ok c p" by (simp add: round_ok_def)
  then obtain m1 where m1: "healStaleMacEntries (t_kube c) (t_kord c) (t_ordR c) (t_ordA c) (t_now c) p = Ret (None, p\<lparr>macPoolMap := m1\<rparr>)"
      "macMap_ok m1" "one_each m1" "stamped_entries m1 \<subseteq> stamped_entries ?m0"
      "\<And>key inst. entries_of m1 key inst = entries_of ?m0 key inst \<or> stale_at ?m0 (t_now c) ?w key inst \<and>
         entries_of m1 key inst = healed_entries (t_kube c) key inst (entries_of ?m0 key inst)"
      "\<And>key inst. stale_at ?m0 (t_now c) ?w key inst \<Longrightarrow> stamped_entries m1 \<noteq> stamped_entries ?m0"
    by (rule round_effect) blast
  have "all_answered m1 d" if "d \<in> set cs" for d
    using Cons.prems(3) that all_answered_subset [OF _ m1(4)] by auto
  with Cons.IH [of "p\<lparr>macPoolMap := m1\<rparr>"] m1(2,3) Cons.prems(3) obtain m where
    m: "vmWaitingCleanupLook cs (p\<lparr>macPoolMap := m1\<rparr>) = Ret (p\<lparr>macPoolMap := m\<rparr>)" "macMap_ok m" "one_each m"
      "stamped_entries m \<subseteq> stamped_entries m1"
      "\<And>key inst. entries_of m key inst = entries_of m1 key inst \<or> (\<exists>d\<in>set cs. stale_at m1 (t_now d) ?w key inst \<and>
         entries_of m key inst = healed_entries (t_kube d) key inst (entries_of m1 key inst))"
      "card (stamped_entries m1) \<le> length cs \<Longrightarrow> \<forall>d\<in>set cs. now \<le> t_now d \<Longrightarrow> \<not> stale_at m now ?w key inst" for key inst
    by auto
  have "entries_of m key inst = entries_of ?m0 key inst \<or> (\<exists>d\<in>set (c # cs). stale_at ?m0 (t_now d) ?w key inst \<and>
      entries_of m key inst = healed_entries (t_kube d) key inst (entries_of ?m0 key inst))" for key inst
    using rounds_pair [OF Cons.prems(2) m1(4,5) m(5)] .
  moreover have "\<not> stale_at m now ?w key inst"
    if "card (stamped_entries ?m0) \<le> length (c # cs)" "\<forall>d\<in>set (c # cs). now \<le> t_now d" for key inst
  proof (cases "\<exists>key inst. stale_at ?m0 now ?w key inst")
    case True
    then have "stamped_entries m1 \<noteq> stamped_entries ?m0" using m1(6) stale_at_subset [OF subset_refl] that(2) by (meson list.set_intros(1))
    then have "card (stamped_entries m1) < card (stamped_entries ?m0)"
      using m1(4) finite_stamped [OF Cons.prems(1)] by (simp add: psubset_card_mono psubset_eq)
    with that show ?thesis by (intro m(6)) auto
  next
    case False
    with stale_at_subset [OF subset_trans [OF m(4) m1(4)]] show ?thesis by blast
  qed
  moreover have "vmWaitingCleanupLook (c # cs) p = Ret (p\<lparr>macPoolMap := m\<rparr>)" using m1(1) m(1) by simp
  moreover have "stamped_entries m \<subseteq> stamped_entries ?m0" using m(4) m1(4) by blast
  ultimately show ?case using m(2,3) by blast
qed

subsection \<open>Properties\<close>

text \<open>C22: The cleanup loop heals what is stale. When the API server answers every look-up, each round of the loop
  returns, and as many rounds as there are entries in a transaction, at any times from \<open>now\<close> on, leave nothing that was stale at
  \<open>now\<close>: each such entry is gone if the cluster did not know its machine in the round that healed it, and otherwise
  settled by the interfaces of the machine. The entries that were not stale in any of the rounds are as before. Asked for: an
  object holds an address for one interface at most.\<close>

theorem cleanup_loop_heals:
  assumes "macMap_ok (macPoolMap p)" "one_each (macPoolMap p)" "\<forall>c\<in>set cs. tick_ok c \<and> all_answered (macPoolMap p) c"
    and "card (stamped_entries (macPoolMap p)) \<le> length cs" "\<forall>c\<in>set cs. now \<le> t_now c"
  shows "\<exists>m. vmWaitingCleanupLook cs p = Ret (p\<lparr>macPoolMap := m\<rparr>) \<and> macMap_ok m \<and>
     (\<forall>key inst. \<not> stale_at m now (waitTime p) key inst) \<and>
     (\<forall>key inst. if stale_at (macPoolMap p) now (waitTime p) key inst
        then \<exists>c\<in>set cs. entries_of m key inst = healed_entries (t_kube c) key inst (entries_of (macPoolMap p) key inst)
        else (\<forall>c\<in>set cs. \<not> stale_at (macPoolMap p) (t_now c) (waitTime p) key inst) \<longrightarrow>
          entries_of m key inst = entries_of (macPoolMap p) key inst)"
proof -
  obtain m where m: "vmWaitingCleanupLook cs p = Ret (p\<lparr>macPoolMap := m\<rparr>)" "macMap_ok m"
      "\<And>key inst. entries_of m key inst = entries_of (macPoolMap p) key inst \<or>
        (\<exists>c\<in>set cs. stale_at (macPoolMap p) (t_now c) (waitTime p) key inst \<and>
           entries_of m key inst = healed_entries (t_kube c) key inst (entries_of (macPoolMap p) key inst))"
      "\<And>key inst. \<not> stale_at m now (waitTime p) key inst"
    using cleanup_rounds [OF assms(1-3), of now] assms(4,5) by blast
  have "entries_of m key inst \<noteq> entries_of (macPoolMap p) key inst" if "stale_at (macPoolMap p) now (waitTime p) key inst" for key inst
    using that m(4) by (metis stale_at_def)
  with m show ?thesis by (intro exI [of _ m]) (metis (no_types, lifting))
qed

text \<open>
  Two machines that were never stored are in the pool at one address: the first round removes one of them, the second round the other.
\<close>

definition sample_tick :: tick where
  "sample_tick = \<lparr>t_kube = heal_kube, t_kord = sorted_list_of_set, t_ordR = \<lambda>xs. xs, t_ordA = \<lambda>xs. xs, t_now = 1000000000000\<rparr>"

definition waiting_entry :: "string \<Rightarrow> macEntry" where
  "waiting_entry n = \<lparr>instanceName = ''vm/default/'' @ n, macInstanceKey = ''br1'', transactionTimestamp = Some 5\<rparr>"

definition waiting_pool :: pool_manager where
  "waiting_pool = sample_pool\<lparr>macPoolMap := [sample_key \<mapsto> [waiting_entry ''vm2'', waiting_entry ''vm3'']]\<rparr>"

lemma waiting_answers:
  assumes "n \<in> {''vm2'', ''vm3''}"
  shows "getvmInstance heal_kube (''vm/default/'' @ n) = Ret (Inl (ErrApi NotFound))" "vm_name (''vm/default/'' @ n)"
proof -
  have n: "CHR ''/'' \<notin> set n" "n \<noteq> []" "n \<noteq> ''vm1''" using assms by auto
  from getvmInstance_vm_name [of "''default''" n heal_kube] n
  show "getvmInstance heal_kube (''vm/default/'' @ n) = Ret (Inl (ErrApi NotFound))" by (simp add: heal_kube_def)
  show "vm_name (''vm/default/'' @ n)"
    unfolding vm_name_def using n(1) by (intro exI [of _ "''default''"] exI [of _ n]) simp
qed

lemma waiting_pool_facts:
  "macMap_ok (macPoolMap waiting_pool)" "one_each (macPoolMap waiting_pool)" "tick_ok sample_tick"
  "all_answered (macPoolMap waiting_pool) sample_tick" "card (stamped_entries (macPoolMap waiting_pool)) = 2"
  "stale_at (macPoolMap waiting_pool) 1000000000000 (waitTime waiting_pool) sample_key ''vm/default/vm2''"
proof -
  have "normal_key sample_key" using sample_map_facts(1) by (auto simp: macMap_ok_def sample_map_def split: if_splits)
  then show "macMap_ok (macPoolMap waiting_pool)"
    by (auto simp: macMap_ok_def waiting_pool_def waiting_entry_def entries_ok_def holder_def split: if_splits)
  show "one_each (macPoolMap waiting_pool)" by (simp add: one_each_def entries_of_def waiting_pool_def waiting_entry_def)
  show "tick_ok sample_tick" using heal_sample_ready by (simp add: heal_ready_def tick_ok_def sample_tick_def)
  have st: "stamped_entries (macPoolMap waiting_pool) = {(sample_key, waiting_entry ''vm2''), (sample_key, waiting_entry ''vm3'')}"
    by (auto simp: stamped_entries_def waiting_pool_def waiting_entry_def split: if_splits)
  then show "card (stamped_entries (macPoolMap waiting_pool)) = 2" by (simp add: waiting_entry_def)
  show "all_answered (macPoolMap waiting_pool) sample_tick"
    using waiting_answers [of "''vm2''"] waiting_answers [of "''vm3''"]
    by (simp add: all_answered_def answered_def st sample_tick_def) (simp add: waiting_entry_def)
  show "stale_at (macPoolMap waiting_pool) 1000000000000 (waitTime waiting_pool) sample_key ''vm/default/vm2''"
    using wait_duration_exact [of 600]
    by (simp add: stale_at_def entries_of_def waiting_pool_def waiting_entry_def sample_pool_def hasExpiredTransaction_iff)
qed

theorem cleanup_loop_heals_witness:
  "\<exists>m. vmWaitingCleanupLook [sample_tick, sample_tick] waiting_pool = Ret (waiting_pool\<lparr>macPoolMap := m\<rparr>) \<and>
     (\<forall>key inst. \<not> stale_at m 1000000000000 (waitTime waiting_pool) key inst) \<and> entries_of m sample_key ''vm/default/vm2'' = []"
proof -
  let ?cs = "[sample_tick, sample_tick]"
  have "\<forall>c\<in>set ?cs. tick_ok c \<and> all_answered (macPoolMap waiting_pool) c" using waiting_pool_facts(3,4) by simp
  moreover have "card (stamped_entries (macPoolMap waiting_pool)) \<le> length ?cs" using waiting_pool_facts(5) by simp
  moreover have "\<forall>c\<in>set ?cs. 1000000000000 \<le> t_now c" by (simp add: sample_tick_def)
  ultimately obtain m where m: "vmWaitingCleanupLook ?cs waiting_pool = Ret (waiting_pool\<lparr>macPoolMap := m\<rparr>)"
      "\<forall>key inst. \<not> stale_at m 1000000000000 (waitTime waiting_pool) key inst"
      "\<And>key inst. stale_at (macPoolMap waiting_pool) 1000000000000 (waitTime waiting_pool) key inst \<Longrightarrow>
         \<exists>c\<in>set ?cs. entries_of m key inst = healed_entries (t_kube c) key inst (entries_of (macPoolMap waiting_pool) key inst)"
    using cleanup_loop_heals [OF waiting_pool_facts(1,2), of ?cs 1000000000000] by metis
  from m(3) [OF waiting_pool_facts(6)] have "entries_of m sample_key ''vm/default/vm2'' = []"
    using waiting_answers(1) [of "''vm2''"] by (simp add: healed_entries_def sample_tick_def)
  with m(1,2) show ?thesis by blast
qed

end
