(* ===== verification/Govulncheck.thy ===== *)
theory Govulncheck
  imports Tls
begin

section \<open>The report parser: \<open>tools/govulncheck-parser\<close>\<close>

text \<open>
  A tool of the build: it reads the output of \<open>govulncheck -json\<close>, mixed with other lines, and says
  whether the code is affected by a given CVE. The JSON decoder is an argument: the list of the values it
  reads from the text before its first error or the end, since the loop stops at both.

  Shown: what the filter of lines does and that it can be repeated; and exactly when each of the three
  answers is given.
\<close>

subsection \<open>Lines\<close>

text \<open>The encodings of the characters that \<open>bytes.TrimSpace\<close> removes: \<open>unicode.IsSpace\<close> in UTF-8.\<close>

definition bytes_of :: "nat list \<Rightarrow> string" where
  "bytes_of = map char_of"

definition space_codes :: "string list" where
  "space_codes = map bytes_of ([[9], [10], [11], [12], [13], [32], [0xC2, 0x85], [0xC2, 0xA0], [0xE1, 0x9A, 0x80],
      [0xE2, 0x80, 0xA8], [0xE2, 0x80, 0xA9], [0xE2, 0x80, 0xAF], [0xE2, 0x81, 0x9F], [0xE3, 0x80, 0x80]] @
     map (\<lambda>n. [0xE2, 0x80, n]) [0x80..<0x8B])"

function trim_with :: "string list \<Rightarrow> string \<Rightarrow> string" where
  "trim_with codes s = (case find (\<lambda>w. w \<noteq> [] \<and> take (length w) s = w) codes of
     Some w \<Rightarrow> trim_with codes (drop (length w) s)
   | None \<Rightarrow> s)"
  by pat_completeness auto
termination
proof (relation "measure (\<lambda>(_, s). length s)")
  fix codes s w
  assume "find (\<lambda>w. w \<noteq> [] \<and> take (length w) s = w) codes = Some w"
  then have "w \<noteq> []" "take (length w) s = w" by (auto simp: find_Some_iff)
  then have "s \<noteq> []" "w \<noteq> []" by auto
  then show "((codes, drop (length w) s), codes, s) \<in> measure (\<lambda>(_, s). length s)" by simp
qed simp

declare trim_with.simps [simp del]

definition TrimSpace :: "string \<Rightarrow> string" where
  "TrimSpace s = rev (trim_with (map rev space_codes) (rev (trim_with space_codes s)))"

definition starts_json :: "char \<Rightarrow> bool" where
  "starts_json c \<longleftrightarrow> c = CHR ''{'' \<or> c = CHR ''}'' \<or> c = CHR 0x22 \<or> c = CHR ''['' \<or> c = CHR '']'' \<or> c = CHR '','' \<or>
     (of_char (CHR ''0'') :: nat) \<le> of_char c \<and> (of_char c :: nat) \<le> of_char (CHR ''9'')"

definition keeps_line :: "string \<Rightarrow> bool" where
  "keeps_line line \<longleftrightarrow> (let trimmed = TrimSpace line in
     length trimmed = 0 \<or> starts_json (trimmed ! 0) \<or> trimmed = ''true'' \<or> trimmed = ''false'' \<or> trimmed = ''null'')"

definition stripNonJSON :: "string \<Rightarrow> string" where
  "stripNonJSON data = concat (map (\<lambda>line. if keeps_line line then line @ [CHR 0x0A] else [])
     (split_on (CHR 0x0A) data))"

subsection \<open>The answer\<close>

record osv_entry =
  osv_ID :: string
  Aliases :: "string list"

record report_record =
  OSV :: "osv_entry option"
  Finding :: "string option"

type_synonym report_state = "string set \<times> string set"

definition read_record :: "string \<Rightarrow> report_record \<Rightarrow> report_state \<Rightarrow> report_state" where
  "read_record cveID rec = (\<lambda>(osvIDsForCVE, findingOSVIDs).
     ((case OSV rec of
         None \<Rightarrow> osvIDsForCVE
       | Some e \<Rightarrow> fold (\<lambda>alias ids. if alias = cveID then insert (osv_ID e) ids else ids) (Aliases e) osvIDsForCVE),
      (case Finding rec of
         None \<Rightarrow> findingOSVIDs
       | Some osv \<Rightarrow> if osv \<noteq> [] then insert osv findingOSVIDs else findingOSVIDs)))"

definition CheckCVE :: "(string \<Rightarrow> report_record list) \<Rightarrow> go_error + string \<Rightarrow> string \<Rightarrow> go_error + string" where
  "CheckCVE decode input cveID = (case input of
     Inl err \<Rightarrow> Inl (ErrWrap ''reading input'' err)
   | Inr raw \<Rightarrow>
       (let data = stripNonJSON raw;
            (osvIDsForCVE, findingOSVIDs) = fold (read_record cveID) (decode data) ({}, {})
        in if \<exists>id\<in>osvIDsForCVE. id \<in> findingOSVIDs then Inr ''AFFECTED''
           else if osvIDsForCVE \<noteq> {} then Inr ''NOT_REACHABLE''
           else Inr ''NOT_FOUND''))"

text \<open>The exit code and what is printed.\<close>

definition govulncheck_main ::
    "(string \<Rightarrow> report_record list) \<Rightarrow> go_error + string \<Rightarrow> string list \<Rightarrow> int \<times> string option" where
  "govulncheck_main decode stdin args =
     (if length args \<noteq> 2 then (2, None)
      else case CheckCVE decode stdin (args ! 1) of Inl _ \<Rightarrow> (1, None) | Inr result \<Rightarrow> (0, Some result))"

subsection \<open>The filter\<close>

lemma split_on_lines:
  assumes "\<forall>l\<in>set ls. sep \<notin> set l"
  shows "split_on sep (concat (map (\<lambda>l. l @ [sep]) ls)) = ls @ [[]]"
  using assms
proof (induction ls)
  case (Cons l ls)
  then show ?case using split_on_sep [of sep l "concat (map (\<lambda>l. l @ [sep]) ls)"] by simp
qed simp

lemma trim_with_Nil [simp]: "trim_with codes [] = []"
proof -
  have "find (\<lambda>w. w \<noteq> [] \<and> take (length w) [] = w) codes = None" by (auto simp: find_None_iff)
  then show ?thesis by (simp add: trim_with.simps [of codes "[]"])
qed

lemma keeps_empty_line [simp]: "keeps_line []"
  by (simp add: keeps_line_def TrimSpace_def)

lemma stripNonJSON_eq:
  "stripNonJSON data = concat (map (\<lambda>l. l @ [CHR 0x0A]) (filter keeps_line (split_on (CHR 0x0A) data)))"
proof -
  have "concat (map (\<lambda>l. if keeps_line l then l @ [CHR 0x0A] else []) ls) =
      concat (map (\<lambda>l. l @ [CHR 0x0A]) (filter keeps_line ls))" for ls
    by (induction ls) auto
  then show ?thesis by (simp add: stripNonJSON_def)
qed

text \<open>Repeating the filter only adds a line feed.\<close>

lemma stripNonJSON_again: "stripNonJSON (stripNonJSON data) = stripNonJSON data @ [CHR 0x0A]"
proof -
  let ?ls = "filter keeps_line (split_on (CHR 0x0A) data)"
  have "\<forall>l\<in>set ?ls. CHR 0x0A \<notin> set l" by (auto dest: split_on_pieces)
  from split_on_lines [OF this] have "split_on (CHR 0x0A) (stripNonJSON data) = ?ls @ [[]]"
    by (simp add: stripNonJSON_eq)
  then have "stripNonJSON (stripNonJSON data) = concat (map (\<lambda>l. l @ [CHR 0x0A]) (?ls @ [[]]))"
    by (simp add: stripNonJSON_eq [of "stripNonJSON data"])
  then show ?thesis by (simp add: stripNonJSON_eq [of data])
qed

subsection \<open>The answer\<close>

definition ids_for :: "string \<Rightarrow> report_record set \<Rightarrow> string set" where
  "ids_for cve R = {osv_ID e | r e. r \<in> R \<and> OSV r = Some e \<and> cve \<in> set (Aliases e)}"

definition found_ids :: "report_record set \<Rightarrow> string set" where
  "found_ids R = {f. f \<noteq> [] \<and> (\<exists>r\<in>R. Finding r = Some f)}"

lemma alias_loop:
  "fold (\<lambda>alias ids. if alias = cve then insert x ids else ids) as ids = (if cve \<in> set as then insert x ids else ids)"
  by (induction as arbitrary: ids) auto

lemma read_records:
  "fold (read_record cve) rs (A, B) = (A \<union> ids_for cve (set rs), B \<union> found_ids (set rs))"
proof (induction rs arbitrary: A B)
  case (Cons r rs)
  have "read_record cve r (A, B) = (A \<union> ids_for cve {r}, B \<union> found_ids {r})"
    by (cases "OSV r"; cases "Finding r") (auto simp: read_record_def alias_loop ids_for_def found_ids_def)
  moreover have "ids_for cve {r} \<union> ids_for cve (set rs) = ids_for cve (set (r # rs))"
    "found_ids {r} \<union> found_ids (set rs) = found_ids (set (r # rs))"
    by (auto simp: ids_for_def found_ids_def)
  ultimately show ?case using Cons by (simp add: Un_assoc)
qed (simp add: ids_for_def found_ids_def)

lemma CheckCVE_answers:
  "CheckCVE decode (Inr raw) cve =
     (let R = set (decode (stripNonJSON raw)) in
      Inr (if ids_for cve R \<inter> found_ids R \<noteq> {} then ''AFFECTED''
           else if ids_for cve R \<noteq> {} then ''NOT_REACHABLE'' else ''NOT_FOUND''))"
  by (auto simp: CheckCVE_def read_records Let_def)

text \<open>C40: The parser answers from the set of records it can read, in whatever order and however often they come: it says
  that the code is affected exactly when a finding names an entry of the vulnerability database that lists the CVE among
  its aliases, that it is not reachable exactly when an entry lists the CVE and no finding names such an entry, and else that
  the CVE is not found. It fails only when its input cannot be read.\<close>

theorem CheckCVE_correct:
  assumes "R = set (decode (stripNonJSON raw))"
  shows "CheckCVE decode (Inr raw) cve \<in> {Inr ''AFFECTED'', Inr ''NOT_REACHABLE'', Inr ''NOT_FOUND''} \<and>
     (CheckCVE decode (Inr raw) cve = Inr ''AFFECTED'' \<longleftrightarrow>
        (\<exists>r\<in>R. \<exists>e. OSV r = Some e \<and> cve \<in> set (Aliases e) \<and> osv_ID e \<noteq> [] \<and> (\<exists>f\<in>R. Finding f = Some (osv_ID e)))) \<and>
     (CheckCVE decode (Inr raw) cve = Inr ''NOT_FOUND'' \<longleftrightarrow>
        (\<forall>r\<in>R. \<forall>e. OSV r = Some e \<longrightarrow> cve \<notin> set (Aliases e))) \<and>
     CheckCVE decode (Inl err) cve = Inl (ErrWrap ''reading input'' err)"
  unfolding CheckCVE_answers Let_def assms [symmetric]
  by (auto simp: ids_for_def found_ids_def CheckCVE_def)

theorem CheckCVE_correct_witness:
  "CheckCVE (\<lambda>_. [\<lparr>OSV = None, Finding = Some ''GO-1''\<rparr>, \<lparr>OSV = Some \<lparr>osv_ID = ''GO-1'', Aliases = [''CVE-1'']\<rparr>, Finding = None\<rparr>])
     (Inr ''{}'') ''CVE-1'' = Inr ''AFFECTED''"
  using CheckCVE_correct [OF refl, of
      "\<lambda>_. [\<lparr>OSV = None, Finding = Some ''GO-1''\<rparr>, \<lparr>OSV = Some \<lparr>osv_ID = ''GO-1'', Aliases = [''CVE-1'']\<rparr>, Finding = None\<rparr>]"
      "''{}''" "''CVE-1''"] by simp

end
